(* ===== verification/Types.thy ===== *)
theory Types
  imports Prelude "HOL-Library.Word"
begin

section \<open>Protocol data (protocol/types.go)\<close>

text \<open>
  The data that all components exchange: roles, tool calls, messages, usage, chunks and the
  typed errors of the protocol layer. A value of Go's \<open>any\<close> that JSON decoding produces or
  encoding takes is a \<open>gany\<close>; a \<open>float64\<close> is kept as its 64-bit pattern, and \<open>GRaw\<close> is a
  \<open>json.RawMessage\<close>, text that is already JSON.
\<close>

datatype gany =
    GNil
  | GBool bool
  | GNum "64 word"
  | GInt int
  | GRaw string
  | GStr string
  | GArr "gany list"
  | GObj "(string \<times> gany) list"

type_synonym role = string

abbreviation RoleSystem :: role where "RoleSystem \<equiv> ''system''"
abbreviation RoleUser :: role where "RoleUser \<equiv> ''user''"
abbreviation RoleAssistant :: role where "RoleAssistant \<equiv> ''assistant''"
abbreviation RoleTool :: role where "RoleTool \<equiv> ''tool''"

record ToolCall =
  tc_ID :: string
  tc_Type :: string
  tc_Name :: string
  tc_Arguments :: string

record ToolSchema =
  ts_Name :: string
  ts_Description :: string
  ts_Parameters :: string

record Message =
  m_Role :: role
  m_Content :: string
  m_ReasoningContent :: string
  m_ToolCalls :: "ToolCall list"
  m_ToolCallID :: string
  m_Name :: string
  m_MultiContent :: "(string \<times> gany) list list"

definition zero_Message :: Message where
  "zero_Message = \<lparr>m_Role = [], m_Content = [], m_ReasoningContent = [], m_ToolCalls = [],
     m_ToolCallID = [], m_Name = [], m_MultiContent = []\<rparr>"

record Usage =
  PromptTokens :: int
  CompletionTokens :: int
  TotalTokens :: int

record Response =
  r_Content :: string
  r_ReasoningContent :: string
  r_ToolCalls :: "ToolCall list"
  r_Usage :: "Usage option"
  r_Warning :: string

datatype ChunkType =
    ChunkText | ChunkReasoning | ChunkToolCallStart | ChunkToolCall | ChunkUsage | ChunkWarn
  | ChunkDone | ChunkError | ChunkRawRequest | ChunkRawResponse | ChunkRawError

text \<open>
  Errors that cross component boundaries. \<open>ErrMsg\<close> is an \<open>fmt.Errorf\<close>/\<open>errors.New\<close> value
  with no wrapped error; \<open>ErrWrap\<close> is \<open>fmt.Errorf("...: %w", err)\<close>.
\<close>

datatype gerror =
    ErrMsg string
  | ErrWrap string gerror
  | ErrCanceled
  | ErrDeadlineExceeded
  | ErrEOF
  | ErrUnexpectedEOF
  | ErrNetClosed
  | ErrConnReset
  | ErrConnAborted
  | ErrNet string
  | AuthError nat nat bool
  | APIError nat nat string
  | StreamInterruptedError bool gerror

text \<open>The result of a call that may panic.\<close>

datatype 'a outcome = Ok 'a | Err gerror | Panic

record Chunk =
  ch_Type :: ChunkType
  ch_Text :: string
  ch_ToolCall :: "ToolCall option"
  ch_Usage :: "Usage option"
  ch_Warning :: string
  ch_Error :: "gerror option"

definition zero_Chunk :: "ChunkType \<Rightarrow> Chunk" where
  "zero_Chunk t = \<lparr>ch_Type = t, ch_Text = [], ch_ToolCall = None, ch_Usage = None,
     ch_Warning = [], ch_Error = None\<rparr>"

text \<open>\<open>Error()\<close>: the message of an error value.\<close>

definition bool_text :: "bool \<Rightarrow> string" where
  "bool_text b = (if b then ''true'' else ''false'')"

fun error_string :: "gerror \<Rightarrow> string" where
  "error_string (ErrMsg s) = s"
| "error_string (ErrWrap s e) = s @ '': '' @ error_string e"
| "error_string ErrCanceled = ''context canceled''"
| "error_string ErrDeadlineExceeded = ''context deadline exceeded''"
| "error_string ErrEOF = ''EOF''"
| "error_string ErrUnexpectedEOF = ''unexpected EOF''"
| "error_string ErrNetClosed = ''use of closed network connection''"
| "error_string ErrConnReset = ''connection reset by peer''"
| "error_string ErrConnAborted = ''software caused connection abort''"
| "error_string (ErrNet s) = s"
| "error_string (AuthError v st k) = ''auth error (vendor='' @ show_nat v @ '', status='' @ show_nat st @ '', has_key='' @ bool_text k @ '')''"
| "error_string (APIError v st body) = ''api error (vendor='' @ show_nat v @ '', status='' @ show_nat st
     @ (if body = [] then '')'' else ''): '' @ body)"
| "error_string (StreamInterruptedError b e) = ''stream interrupted (emitted='' @ bool_text b @ ''): '' @ error_string e"

text \<open>\<open>errors.Is\<close> against a sentinel and the error chain of \<open>Unwrap\<close>.\<close>

fun error_chain :: "gerror \<Rightarrow> gerror list" where
  "error_chain (ErrWrap s e) = ErrWrap s e # error_chain e"
| "error_chain (StreamInterruptedError b e) = StreamInterruptedError b e # error_chain e"
| "error_chain e = [e]"

definition errors_Is :: "gerror \<Rightarrow> gerror \<Rightarrow> bool" where
  "errors_Is err target = (target \<in> set (error_chain err))"

definition errors_As :: "gerror \<Rightarrow> (gerror \<Rightarrow> bool) \<Rightarrow> gerror option" where
  "errors_As err p = find p (error_chain err)"

fun is_AuthError :: "gerror \<Rightarrow> bool" where
  "is_AuthError (AuthError v s k) = True"
| "is_AuthError e = False"

fun is_StreamInterrupted :: "gerror \<Rightarrow> bool" where
  "is_StreamInterrupted (StreamInterruptedError b e) = True"
| "is_StreamInterrupted e = False"

text \<open>The error types of package net implement \<open>net.Error\<close>.\<close>

fun is_NetError :: "gerror \<Rightarrow> bool" where
  "is_NetError (ErrNet s) = True"
| "is_NetError e = False"

lemma error_chain_self [simp]: "e \<in> set (error_chain e)"
  by (cases e) auto

lemma errors_As_None: "errors_As err p = None \<longleftrightarrow> (\<forall>e \<in> set (error_chain err). \<not> p e)"
  by (auto simp: errors_As_def find_None_iff)

end
