(* ===== verification/Json_Scan.thy ===== *)
theory Json_Scan
  imports Prelude
begin

section \<open>encoding/json: the validity scanner\<close>

text \<open>
  The program decides whether tool-call arguments are well-formed with \<open>json.Valid\<close> of Go's
  standard library. That function runs a byte-at-a-time scanner with a stack of parse states
  and a nesting limit of 10000; the scanner is modelled here state by state. A step returns
  \<open>None\<close> where the scanner reports an error. Component theories use \<open>json_valid\<close> only.
\<close>

datatype parse_state = ParseObjectKey | ParseObjectValue | ParseArrayValue

datatype scan_state =
    BeginValueOrEmpty | BeginValue | BeginStringOrEmpty | BeginString
  | EndValue | EndTop
  | InString | InStringEsc | InStringEscU | InStringEscU1 | InStringEscU12 | InStringEscU123
  | SNeg | S1 | S0 | SDot | SDot0 | SE | SESign | SE0
  | ST | STr | STru | SF | SFa | SFal | SFals | SN | SNu | SNul

record scanner =
  sc_step :: scan_state
  sc_stack :: "parse_state list"
  sc_endTop :: bool

definition maxNestingDepth :: nat where "maxNestingDepth = 10000"

definition scan_reset :: scanner where
  "scan_reset = \<lparr>sc_step = BeginValue, sc_stack = [], sc_endTop = False\<rparr>"

definition js_space :: "char \<Rightarrow> bool" where
  "js_space c = (c = CHR '' '' \<or> c = CHR 0x09 \<or> c = CHR 0x0D \<or> c = CHR 0x0A)"

definition hex_digit :: "char \<Rightarrow> bool" where
  "hex_digit c = (is_digit c \<or> (CHR ''a'' \<le> c \<and> c \<le> CHR ''f'') \<or> (CHR ''A'' \<le> c \<and> c \<le> CHR ''F''))"

definition goto :: "scan_state \<Rightarrow> scanner \<Rightarrow> scanner option" where
  "goto st s = Some (s\<lparr>sc_step := st\<rparr>)"

definition pushParseState :: "parse_state \<Rightarrow> scanner \<Rightarrow> scanner option" where
  "pushParseState p s =
     (if Suc (length (sc_stack s)) \<le> maxNestingDepth then Some (s\<lparr>sc_stack := p # sc_stack s\<rparr>) else None)"

definition popParseState :: "scanner \<Rightarrow> scanner option" where
  "popParseState s =
     (let st = tl (sc_stack s) in
      if st = [] then Some (s\<lparr>sc_stack := st, sc_step := EndTop, sc_endTop := True\<rparr>)
      else Some (s\<lparr>sc_stack := st, sc_step := EndValue\<rparr>))"

definition stateEndTop :: "scanner \<Rightarrow> char \<Rightarrow> scanner option" where
  "stateEndTop s c = (if js_space c then Some s else None)"

definition stateEndValue :: "scanner \<Rightarrow> char \<Rightarrow> scanner option" where
  "stateEndValue s c =
     (case sc_stack s of
        [] \<Rightarrow> stateEndTop (s\<lparr>sc_step := EndTop, sc_endTop := True\<rparr>) c
      | p # ps \<Rightarrow>
          if js_space c then goto EndValue s
          else (case p of
              ParseObjectKey \<Rightarrow>
                if c = CHR '':'' then Some (s\<lparr>sc_stack := ParseObjectValue # ps, sc_step := BeginValue\<rparr>)
                else None
            | ParseObjectValue \<Rightarrow>
                if c = CHR '','' then Some (s\<lparr>sc_stack := ParseObjectKey # ps, sc_step := BeginString\<rparr>)
                else if c = CHR ''}'' then popParseState s else None
            | ParseArrayValue \<Rightarrow>
                if c = CHR '','' then goto BeginValue s
                else if c = CHR '']'' then popParseState s else None))"

definition stateBeginValue :: "scanner \<Rightarrow> char \<Rightarrow> scanner option" where
  "stateBeginValue s c =
     (if js_space c then Some s
      else if c = CHR ''{'' then pushParseState ParseObjectKey (s\<lparr>sc_step := BeginStringOrEmpty\<rparr>)
      else if c = CHR ''['' then pushParseState ParseArrayValue (s\<lparr>sc_step := BeginValueOrEmpty\<rparr>)
      else if c = CHR 0x22 then goto InString s
      else if c = CHR ''-'' then goto SNeg s
      else if c = CHR ''0'' then goto S0 s
      else if c = CHR ''t'' then goto ST s
      else if c = CHR ''f'' then goto SF s
      else if c = CHR ''n'' then goto SN s
      else if is_digit c then goto S1 s
      else None)"

definition stateBeginString :: "scanner \<Rightarrow> char \<Rightarrow> scanner option" where
  "stateBeginString s c =
     (if js_space c then Some s else if c = CHR 0x22 then goto InString s else None)"

definition stateESign :: "scanner \<Rightarrow> char \<Rightarrow> scanner option" where
  "stateESign s c = (if is_digit c then goto SE0 s else None)"

definition state0 :: "scanner \<Rightarrow> char \<Rightarrow> scanner option" where
  "state0 s c =
     (if c = CHR ''.'' then goto SDot s
      else if c = CHR ''e'' \<or> c = CHR ''E'' then goto SE s
      else stateEndValue s c)"

definition expect :: "char \<Rightarrow> scan_state \<Rightarrow> scanner \<Rightarrow> char \<Rightarrow> scanner option" where
  "expect d st s c = (if c = d then goto st s else None)"

definition scan_step :: "scanner \<Rightarrow> char \<Rightarrow> scanner option" where
  "scan_step s c = (case sc_step s of
     BeginValueOrEmpty \<Rightarrow>
       if js_space c then Some s else if c = CHR '']'' then stateEndValue s c else stateBeginValue s c
   | BeginValue \<Rightarrow> stateBeginValue s c
   | BeginStringOrEmpty \<Rightarrow>
       if js_space c then Some s
       else if c = CHR ''}'' then stateEndValue (s\<lparr>sc_stack := ParseObjectValue # tl (sc_stack s)\<rparr>) c
       else stateBeginString s c
   | BeginString \<Rightarrow> stateBeginString s c
   | EndValue \<Rightarrow> stateEndValue s c
   | EndTop \<Rightarrow> stateEndTop s c
   | InString \<Rightarrow>
       if c = CHR 0x22 then goto EndValue s
       else if c = CHR 0x5C then goto InStringEsc s
       else if c < CHR 0x20 then None else Some s
   | InStringEsc \<Rightarrow>
       if c \<in> set [CHR ''b'', CHR ''f'', CHR ''n'', CHR ''r'', CHR ''t'', CHR 0x5C, CHR ''/'', CHR 0x22]
       then goto InString s
       else if c = CHR ''u'' then goto InStringEscU s else None
   | InStringEscU \<Rightarrow> if hex_digit c then goto InStringEscU1 s else None
   | InStringEscU1 \<Rightarrow> if hex_digit c then goto InStringEscU12 s else None
   | InStringEscU12 \<Rightarrow> if hex_digit c then goto InStringEscU123 s else None
   | InStringEscU123 \<Rightarrow> if hex_digit c then goto InString s else None
   | SNeg \<Rightarrow> if c = CHR ''0'' then goto S0 s else if is_digit c then goto S1 s else None
   | S1 \<Rightarrow> if is_digit c then goto S1 s else state0 s c
   | S0 \<Rightarrow> state0 s c
   | SDot \<Rightarrow> if is_digit c then goto SDot0 s else None
   | SDot0 \<Rightarrow>
       if is_digit c then Some s
       else if c = CHR ''e'' \<or> c = CHR ''E'' then goto SE s else stateEndValue s c
   | SE \<Rightarrow> if c = CHR ''+'' \<or> c = CHR ''-'' then goto SESign s else stateESign s c
   | SESign \<Rightarrow> stateESign s c
   | SE0 \<Rightarrow> if is_digit c then Some s else stateEndValue s c
   | ST \<Rightarrow> expect CHR ''r'' STr s c
   | STr \<Rightarrow> expect CHR ''u'' STru s c
   | STru \<Rightarrow> expect CHR ''e'' EndValue s c
   | SF \<Rightarrow> expect CHR ''a'' SFa s c
   | SFa \<Rightarrow> expect CHR ''l'' SFal s c
   | SFal \<Rightarrow> expect CHR ''s'' SFals s c
   | SFals \<Rightarrow> expect CHR ''e'' EndValue s c
   | SN \<Rightarrow> expect CHR ''u'' SNu s c
   | SNu \<Rightarrow> expect CHR ''l'' SNul s c
   | SNul \<Rightarrow> expect CHR ''l'' EndValue s c)"

fun scan_all :: "scanner \<Rightarrow> string \<Rightarrow> scanner option" where
  "scan_all s [] = Some s"
| "scan_all s (c # cs) = (case scan_step s c of None \<Rightarrow> None | Some s' \<Rightarrow> scan_all s' cs)"

definition scan_eof :: "scanner \<Rightarrow> bool" where
  "scan_eof s =
     (sc_endTop s \<or> (case scan_step s (CHR '' '') of None \<Rightarrow> False | Some s' \<Rightarrow> sc_endTop s'))"

definition json_valid :: "string \<Rightarrow> bool" where
  "json_valid s = (case scan_all scan_reset s of None \<Rightarrow> False | Some sc \<Rightarrow> scan_eof sc)"

lemmas scan_defs = scan_step_def goto_def pushParseState_def popParseState_def stateEndTop_def
  stateEndValue_def stateBeginValue_def stateBeginString_def stateESign_def state0_def expect_def

lemma scan_all_append:
  "scan_all s (xs @ ys) = (case scan_all s xs of None \<Rightarrow> None | Some s' \<Rightarrow> scan_all s' ys)"
  by (induction xs arbitrary: s) (auto split: option.splits)

text \<open>The scanner never holds more than \<open>maxNestingDepth\<close> open brackets.\<close>

lemma scan_step_depth:
  "scan_step s c = Some s' \<Longrightarrow> length (sc_stack s) \<le> maxNestingDepth \<Longrightarrow>
    0 < length (sc_stack s) \<or> sc_step s \<noteq> BeginStringOrEmpty \<Longrightarrow>
    length (sc_stack s') \<le> maxNestingDepth"
  unfolding scan_step_def
  by (cases "sc_step s")
     (auto simp: goto_def pushParseState_def popParseState_def stateEndTop_def
        stateEndValue_def stateBeginValue_def stateBeginString_def stateESign_def state0_def
        expect_def Let_def split: if_splits list.splits parse_state.splits)

lemma json_valid_empty [simp]: "\<not> json_valid []"
  by (simp add: json_valid_def scan_reset_def scan_eof_def scan_defs js_space_def)

lemma json_valid_empty_object [simp]: "json_valid ''{}''"
  by code_simp

end
