(* ===== verification/Normalize.thy ===== *)
theory Normalize
  imports Types Json_Scan
begin

section \<open>Tool-call pairing repair (protocol/normalize.go)\<close>

text \<open>
  Every request is passed through \<open>NormalizeMessages\<close> before it is sent: each assistant turn
  with tool calls must be followed by exactly one tool message per call, in call order, with the
  call's ID and name, and with arguments that are valid JSON; a tool message outside such a turn
  is dropped. The code has a fast path that returns a conversation that is already in order.
\<close>

definition InterruptedToolResult :: string where
  "InterruptedToolResult =
     ''[no result: the previous turn was interrupted before this tool call completed]''"

abbreviation is_tool :: "Message \<Rightarrow> bool" where "is_tool m \<equiv> m_Role m = RoleTool"
abbreviation is_call_turn :: "Message \<Rightarrow> bool" where
  "is_call_turn m \<equiv> m_Role m = RoleAssistant \<and> m_ToolCalls m \<noteq> []"
abbreviation args_ok :: "ToolCall \<Rightarrow> bool" where
  "args_ok tc \<equiv> tc_Arguments tc = [] \<or> json_valid (tc_Arguments tc)"

subsection \<open>Operations\<close>

fun idDistinct_loop :: "string set \<Rightarrow> ToolCall list \<Rightarrow> bool" where
  "idDistinct_loop seen [] = True"
| "idDistinct_loop seen (tc # tcs) =
     (if tc_ID tc = [] then False
      else if tc_ID tc \<in> seen then False
      else idDistinct_loop (insert (tc_ID tc) seen) tcs)"

definition idDistinct :: "ToolCall list \<Rightarrow> bool" where
  "idDistinct calls = idDistinct_loop {} calls"

definition toolTurnWellFormed :: "ToolCall list \<Rightarrow> Message list \<Rightarrow> bool" where
  "toolTurnWellFormed calls results =
     (if length calls \<noteq> length results then False
      else if \<exists>tc \<in> set calls. tc_Name tc = [] \<or> tc_ID tc = [] then False
      else list_all2 (\<lambda>tc r. m_ToolCallID r = tc_ID tc \<and> m_Name r = tc_Name tc) calls results)"

definition needsArgRepair :: "ToolCall list \<Rightarrow> bool" where
  "needsArgRepair calls = (\<exists>tc \<in> set calls. tc_Arguments tc \<noteq> [] \<and> \<not> json_valid (tc_Arguments tc))"

function tryFastPath_loop :: "Message list \<Rightarrow> bool" where
  "tryFastPath_loop [] = True"
| "tryFastPath_loop (m # rest) =
     (if is_call_turn m then
        (if \<not> toolTurnWellFormed (m_ToolCalls m) (takeWhile is_tool rest)
            \<or> needsArgRepair (m_ToolCalls m) then False
         else tryFastPath_loop (dropWhile is_tool rest))
      else if is_tool m then False
      else tryFastPath_loop rest)"
  by pat_completeness auto
termination
  by (relation "measure length") (auto simp: length_dropWhile_less)

definition tryFastPath :: "Message list \<Rightarrow> Message list option" where
  "tryFastPath msgs = (if tryFastPath_loop msgs then Some msgs else None)"

text \<open>
  \<open>closeTruncatedJSON\<close>: one pass over the bytes keeps the stack of closing brackets (top
  first here, last in the Go slice) and the string/escape flags; then the text is closed.
\<close>

record close_state =
  cs_stack :: string
  cs_inStr :: bool
  cs_esc :: bool

definition close_step :: "close_state \<Rightarrow> char \<Rightarrow> close_state" where
  "close_step s c =
     (if cs_inStr s then
        (if cs_esc s then s\<lparr>cs_esc := False\<rparr>
         else if c = CHR 0x5C then s\<lparr>cs_esc := True\<rparr>
         else if c = CHR 0x22 then s\<lparr>cs_inStr := False\<rparr>
         else s)
      else if c = CHR 0x22 then s\<lparr>cs_inStr := True\<rparr>
      else if c = CHR ''{'' then s\<lparr>cs_stack := CHR ''}'' # cs_stack s\<rparr>
      else if c = CHR ''['' then s\<lparr>cs_stack := CHR '']'' # cs_stack s\<rparr>
      else if c = CHR ''}'' \<or> c = CHR '']'' then
        (if cs_stack s \<noteq> [] then s\<lparr>cs_stack := tl (cs_stack s)\<rparr> else s)
      else s)"

definition close_scan :: "string \<Rightarrow> close_state" where
  "close_scan s = foldl close_step \<lparr>cs_stack = [], cs_inStr = False, cs_esc = False\<rparr> s"

definition close_text :: "string \<Rightarrow> string" where
  "close_text s =
     (let st = close_scan s;
          out = (if cs_esc st then butlast s else s);
          out = (if cs_inStr st then out @ [CHR 0x22] else out);
          trimmed = TrimRight out [CHR '' '', CHR 0x09, CHR 0x0D, CHR 0x0A];
          out = (if HasSuffix trimmed '','' then butlast trimmed
                 else if HasSuffix trimmed '':'' then trimmed @ ''null''
                 else out)
      in out @ cs_stack st)"

definition closeTruncatedJSON :: "string \<Rightarrow> string" where
  "closeTruncatedJSON s = (let out = close_text s in if \<not> json_valid out then ''{}'' else out)"

definition repair_call :: "ToolCall \<Rightarrow> ToolCall" where
  "repair_call tc =
     (if tc_Arguments tc = [] \<or> json_valid (tc_Arguments tc) then tc
      else tc\<lparr>tc_Arguments := closeTruncatedJSON (tc_Arguments tc)\<rparr>)"

definition repairToolCallArgs :: "Message \<Rightarrow> Message" where
  "repairToolCallArgs m =
     (if \<not> (\<exists>tc \<in> set (m_ToolCalls m). tc_Arguments tc \<noteq> [] \<and> \<not> json_valid (tc_Arguments tc))
      then m
      else m\<lparr>m_ToolCalls := map repair_call (m_ToolCalls m)\<rparr>)"

definition interrupted_result :: "ToolCall \<Rightarrow> Message" where
  "interrupted_result tc =
     zero_Message\<lparr>m_Role := RoleTool, m_ToolCallID := tc_ID tc, m_Name := tc_Name tc,
       m_Content := InterruptedToolResult\<rparr>"

text \<open>The Go map built by a loop over the results: a later result with the same ID wins.\<close>

definition results_byID :: "Message list \<Rightarrow> string \<rightharpoonup> Message" where
  "results_byID avail = foldl (\<lambda>byID r. byID(m_ToolCallID r \<mapsto> r)) Map.empty avail"

fun pair_by_position :: "ToolCall list \<Rightarrow> Message list \<Rightarrow> Message list" where
  "pair_by_position [] avail = []"
| "pair_by_position (tc # calls) [] = interrupted_result tc # pair_by_position calls []"
| "pair_by_position (tc # calls) (r # avail) =
     r\<lparr>m_ToolCallID := tc_ID tc, m_Name := tc_Name tc\<rparr> # pair_by_position calls avail"

definition pair_by_id :: "(string \<rightharpoonup> Message) \<Rightarrow> ToolCall \<Rightarrow> Message" where
  "pair_by_id byID tc = (case byID (tc_ID tc) of
     Some r \<Rightarrow> r\<lparr>m_Name := tc_Name tc\<rparr>
   | None \<Rightarrow> interrupted_result tc)"

definition pairToolResults :: "ToolCall list \<Rightarrow> Message list \<Rightarrow> Message list" where
  "pairToolResults calls avail =
     (if idDistinct calls then map (pair_by_id (results_byID avail)) calls
      else pair_by_position calls avail)"

definition names_byID :: "Message list \<Rightarrow> string \<rightharpoonup> string" where
  "names_byID results =
     foldl (\<lambda>byID r. if m_Name r \<noteq> [] then byID(m_ToolCallID r \<mapsto> m_Name r) else byID) Map.empty results"

fun backfill_by_position :: "ToolCall list \<Rightarrow> Message list \<Rightarrow> ToolCall list" where
  "backfill_by_position [] results = []"
| "backfill_by_position (tc # calls) [] = tc # backfill_by_position calls []"
| "backfill_by_position (tc # calls) (r # results) =
     (if tc_Name tc = [] then tc\<lparr>tc_Name := m_Name r\<rparr> else tc) # backfill_by_position calls results"

definition backfill_by_id :: "(string \<rightharpoonup> string) \<Rightarrow> ToolCall \<Rightarrow> ToolCall" where
  "backfill_by_id byID tc =
     (if tc_Name tc = [] then
        (case byID (tc_ID tc) of Some n \<Rightarrow> tc\<lparr>tc_Name := n\<rparr> | None \<Rightarrow> tc)
      else tc)"

definition backfillToolCallNames :: "ToolCall list \<Rightarrow> Message list \<Rightarrow> ToolCall list" where
  "backfillToolCallNames calls results =
     (if \<not> (\<exists>c \<in> set calls. tc_Name c = []) then calls
      else if idDistinct calls then map (backfill_by_id (names_byID results)) calls
      else backfill_by_position calls results)"

function normalize_loop :: "Message list \<Rightarrow> Message list" where
  "normalize_loop [] = []"
| "normalize_loop (m # rest) =
     (if is_call_turn m then
        (let results = takeWhile is_tool rest;
             calls = backfillToolCallNames (m_ToolCalls m) results
         in repairToolCallArgs (m\<lparr>m_ToolCalls := calls\<rparr>) # pairToolResults calls results
            @ normalize_loop (dropWhile is_tool rest))
      else if is_tool m then normalize_loop rest
      else m # normalize_loop rest)"
  by pat_completeness auto
termination
  by (relation "measure length") (auto simp: length_dropWhile_less)

definition NormalizeMessages :: "Message list \<Rightarrow> Message list" where
  "NormalizeMessages msgs =
     (case tryFastPath msgs of Some normalized \<Rightarrow> normalized | None \<Rightarrow> normalize_loop msgs)"

subsection \<open>Contract: what a normalized conversation looks like\<close>

definition turn_paired :: "ToolCall list \<Rightarrow> Message list \<Rightarrow> bool" where
  "turn_paired calls results \<longleftrightarrow>
     list_all2 (\<lambda>tc r. m_ToolCallID r = tc_ID tc \<and> m_Name r = tc_Name tc) calls results"

function paired :: "Message list \<Rightarrow> bool" where
  "paired [] = True"
| "paired (m # rest) =
     (if is_call_turn m then
        turn_paired (m_ToolCalls m) (takeWhile is_tool rest)
        \<and> (\<forall>tc \<in> set (m_ToolCalls m). args_ok tc)
        \<and> paired (dropWhile is_tool rest)
      else \<not> is_tool m \<and> paired rest)"
  by pat_completeness auto
termination
  by (relation "measure length") (auto simp: length_dropWhile_less)

subsection \<open>Lemmas about the single operations\<close>

lemma idDistinct_loop_iff:
  "idDistinct_loop seen calls \<longleftrightarrow>
     distinct (map tc_ID calls) \<and> set (map tc_ID calls) \<inter> seen = {} \<and> [] \<notin> set (map tc_ID calls)"
  by (induction seen calls rule: idDistinct_loop.induct) auto

lemma idDistinct_iff:
  "idDistinct calls \<longleftrightarrow> distinct (map tc_ID calls) \<and> [] \<notin> set (map tc_ID calls)"
  by (auto simp: idDistinct_def idDistinct_loop_iff)

lemma closeTruncatedJSON_valid [simp]: "json_valid (closeTruncatedJSON s)"
  by (simp add: closeTruncatedJSON_def Let_def)

lemma repair_call_ok: "args_ok (repair_call tc)"
  by (simp add: repair_call_def)

lemma repair_call_id [simp]: "args_ok tc \<Longrightarrow> repair_call tc = tc"
  by (simp add: repair_call_def)

lemma repair_call_keys [simp]:
  "tc_ID (repair_call tc) = tc_ID tc" "tc_Name (repair_call tc) = tc_Name tc"
  "tc_Type (repair_call tc) = tc_Type tc"
  by (simp_all add: repair_call_def)

lemma repairToolCallArgs_eq:
  "repairToolCallArgs m = m\<lparr>m_ToolCalls := map repair_call (m_ToolCalls m)\<rparr>"
proof (cases "\<exists>tc \<in> set (m_ToolCalls m). tc_Arguments tc \<noteq> [] \<and> \<not> json_valid (tc_Arguments tc)")
  case False
  then have "map repair_call (m_ToolCalls m) = m_ToolCalls m"
    by (intro map_idI) (auto simp: repair_call_def)
  with False show ?thesis by (simp add: repairToolCallArgs_def)
qed (simp add: repairToolCallArgs_def)

lemma results_byID_eq: "results_byID avail = map_of (rev (map (\<lambda>r. (m_ToolCallID r, r)) avail))"
  by (simp add: results_byID_def foldl_map_upd_map_of)

lemma results_byID_Some:
  "results_byID avail i = Some r \<Longrightarrow> r \<in> set avail \<and> m_ToolCallID r = i"
  by (auto simp: results_byID_eq dest!: map_of_SomeD)

lemma results_byID_distinct:
  assumes "distinct (map m_ToolCallID avail)" and "r \<in> set avail"
  shows "results_byID avail (m_ToolCallID r) = Some r"
  using assms unfolding results_byID_eq
  by (intro map_of_is_SomeI) (auto simp: rev_map [symmetric] comp_def)

lemma names_byID_Some:
  assumes "names_byID results i = Some n"
  shows "\<exists>r \<in> set results. m_ToolCallID r = i \<and> m_Name r = n \<and> n \<noteq> []"
proof -
  have "foldl (\<lambda>byID r. if m_Name r \<noteq> [] then byID(m_ToolCallID r \<mapsto> m_Name r) else byID) m0 rs i = Some n
        \<Longrightarrow> m0 i = Some n \<or> (\<exists>r \<in> set rs. m_ToolCallID r = i \<and> m_Name r = n \<and> n \<noteq> [])" for m0 rs
    by (induction rs arbitrary: m0) (fastforce split: if_splits)+
  from this [of Map.empty results] assms show ?thesis by (simp add: names_byID_def)
qed

lemma pair_by_position_length [simp]: "length (pair_by_position calls avail) = length calls"
  by (induction calls avail rule: pair_by_position.induct) auto

lemma pair_by_position_paired: "turn_paired calls (pair_by_position calls avail)"
  unfolding turn_paired_def
  by (induction calls avail rule: pair_by_position.induct)
     (auto simp: interrupted_result_def zero_Message_def)

lemma pair_by_position_tool:
  "\<forall>r \<in> set avail. is_tool r \<Longrightarrow> r \<in> set (pair_by_position calls avail) \<Longrightarrow> is_tool r"
  by (induction calls avail rule: pair_by_position.induct)
     (auto simp: interrupted_result_def zero_Message_def)

lemma pair_by_id_key: "m_ToolCallID (pair_by_id (results_byID avail) tc) = tc_ID tc"
  "m_Name (pair_by_id (results_byID avail) tc) = tc_Name tc"
  by (auto simp: pair_by_id_def interrupted_result_def zero_Message_def
      dest: results_byID_Some split: option.splits)

lemma pairToolResults_paired: "turn_paired calls (pairToolResults calls avail)"
proof (cases "idDistinct calls")
  case True
  then show ?thesis
    by (simp add: pairToolResults_def turn_paired_def list_all2_conv_all_nth pair_by_id_key)
next
  case False
  then show ?thesis by (simp add: pairToolResults_def pair_by_position_paired)
qed

lemma pairToolResults_tool:
  assumes "\<forall>r \<in> set avail. is_tool r" and "r \<in> set (pairToolResults calls avail)"
  shows "is_tool r"
proof (cases "idDistinct calls")
  case True
  with assms(2) obtain tc where "r = pair_by_id (results_byID avail) tc"
    by (auto simp: pairToolResults_def)
  with assms(1) show ?thesis
    by (auto simp: pair_by_id_def interrupted_result_def zero_Message_def
        dest: results_byID_Some split: option.splits)
next
  case False
  with assms show ?thesis by (auto simp: pairToolResults_def intro: pair_by_position_tool)
qed

lemma backfill_by_position_ids [simp]:
  "map tc_ID (backfill_by_position calls results) = map tc_ID calls"
  by (induction calls results rule: backfill_by_position.induct) auto

lemma backfill_by_id_key [simp]: "tc_ID (backfill_by_id byID tc) = tc_ID tc"
  by (simp add: backfill_by_id_def split: option.splits)

lemma backfill_ids [simp]: "map tc_ID (backfillToolCallNames calls results) = map tc_ID calls"
  by (simp add: backfillToolCallNames_def)

lemma backfill_Nil_iff [simp]: "backfillToolCallNames calls results = [] \<longleftrightarrow> calls = []"
  using backfill_ids [of calls results] by (metis Nil_is_map_conv)

lemma idDistinct_backfill [simp]:
  "idDistinct (backfillToolCallNames calls results) = idDistinct calls"
  by (simp only: idDistinct_iff backfill_ids)

lemma idDistinct_repair [simp]: "idDistinct (map repair_call calls) = idDistinct calls"
  by (simp add: idDistinct_iff comp_def)

subsection \<open>The loop: pairing, fast path, idempotence\<close>

lemma normalize_loop_head:
  "normalize_loop msgs \<noteq> [] \<Longrightarrow> \<not> is_tool (hd (normalize_loop msgs))"
  by (induction msgs rule: normalize_loop.induct)
     (auto simp: Let_def repairToolCallArgs_eq)

lemma takeWhile_turn:
  assumes "\<forall>r \<in> set rs. is_tool r" and "tail \<noteq> [] \<Longrightarrow> \<not> is_tool (hd tail)"
  shows "takeWhile is_tool (rs @ tail) = rs" and "dropWhile is_tool (rs @ tail) = tail"
proof -
  show "takeWhile is_tool (rs @ tail) = rs"
    using assms by (cases tail) (auto simp: takeWhile_append takeWhile_eq_all_conv [THEN iffD2])
  show "dropWhile is_tool (rs @ tail) = tail"
    using assms by (cases tail) (auto simp: dropWhile_append)
qed

lemma takeWhile_tools: "\<forall>r \<in> set (takeWhile is_tool xs). is_tool r"
  by (auto dest: set_takeWhileD)

lemma turn_tools: "\<forall>r \<in> set (pairToolResults calls (takeWhile is_tool rest)). is_tool r"
  using pairToolResults_tool [OF takeWhile_tools] by blast

lemmas normalized_turn = takeWhile_turn [OF turn_tools normalize_loop_head]

lemma normalize_loop_paired: "paired (normalize_loop msgs)"
proof (induction msgs rule: normalize_loop.induct)
  case (2 m rest)
  show ?case
  proof (cases "is_call_turn m")
    case True
    let ?calls = "backfillToolCallNames (m_ToolCalls m) (takeWhile is_tool rest)"
    have "turn_paired (map repair_call ?calls) (pairToolResults ?calls (takeWhile is_tool rest))"
      using pairToolResults_paired [of ?calls "takeWhile is_tool rest"]
      by (simp add: turn_paired_def list_all2_conv_all_nth)
    with True 2(1) show ?thesis
      by (auto simp: Let_def repairToolCallArgs_eq normalized_turn repair_call_ok)
  next
    case False
    with 2 show ?thesis by auto
  qed
qed simp

lemma tryFastPath_paired: "tryFastPath_loop msgs \<Longrightarrow> paired msgs"
  by (induction msgs rule: tryFastPath_loop.induct)
     (auto simp: toolTurnWellFormed_def needsArgRepair_def turn_paired_def split: if_splits)

text \<open>A turn that is already paired is a fixed point of the pairing step.\<close>

lemma turn_paired_map:
  "turn_paired calls results \<longleftrightarrow>
     map m_ToolCallID results = map tc_ID calls \<and> map m_Name results = map tc_Name calls"
  unfolding turn_paired_def
  by (auto simp: list_all2_conv_all_nth list_eq_iff_nth_eq) 

lemma pair_by_position_fixed:
  "turn_paired calls results \<Longrightarrow> pair_by_position calls results = results"
  unfolding turn_paired_def
  by (induction calls results rule: pair_by_position.induct) auto

lemma pairToolResults_fixed:
  assumes "turn_paired calls results"
  shows "pairToolResults calls results = results"
proof (cases "idDistinct calls")
  case True
  with assms have dist: "distinct (map m_ToolCallID results)"
    by (simp add: turn_paired_map idDistinct_iff)
  have len: "length calls = length results"
    using assms by (simp add: turn_paired_def list_all2_lengthD)
  have "pair_by_id (results_byID results) (calls ! i) = results ! i" if "i < length results" for i
  proof -
    have "m_ToolCallID (results ! i) = tc_ID (calls ! i)" "m_Name (results ! i) = tc_Name (calls ! i)"
      using assms that len by (auto simp: turn_paired_def list_all2_conv_all_nth)
    with results_byID_distinct [OF dist, of "results ! i"] that show ?thesis
      by (simp add: pair_by_id_def)
  qed
  with len have "map (pair_by_id (results_byID results)) calls = results"
    by (auto simp: list_eq_iff_nth_eq)
  with True show ?thesis by (simp add: pairToolResults_def)
next
  case False
  with assms show ?thesis by (simp add: pairToolResults_def pair_by_position_fixed)
qed

lemma backfill_by_position_fixed:
  "turn_paired calls results \<Longrightarrow> backfill_by_position calls results = calls"
  unfolding turn_paired_def
  by (induction calls results rule: backfill_by_position.induct) auto

lemma backfill_fixed:
  assumes "turn_paired calls results"
  shows "backfillToolCallNames calls results = calls"
proof (cases "idDistinct calls")
  case True
  have "backfill_by_id (names_byID results) tc = tc" if tc: "tc \<in> set calls" for tc
  proof (cases "names_byID results (tc_ID tc)")
    case (Some n)
    then obtain r where r: "r \<in> set results" "m_ToolCallID r = tc_ID tc" "m_Name r = n"
      by (auto dest: names_byID_Some)
    then obtain i where i: "i < length results" "r = results ! i" by (auto simp: in_set_conv_nth)
    have len: "length calls = length results"
      using assms by (simp add: turn_paired_def list_all2_lengthD)
    have ci: "tc_ID (calls ! i) = tc_ID tc" "tc_Name (calls ! i) = n"
      using assms i r len by (auto simp: turn_paired_def list_all2_conv_all_nth)
    have "calls ! i = tc"
      using True ci(1) tc i len
      by (metis distinct_map idDistinct_iff inj_onD nth_mem)
    with ci(2) show ?thesis by (simp add: backfill_by_id_def Some)
  qed (simp add: backfill_by_id_def)
  then have "map (backfill_by_id (names_byID results)) calls = calls" by (simp add: map_idI)
  then show ?thesis by (simp add: backfillToolCallNames_def backfill_by_position_fixed assms)
qed (simp add: backfillToolCallNames_def backfill_by_position_fixed assms)

lemma normalize_loop_fixed: "paired msgs \<Longrightarrow> normalize_loop msgs = msgs"
proof (induction msgs rule: paired.induct)
  case (2 m rest)
  show ?case
  proof (cases "is_call_turn m")
    case True
    with 2(3) have turn: "turn_paired (m_ToolCalls m) (takeWhile is_tool rest)"
      and args: "\<forall>tc \<in> set (m_ToolCalls m). args_ok tc"
      and rest: "paired (dropWhile is_tool rest)" by auto
    have "map repair_call (m_ToolCalls m) = m_ToolCalls m"
      using args by (intro map_idI) auto
    with True turn 2(1) [OF True rest] show ?thesis
      by (simp add: Let_def repairToolCallArgs_eq backfill_fixed pairToolResults_fixed)
  next
    case False
    with 2 show ?thesis by auto
  qed
qed simp

lemma NormalizeMessages_eq_loop: "NormalizeMessages msgs = normalize_loop msgs"
  by (simp add: NormalizeMessages_def tryFastPath_def tryFastPath_paired normalize_loop_fixed)

text \<open>What is kept of a conversation: every message that is not a tool result, up to tool-call
  names and arguments, in order.\<close>

definition call_skeleton :: "Message \<Rightarrow> Message" where
  "call_skeleton m = m\<lparr>m_ToolCalls := map (\<lambda>tc. tc\<lparr>tc_Name := [], tc_Arguments := []\<rparr>) (m_ToolCalls m)\<rparr>"

lemma backfill_skeleton [simp]:
  "map (\<lambda>tc. tc\<lparr>tc_Name := [], tc_Arguments := []\<rparr>) (backfillToolCallNames calls results) =
   map (\<lambda>tc. tc\<lparr>tc_Name := [], tc_Arguments := []\<rparr>) calls"
proof -
  have "map (\<lambda>tc. tc\<lparr>tc_Name := [], tc_Arguments := []\<rparr>) (backfill_by_position calls results) =
        map (\<lambda>tc. tc\<lparr>tc_Name := [], tc_Arguments := []\<rparr>) calls"
    by (induction calls results rule: backfill_by_position.induct) auto
  then show ?thesis
    by (auto simp: backfillToolCallNames_def backfill_by_id_def split: option.splits)
qed

lemma repair_skeleton [simp]:
  "(repair_call tc)\<lparr>tc_Name := [], tc_Arguments := []\<rparr> = tc\<lparr>tc_Name := [], tc_Arguments := []\<rparr>"
  by (simp add: repair_call_def)

lemma call_skeleton_turn:
  "call_skeleton (repairToolCallArgs (m\<lparr>m_ToolCalls := backfillToolCallNames (m_ToolCalls m) rs\<rparr>))
   = call_skeleton m"
  by (simp add: call_skeleton_def repairToolCallArgs_eq comp_def)

lemma filter_not_tool_dropWhile:
  "filter (\<lambda>m. \<not> is_tool m) (dropWhile is_tool xs) = filter (\<lambda>m. \<not> is_tool m) xs"
  by (induction xs) auto

lemma normalize_loop_keeps:
  "map call_skeleton (filter (\<lambda>m. \<not> is_tool m) (normalize_loop msgs)) =
   map call_skeleton (filter (\<lambda>m. \<not> is_tool m) msgs)"
proof (induction msgs rule: normalize_loop.induct)
  case (2 m rest)
  show ?case
  proof (cases "is_call_turn m")
    case True
    let ?rs = "takeWhile is_tool rest"
    let ?calls = "backfillToolCallNames (m_ToolCalls m) ?rs"
    let ?m = "repairToolCallArgs (m\<lparr>m_ToolCalls := ?calls\<rparr>)"
    have "filter (\<lambda>m. \<not> is_tool m) (pairToolResults ?calls ?rs) = []"
      using turn_tools by (auto simp: filter_empty_conv)
    moreover have "\<not> is_tool ?m" using True by (simp add: repairToolCallArgs_eq)
    ultimately show ?thesis
      using True 2(1) [OF True refl refl] by (simp add: Let_def call_skeleton_turn filter_not_tool_dropWhile)
  next
    case False
    with 2 show ?thesis by auto
  qed
qed simp

subsection \<open>Properties\<close>

text \<open>C2: The output of NormalizeMessages is a conversation the provider accepts: every assistant
  message with tool calls is followed by exactly one tool message per call, in call order, with the
  call's ID and name, all its arguments are empty or valid JSON, and no tool message stands
  anywhere else. This holds for every input, on both the fast and the slow path.\<close>

theorem normalize_paired: "paired (NormalizeMessages msgs)"
  by (simp add: NormalizeMessages_eq_loop normalize_loop_paired)

text \<open>C15: The fast path is only an optimisation: whenever tryFastPath accepts a conversation and
  returns it unchanged, the repair loop would have returned the same conversation.\<close>

theorem fast_path_equals_repair:
  assumes "tryFastPath msgs = Some normalized"
  shows "normalized = msgs \<and> normalize_loop msgs = normalized"
  using assms by (auto simp: tryFastPath_def tryFastPath_paired normalize_loop_fixed split: if_splits)

definition sample_turn :: "Message list" where
  "sample_turn =
     [zero_Message\<lparr>m_Role := RoleUser, m_Content := ''hi''\<rparr>,
      zero_Message\<lparr>m_Role := RoleAssistant, m_ToolCalls :=
        [\<lparr>tc_ID = ''a'', tc_Type = ''function'', tc_Name = ''ls'', tc_Arguments = ''{}''\<rparr>]\<rparr>,
      zero_Message\<lparr>m_Role := RoleTool, m_ToolCallID := ''a'', m_Name := ''ls'', m_Content := ''x''\<rparr>]"

theorem fast_path_equals_repair_witness:
  "tryFastPath sample_turn = Some sample_turn \<and> normalize_loop sample_turn = sample_turn"
proof -
  have h: "tryFastPath sample_turn = Some sample_turn"
    by (simp add: tryFastPath_def sample_turn_def zero_Message_def toolTurnWellFormed_def needsArgRepair_def)
  from fast_path_equals_repair [OF h] h show ?thesis by simp
qed

text \<open>Normalization is idempotent: normalizing an already normalized conversation changes
  nothing, so resending a stored conversation is stable.\<close>

theorem normalize_idempotent: "NormalizeMessages (NormalizeMessages msgs) = NormalizeMessages msgs"
  by (simp add: NormalizeMessages_eq_loop normalize_loop_fixed normalize_loop_paired)

text \<open>Normalization drops nothing but orphan tool results: the system, user and assistant
  messages come out in the same order and with the same fields, tool calls keep their IDs and
  types, and only call names and arguments can differ.\<close>

theorem normalize_keeps_conversation:
  "map call_skeleton (filter (\<lambda>m. m_Role m \<noteq> RoleTool) (NormalizeMessages msgs)) =
   map call_skeleton (filter (\<lambda>m. m_Role m \<noteq> RoleTool) msgs)"
  by (simp add: NormalizeMessages_eq_loop normalize_loop_keeps)

text \<open>closeTruncatedJSON always returns valid JSON, and arguments that only lack their closing
  brackets are completed rather than replaced: if appending the open brackets gives valid JSON for
  a text outside a string that ends in neither comma, colon nor white space, that is the result.\<close>

theorem close_truncated_completes:
  assumes "\<not> cs_inStr (close_scan s)" and "\<not> cs_esc (close_scan s)"
    and "s \<noteq> []" and "last s \<notin> set [CHR '','', CHR '':'', CHR '' '', CHR 0x09, CHR 0x0D, CHR 0x0A]"
    and "json_valid (s @ cs_stack (close_scan s))"
  shows "closeTruncatedJSON s = s @ cs_stack (close_scan s) \<and> json_valid (closeTruncatedJSON s)"
proof -
  have "TrimRight s [CHR '' '', CHR 0x09, CHR 0x0D, CHR 0x0A] = s"
    using assms(3,4) by (cases s rule: rev_cases) (auto simp: TrimRight_def)
  moreover have "\<not> HasSuffix s '',''" "\<not> HasSuffix s '':''"
    using assms(4) by (auto simp: HasSuffix_iff)
  ultimately have "close_text s = s @ cs_stack (close_scan s)"
    using assms(1,2) by (simp add: close_text_def Let_def)
  then show ?thesis using assms(5) by (simp add: closeTruncatedJSON_def)
qed

theorem close_truncated_completes_witness:
  "closeTruncatedJSON ''[{}, [1'' = ''[{}, [1]]'' \<and> json_valid ''[{}, [1]]''"
proof -
  have st: "close_scan ''[{}, [1'' = \<lparr>cs_stack = '']]'', cs_inStr = False, cs_esc = False\<rparr>"
    by code_simp
  have v: "json_valid (''[{}, [1'' @ cs_stack (close_scan ''[{}, [1''))"
    unfolding st by code_simp
  from close_truncated_completes [of "''[{}, [1''"] v show ?thesis by (simp add: st)
qed

end
