(* ===== verification/Think.thy ===== *)
theory Think
  imports Types
begin

section \<open>Inline reasoning tags (protocol/think.go)\<close>

text \<open>
  MiniMax sends its reasoning inline, between \<open><think>\<close> and \<open></think>\<close>. The splitter is a
  three-state machine fed with the content of each stream chunk; \<open>push\<close> returns what it
  releases as thought and as visible text. The Go \<open>strings.Builder\<close> is the field \<open>th_buf\<close>.
\<close>

datatype thinkState = thinkProbe | thinkInside | thinkPassthrough

record thinkSplitter =
  th_state :: thinkState
  th_buf :: string
  th_depth :: int

definition think_init :: thinkSplitter where
  "think_init = \<lparr>th_state = thinkProbe, th_buf = [], th_depth = 0\<rparr>"

definition close_tag :: string where "close_tag = ''</think>''"

subsection \<open>Operations\<close>

definition extractThinkTag :: "string \<Rightarrow> string" where
  "extractThinkTag text =
     (if HasPrefix text ''<think>'' then ''<think>''
      else case CutPrefix text ''<think '' of (rest, ok) \<Rightarrow>
        if ok then
          (case Index rest ''>'' of
             Some end_i \<Rightarrow> take (length text - length rest + end_i + 1) text
           | None \<Rightarrow> [])
        else [])"

text \<open>\<open>extractAndEmit\<close> updates \<open>*thought\<close> and appends to \<open>*visible\<close>.\<close>

definition extractAndEmit ::
  "thinkSplitter \<Rightarrow> string \<Rightarrow> string \<Rightarrow> string \<Rightarrow> thinkSplitter \<times> string \<times> string" where
  "extractAndEmit s text thought visible =
     (case Cut text close_tag of (before, after, ok) \<Rightarrow>
        if ok then
          (let s1 = s\<lparr>th_depth := th_depth s - 1\<rparr>;
               s2 = (if th_depth s1 = 0 then s1\<lparr>th_state := thinkProbe\<rparr> else s1)
           in if th_buf s2 \<noteq> [] then (s2\<lparr>th_buf := []\<rparr>, th_buf s2 @ before, visible @ after)
              else (s2, before, visible @ after))
        else (s\<lparr>th_buf := th_buf s @ text\<rparr>, thought, visible))"

definition push :: "thinkSplitter \<Rightarrow> string \<Rightarrow> thinkSplitter \<times> string \<times> string" where
  "push s text = (case th_state s of
     thinkProbe \<Rightarrow>
       (let tag = extractThinkTag text in
        if tag \<noteq> [] then
          (case Cut text tag of (before, after, ok) \<Rightarrow>
             let s1 = s\<lparr>th_depth := th_depth s + 1, th_state := thinkInside\<rparr>
             in if ok then extractAndEmit s1 after [] before else (s1, [], before))
        else (case Index text ''<think'' of
            Some idx \<Rightarrow>
              (let before = take idx text;
                   rest = drop idx text;
                   s1 = s\<lparr>th_state := thinkInside, th_depth := th_depth s + 1\<rparr>;
                   inner = drop (length ''<think'') rest
               in if HasPrefix inner ''>'' then extractAndEmit s1 (drop 1 inner) [] before
                  else (s1\<lparr>th_buf := th_buf s1 @ inner\<rparr>, [], before))
          | None \<Rightarrow> (s\<lparr>th_state := thinkPassthrough\<rparr>, [], text)))
   | thinkInside \<Rightarrow>
       (case Cut text close_tag of (before, after, ok) \<Rightarrow>
          if ok then
            (let s1 = s\<lparr>th_depth := th_depth s - 1\<rparr>;
                 s2 = (if th_depth s1 = 0 then s1\<lparr>th_state := thinkProbe\<rparr> else s1)
             in if th_buf s2 \<noteq> [] then (s2\<lparr>th_buf := []\<rparr>, th_buf s2 @ before, after)
                else (s2, before, after))
          else (s\<lparr>th_buf := th_buf s @ text\<rparr>, [], []))
   | thinkPassthrough \<Rightarrow> (s, [], text))"

definition flush :: "thinkSplitter \<Rightarrow> thinkSplitter \<times> string \<times> string" where
  "flush s = (\<lparr>th_state = thinkProbe, th_buf = [], th_depth = 0\<rparr>, th_buf s, [])"

text \<open>\<open>extractThink\<close> is not called by the program; it is modelled for completeness.\<close>

definition extractThink :: "thinkSplitter \<Rightarrow> string \<Rightarrow> thinkSplitter \<times> string" where
  "extractThink s text =
     (case Cut text close_tag of (before, _, ok) \<Rightarrow>
        if ok then (s, before) else (s\<lparr>th_buf := th_buf s @ text\<rparr>, []))"

text \<open>Feeding a sequence of chunks, as \<open>processSSEData\<close> does, and collecting what is released.\<close>

fun push_all :: "thinkSplitter \<Rightarrow> string list \<Rightarrow> thinkSplitter \<times> string \<times> string" where
  "push_all s [] = (s, [], [])"
| "push_all s (t # ts) =
     (case push s t of (s1, th1, vis1) \<Rightarrow>
        case push_all s1 ts of (s2, th2, vis2) \<Rightarrow> (s2, th1 @ th2, vis1 @ vis2))"

subsection \<open>Lemmas\<close>

definition think_inv :: "thinkSplitter \<Rightarrow> bool" where
  "think_inv s \<longleftrightarrow>
     (if th_state s = thinkInside then th_depth s = 1 else th_depth s = 0 \<and> th_buf s = [])"

lemma extractAndEmit_inv:
  "th_state s = thinkInside \<Longrightarrow> th_depth s = 1 \<Longrightarrow> think_inv (fst (extractAndEmit s text a b))"
  by (auto simp: extractAndEmit_def think_inv_def Let_def split: prod.splits)

lemma push_inv: "think_inv s \<Longrightarrow> think_inv (fst (push s text))"
proof (cases "th_state s")
  case thinkProbe
  assume "think_inv s"
  with thinkProbe have "th_depth s = 0" by (simp add: think_inv_def)
  then show ?thesis
    using thinkProbe
    by (auto simp: push_def Let_def extractAndEmit_inv split: prod.splits option.splits)
       (auto simp: think_inv_def \<open>think_inv s\<close> [unfolded think_inv_def])
qed (auto simp: push_def think_inv_def Let_def split: prod.splits)

lemma push_all_inv: "think_inv s \<Longrightarrow> think_inv (fst (push_all s ts))"
proof (induction ts arbitrary: s)
  case (Cons t ts)
  then show ?case using push_inv [of s t] by (fastforce split: prod.splits)
qed simp

text \<open>The closing tag has \<open><\<close> only in front, so it cannot overlap the text before it.\<close>

lemma Index_close_tag:
  assumes "\<not> Contains a close_tag"
  shows "Index (a @ close_tag @ b) close_tag = Some (length a)"
  using assms
proof (induction a)
  case Nil
  show ?case by (simp add: close_tag_def)
next
  case (Cons c a)
  have nc: "\<not> Contains a close_tag"
    using Cons.prems unfolding Contains_iff by (metis append_Cons)
  have "\<not> HasPrefix (c # a @ close_tag @ b) close_tag"
  proof
    assume "HasPrefix (c # a @ close_tag @ b) close_tag"
    then obtain t where t: "(c # a) @ close_tag @ b = close_tag @ t"
      by (auto simp: HasPrefix_iff)
    show False
    proof (cases "length (c # a) < length close_tag")
      case False
      then have "take (length close_tag) (c # a) = close_tag"
        using arg_cong [OF t, of "take (length close_tag)"] by (simp add: close_tag_def)
      then have "Contains (c # a) close_tag"
        unfolding Contains_iff by (metis append_Nil append_take_drop_id)
      with Cons.prems show False by simp
    next
      case True
      let ?n = "length (c # a)"
      have "((c # a) @ close_tag @ b) ! ?n = CHR ''<''"
        by (simp add: nth_append close_tag_def)
      moreover have "((c # a) @ close_tag @ b) ! ?n = close_tag ! ?n"
        using True t by (simp add: nth_append)
      ultimately have "close_tag ! ?n = CHR ''<''" by simp
      moreover have "?n \<in> {1..<8}" using True by (auto simp: close_tag_def)
      moreover have "\<forall>k \<in> {1..<8}. close_tag ! k \<noteq> CHR ''<''" by code_simp
      ultimately show False by blast
    qed
  qed
  with Cons.IH [OF nc] show ?case by simp
qed

lemma Cut_close_tag:
  "\<not> Contains a close_tag \<Longrightarrow> Cut (a @ close_tag @ b) close_tag = (a, b, True)"
  by (simp add: Cut_def Index_close_tag)

lemma Cut_not_contains: "\<not> Contains a sep \<Longrightarrow> Cut a sep = (a, [], False)"
  by (simp add: Cut_def Contains_def)

lemma push_inside_hold:
  "th_state s = thinkInside \<Longrightarrow> \<not> Contains t close_tag \<Longrightarrow>
   push s t = (s\<lparr>th_buf := th_buf s @ t\<rparr>, [], [])"
  by (simp add: push_def Cut_not_contains)

lemma push_all_inside_hold:
  "th_state s = thinkInside \<Longrightarrow> \<forall>t \<in> set ts. \<not> Contains t close_tag \<Longrightarrow>
   push_all s ts = (s\<lparr>th_buf := th_buf s @ concat ts\<rparr>, [], [])"
  by (induction ts arbitrary: s) (auto simp: push_inside_hold)

lemma push_inside_close:
  "th_state s = thinkInside \<Longrightarrow> th_depth s = 1 \<Longrightarrow> \<not> Contains a close_tag \<Longrightarrow>
   push s (a @ close_tag @ b) = (think_init, th_buf s @ a, b)"
  by (auto simp: push_def Cut_close_tag Let_def think_init_def)

lemma push_all_append:
  "push_all s (xs @ ys) =
     (case push_all s xs of (s1, th1, vis1) \<Rightarrow>
        case push_all s1 ys of (s2, th2, vis2) \<Rightarrow> (s2, th1 @ th2, vis1 @ vis2))"
  by (induction xs arbitrary: s) (auto split: prod.splits)

lemma push_open:
  assumes "\<not> Contains t close_tag"
  shows "push think_init (''<think>'' @ t) =
           (\<lparr>th_state = thinkInside, th_buf = t, th_depth = 1\<rparr>, [], [])"
proof -
  have tag: "extractThinkTag (''<think>'' @ t) = ''<think>''"
    by (simp add: extractThinkTag_def)
  have cut: "Cut (''<think>'' @ t) ''<think>'' = ([], t, True)"
    by (simp add: Cut_def)
  show ?thesis
    using assms tag cut by (simp add: push_def think_init_def extractAndEmit_def Cut_not_contains)
qed

subsection \<open>Properties\<close>

text \<open>A reasoning block that arrives in any number of chunks is separated exactly: after an
  opening chunk with the tag, any chunks without the closing tag, and a chunk that holds it, the
  thought released is all the text between the tags, the visible text is what follows, and the
  splitter is back in its initial state.\<close>

theorem think_block_split:
  assumes "\<forall>t \<in> set (t0 # ts @ [a]). \<not> Contains t close_tag"
  shows "push_all think_init ((''<think>'' @ t0) # ts @ [a @ close_tag @ b]) =
           (think_init, t0 @ concat ts @ a, b)"
  using assms
  by (simp add: push_open push_all_append push_all_inside_hold push_inside_close
      del: append_Cons append_Nil) 

theorem think_block_split_witness:
  "push_all think_init [''<think>ab'', ''cd'', ''e</think>hi''] = (think_init, ''abcde'', ''hi'')"
proof -
  have "\<forall>t \<in> set (''ab'' # [''cd''] @ [''e'']). \<not> Contains t close_tag" by code_simp
  from think_block_split [OF this, of "''hi''"] show ?thesis by (simp add: close_tag_def)
qed

text \<open>From the initial state, after any sequence of chunks, the nesting depth is 1 exactly
  while inside a block and 0 otherwise, and text is held back only inside a block; so flush at the
  end of the stream releases every held byte and returns the splitter to its initial state.\<close>

theorem think_state_invariant:
  "think_inv (fst (push_all think_init ts))
   \<and> flush (fst (push_all think_init ts)) = (think_init, th_buf (fst (push_all think_init ts)), [])
   \<and> (th_state (fst (push_all think_init ts)) \<noteq> thinkInside \<longrightarrow>
        th_buf (fst (push_all think_init ts)) = [])"
proof -
  have "think_inv think_init" by (simp add: think_inv_def think_init_def)
  then have "think_inv (fst (push_all think_init ts))" by (rule push_all_inv)
  then show ?thesis by (simp add: flush_def think_init_def think_inv_def)
qed

theorem think_state_invariant_witness:
  "th_buf (fst (push_all think_init [''plain'', '' text''])) = []"
proof -
  have "th_state (fst (push_all think_init [''plain'', '' text''])) \<noteq> thinkInside" by code_simp
  with think_state_invariant [of "[''plain'', '' text'']"] show ?thesis by simp
qed

text \<open>A closing tag that two chunks share is not recognised: the answer after it is held back and
  comes out as thought at the end of the stream.\<close>

theorem think_split_closing_tag_missed:
  "push_all think_init [''<think>x</thi'', ''nk>answer''] =
     (\<lparr>th_state = thinkInside, th_buf = ''x</think>answer'', th_depth = 1\<rparr>, [], [])"
  by code_simp

end
