(* ===== verification/Breaker.thy ===== *)
theory Breaker
  imports Types
begin

section \<open>Circuit breaker and health checks (protocol/types.go, health_check.go, health_manager.go)\<close>

text \<open>
  A breaker is shared by the retry loop, the stream loop and the health checker. Time is an
  integer number of nanoseconds and is passed where the code calls \<open>time.Now\<close>. The mutex
  makes each operation atomic, so an operation is a function from breaker to breaker and an
  execution is a sequence of operations.
\<close>

datatype CircuitBreakerState = Closed | Open | HalfOpen

record CircuitBreakerOptions =
  o_Timeout :: int
  o_HalfOpenMaxCalls :: int
  o_CheckHTTPCodes :: "nat list"
  o_CheckErrors :: "gerror list"
  o_FailureThreshold :: int

record CircuitBreaker =
  cb_failureThreshold :: int
  cb_lastFailure :: int
  cb_state :: CircuitBreakerState
  cb_options :: CircuitBreakerOptions

definition NewCircuitBreaker :: "CircuitBreakerOptions \<Rightarrow> CircuitBreaker" where
  "NewCircuitBreaker opts =
     (let opts = (if o_FailureThreshold opts \<le> 0 then opts\<lparr>o_FailureThreshold := 5\<rparr> else opts)
      in \<lparr>cb_failureThreshold = o_FailureThreshold opts, cb_lastFailure = 0,
          cb_state = Closed, cb_options = opts\<rparr>)"

fun isFailure :: "CircuitBreaker \<Rightarrow> gerror option \<Rightarrow> bool" where
  "isFailure cb None = False"
| "isFailure cb (Some err) =
     (if \<exists>e \<in> set (o_CheckErrors (cb_options cb)). errors_Is err e then True
      else if o_CheckHTTPCodes (cb_options cb) \<noteq> []
           \<and> (case errors_As err is_AuthError of
                Some (AuthError v status k) \<Rightarrow> status \<in> set (o_CheckHTTPCodes (cb_options cb))
              | _ \<Rightarrow> False)
           then True
      else True)"

definition Check :: "CircuitBreaker \<Rightarrow> int \<Rightarrow> gerror option \<Rightarrow> CircuitBreaker \<times> bool" where
  "Check cb now err = (case cb_state cb of
     Closed \<Rightarrow>
       if err \<noteq> None \<and> isFailure cb err then
         (let cb1 = cb\<lparr>cb_failureThreshold := cb_failureThreshold cb - 1\<rparr>
          in if cb_failureThreshold cb1 \<le> 0 then (cb1\<lparr>cb_state := Open, cb_lastFailure := now\<rparr>, False)
             else (cb1, True))
       else (cb, True)
   | Open \<Rightarrow>
       if o_Timeout (cb_options cb) \<le> now - cb_lastFailure cb then (cb\<lparr>cb_state := HalfOpen\<rparr>, True)
       else (cb, False)
   | HalfOpen \<Rightarrow>
       if err \<noteq> None \<and> isFailure cb err then (cb\<lparr>cb_state := Open, cb_lastFailure := now\<rparr>, False)
       else (cb, True))"

definition Success :: "CircuitBreaker \<Rightarrow> CircuitBreaker" where
  "Success cb =
     (let cb1 = (if cb_state cb = HalfOpen
                 then cb\<lparr>cb_failureThreshold := o_FailureThreshold (cb_options cb), cb_state := Closed\<rparr>
                 else cb)
      in if cb_state cb1 = Closed
         then cb1\<lparr>cb_failureThreshold := o_FailureThreshold (cb_options cb1)\<rparr> else cb1)"

subsection \<open>Health checker and manager\<close>

datatype HealthStatus = HealthUnknown | HealthHealthy | HealthUnhealthy | HealthCircuitOpen

record HealthChecker =
  h_status :: HealthStatus
  h_lastCheck :: int
  h_lastErr :: "gerror option"
  h_consecutiveFailures :: nat
  h_unhealthyThreshold :: nat

definition NewHealthChecker :: HealthChecker where
  "NewHealthChecker = \<lparr>h_status = HealthUnknown, h_lastCheck = 0, h_lastErr = None,
     h_consecutiveFailures = 0, h_unhealthyThreshold = 3\<rparr>"

text \<open>The breaker pointer of a checker may be nil; an operation returns both updated objects.\<close>

definition recordSuccess ::
  "HealthChecker \<Rightarrow> CircuitBreaker option \<Rightarrow> int \<Rightarrow> HealthChecker \<times> CircuitBreaker option" where
  "recordSuccess h breaker now =
     (h\<lparr>h_status := HealthHealthy, h_lastCheck := now, h_lastErr := None, h_consecutiveFailures := 0\<rparr>,
      map_option Success breaker)"

definition recordFailure ::
  "HealthChecker \<Rightarrow> CircuitBreaker option \<Rightarrow> int \<Rightarrow> gerror \<Rightarrow> HealthChecker \<times> CircuitBreaker option" where
  "recordFailure h breaker now err =
     (h\<lparr>h_status := HealthUnhealthy, h_lastCheck := now, h_lastErr := Some err,
        h_consecutiveFailures := h_consecutiveFailures h + 1\<rparr>,
      map_option (\<lambda>cb. fst (Check cb now (Some err))) breaker)"

datatype probe_outcome = ProbeBuildErr gerror | ProbeDoErr gerror | ProbeStatus nat

definition health_check ::
  "HealthChecker \<Rightarrow> CircuitBreaker option \<Rightarrow> int \<Rightarrow> probe_outcome \<Rightarrow> HealthChecker \<times> CircuitBreaker option" where
  "health_check h breaker now outcome = (case outcome of
     ProbeBuildErr e \<Rightarrow> recordFailure h breaker now e
   | ProbeDoErr e \<Rightarrow> recordFailure h breaker now e
   | ProbeStatus s \<Rightarrow>
       if s = 200 \<or> s = 401 then recordSuccess h breaker now
       else recordFailure h breaker now (ErrMsg (''unexpected status: '' @ show_nat s)))"

text \<open>
  The manager's view of one vendor: its checker, if registered, and the breaker it was registered
  with, which is the vendor's shared breaker or nil.
\<close>

definition GetStatus ::
  "HealthChecker option \<Rightarrow> CircuitBreaker option \<Rightarrow> int \<Rightarrow> CircuitBreaker option \<times> HealthStatus" where
  "GetStatus checker breaker now = (case checker of
     None \<Rightarrow> (breaker, HealthUnknown)
   | Some h \<Rightarrow>
       if h_status h = HealthUnhealthy then
         (case breaker of
            Some cb \<Rightarrow> (case Check cb now None of (cb', ok) \<Rightarrow>
                          (Some cb', if \<not> ok then HealthCircuitOpen else h_status h))
          | None \<Rightarrow> (None, h_status h))
       else (breaker, h_status h))"

subsection \<open>Abstract specification\<close>

text \<open>
  What the breaker promises, without its countdown: closed with the number of consecutive failures
  seen, open since some time, or half open.
\<close>

datatype spec_breaker = SClosed int | SOpen int | SHalf

definition abs_breaker :: "CircuitBreaker \<Rightarrow> spec_breaker" where
  "abs_breaker cb = (case cb_state cb of
     Closed \<Rightarrow> SClosed (o_FailureThreshold (cb_options cb) - cb_failureThreshold cb)
   | Open \<Rightarrow> SOpen (cb_lastFailure cb)
   | HalfOpen \<Rightarrow> SHalf)"

fun spec_check :: "int \<Rightarrow> int \<Rightarrow> int \<Rightarrow> bool \<Rightarrow> spec_breaker \<Rightarrow> spec_breaker \<times> bool" where
  "spec_check thr timeout now failed (SClosed n) =
     (if failed then (if n + 1 \<ge> thr then (SOpen now, False) else (SClosed (n + 1), True))
      else (SClosed n, True))"
| "spec_check thr timeout now failed (SOpen t) =
     (if timeout \<le> now - t then (SHalf, True) else (SOpen t, False))"
| "spec_check thr timeout now failed SHalf = (if failed then (SOpen now, False) else (SHalf, True))"

fun spec_success :: "spec_breaker \<Rightarrow> spec_breaker" where
  "spec_success (SClosed n) = SClosed 0"
| "spec_success (SOpen t) = SOpen t"
| "spec_success SHalf = SClosed 0"

definition breaker_inv :: "CircuitBreaker \<Rightarrow> bool" where
  "breaker_inv cb \<longleftrightarrow>
     0 < o_FailureThreshold (cb_options cb)
     \<and> cb_failureThreshold cb \<le> o_FailureThreshold (cb_options cb)
     \<and> (cb_state cb = Closed \<longrightarrow> 0 < cb_failureThreshold cb)"

subsection \<open>Lemmas\<close>

text \<open>Whatever the options list, every non-nil error counts as a failure.\<close>

lemma isFailure_iff [simp]: "isFailure cb err = (err \<noteq> None)"
  by (cases err) auto

lemma breaker_inv_new: "breaker_inv (NewCircuitBreaker opts)"
  by (simp add: breaker_inv_def NewCircuitBreaker_def Let_def)

lemma breaker_inv_check: "breaker_inv cb \<Longrightarrow> breaker_inv (fst (Check cb now err))"
  by (auto simp: breaker_inv_def Check_def Let_def split: CircuitBreakerState.splits)

lemma breaker_inv_success: "breaker_inv cb \<Longrightarrow> breaker_inv (Success cb)"
  by (auto simp: breaker_inv_def Success_def Let_def)

lemma check_options [simp]: "cb_options (fst (Check cb now err)) = cb_options cb"
  by (auto simp: Check_def Let_def split: CircuitBreakerState.splits)

lemma success_options [simp]: "cb_options (Success cb) = cb_options cb"
  by (simp add: Success_def Let_def)

lemma check_refines:
  "(abs_breaker (fst (Check cb now err)), snd (Check cb now err)) =
   spec_check (o_FailureThreshold (cb_options cb)) (o_Timeout (cb_options cb)) now (err \<noteq> None)
     (abs_breaker cb)"
  by (cases "cb_state cb") (auto simp: Check_def abs_breaker_def Let_def)

lemma success_refines: "abs_breaker (Success cb) = spec_success (abs_breaker cb)"
  by (cases "cb_state cb") (auto simp: Success_def abs_breaker_def Let_def)

subsection \<open>Executions as a step relation\<close>

datatype breaker_event = EvCheck int "gerror option" | EvSuccess

inductive breaker_step :: "CircuitBreaker \<Rightarrow> breaker_event \<Rightarrow> bool \<Rightarrow> CircuitBreaker \<Rightarrow> bool" where
  step_check: "Check cb now err = (cb', ok) \<Longrightarrow> breaker_step cb (EvCheck now err) ok cb'"
| step_success: "breaker_step cb EvSuccess True (Success cb)"

inductive_cases breaker_stepE: "breaker_step cb ev ok cb'"
inductive_simps breaker_step_check [simp]: "breaker_step cb (EvCheck now err) ok cb'"
inductive_simps breaker_step_success [simp]: "breaker_step cb EvSuccess ok cb'"

inductive breaker_reach :: "CircuitBreakerOptions \<Rightarrow> CircuitBreaker \<Rightarrow> bool" for opts where
  reach_new: "breaker_reach opts (NewCircuitBreaker opts)"
| reach_step: "breaker_reach opts cb \<Longrightarrow> breaker_step cb ev ok cb' \<Longrightarrow> breaker_reach opts cb'"

lemma breaker_reach_inv: "breaker_reach opts cb \<Longrightarrow> breaker_inv cb"
proof (induction rule: breaker_reach.induct)
  case reach_new
  show ?case by (rule breaker_inv_new)
next
  case (reach_step cb ev ok cb')
  from reach_step(2) show ?case
  proof (cases rule: breaker_step.cases)
    case (step_check now err)
    then show ?thesis using breaker_inv_check [OF reach_step.IH, of now err] by simp
  next
    case step_success
    then show ?thesis using breaker_inv_success [OF reach_step.IH] by simp
  qed
qed

fun run_failures :: "CircuitBreaker \<Rightarrow> (int \<times> gerror) list \<Rightarrow> CircuitBreaker" where
  "run_failures cb [] = cb"
| "run_failures cb ((now, e) # fs) = run_failures (fst (Check cb now (Some e))) fs"

lemma run_failures_closed:
  assumes "cb_state cb = Closed" and "int (length fs) < cb_failureThreshold cb"
  shows "cb_state (run_failures cb fs) = Closed
     \<and> cb_failureThreshold (run_failures cb fs) = cb_failureThreshold cb - int (length fs)"
  using assms
proof (induction cb fs rule: run_failures.induct)
  case (2 cb now e fs)
  let ?cb1 = "fst (Check cb now (Some e))"
  have "cb_state ?cb1 = Closed" "cb_failureThreshold ?cb1 = cb_failureThreshold cb - 1"
    using 2(2,3) by (auto simp: Check_def Let_def)
  with 2 show ?case by simp
qed simp

subsection \<open>The interface the retry loop relies on\<close>

text \<open>
  A client asks \<open>may\<close> before a call and reports the call's result with \<open>fail\<close> or \<open>good\<close>.
  \<open>blocked b t\<close> says that the breaker refuses a call at time \<open>t\<close>.
\<close>

locale breaker_interface =
  fixes may :: "'b \<Rightarrow> int \<Rightarrow> 'b \<times> bool"
    and fail :: "'b \<Rightarrow> int \<Rightarrow> gerror \<Rightarrow> 'b"
    and good :: "'b \<Rightarrow> 'b"
    and blocked :: "'b \<Rightarrow> int \<Rightarrow> bool"
    and wf :: "'b \<Rightarrow> bool"
  assumes may_iff: "snd (may b t) \<longleftrightarrow> \<not> blocked b t"
    and may_blocked: "blocked b t \<Longrightarrow> fst (may b t) = b"
    and may_wf: "wf b \<Longrightarrow> wf (fst (may b t))"
    and fail_wf: "wf b \<Longrightarrow> wf (fail b t e)"
    and good_wf: "wf b \<Longrightarrow> wf (good b)"
    and blocked_earlier: "blocked b t \<Longrightarrow> t' \<le> t \<Longrightarrow> blocked b t'"
begin

text \<open>A blocked breaker refuses a whole batch of calls up to the same time and is left unchanged.\<close>

lemma blocked_batch:
  assumes "blocked b t" and "\<forall>u \<in> set ts. u \<le> t"
  shows "foldl (\<lambda>c u. fst (may c u)) b ts = b \<and> (\<forall>u \<in> set ts. \<not> snd (may b u))"
  using assms
proof (induction ts)
  case (Cons u ts)
  then have "blocked b u" by (auto intro: blocked_earlier)
  with Cons show ?case by (simp add: may_blocked may_iff)
qed simp

lemma wf_sequence:
  "wf b \<Longrightarrow> wf (foldl (\<lambda>c r. case r of Some (t, e) \<Rightarrow> fail c t e | None \<Rightarrow> good c) b rs)"
  by (induction rs arbitrary: b) (auto simp: fail_wf good_wf split: option.splits)

end

definition open_until :: "CircuitBreaker \<Rightarrow> int \<Rightarrow> bool" where
  "open_until cb t \<longleftrightarrow> cb_state cb = Open \<and> t - cb_lastFailure cb < o_Timeout (cb_options cb)"

interpretation vendor_breaker: breaker_interface
  "\<lambda>cb t. Check cb t None" "\<lambda>cb t e. fst (Check cb t (Some e))" Success open_until breaker_inv
proof unfold_locales
  show "snd (Check b t None) \<longleftrightarrow> \<not> open_until b t" for b t
    by (auto simp: Check_def open_until_def split: CircuitBreakerState.splits)
  show "open_until b t \<Longrightarrow> fst (Check b t None) = b" for b t
    by (auto simp: Check_def open_until_def)
qed (auto simp: breaker_inv_check breaker_inv_success open_until_def)

subsection \<open>Properties\<close>

text \<open>C3: The breaker implements its specification: seen through the number of consecutive
  failures, Check and Success behave as the abstract breaker (closed until the threshold is
  reached, open for the timeout, half open until the next result).\<close>

theorem breaker_refines_spec:
  "(abs_breaker (fst (Check cb now err)), snd (Check cb now err)) =
     spec_check (o_FailureThreshold (cb_options cb)) (o_Timeout (cb_options cb)) now (err \<noteq> None)
       (abs_breaker cb)
   \<and> abs_breaker (Success cb) = spec_success (abs_breaker cb)"
  by (simp add: check_refines success_refines)

text \<open>In every state reachable from NewCircuitBreaker by any sequence of Check and Success
  calls, the threshold is positive, the countdown never exceeds it, and a closed breaker still has
  failures left; so a closed breaker never refuses a call.\<close>

theorem breaker_reachable_invariant:
  assumes "breaker_reach opts cb"
  shows "0 < o_FailureThreshold (cb_options cb)
     \<and> cb_failureThreshold cb \<le> o_FailureThreshold (cb_options cb)
     \<and> (cb_state cb = Closed \<longrightarrow> 0 < cb_failureThreshold cb \<and> Check cb now None = (cb, True))"
  using breaker_reach_inv [OF assms] by (simp add: breaker_inv_def Check_def)

theorem breaker_reachable_invariant_witness:
  "0 < cb_failureThreshold (NewCircuitBreaker \<lparr>o_Timeout = 60, o_HalfOpenMaxCalls = 0,
       o_CheckHTTPCodes = [], o_CheckErrors = [], o_FailureThreshold = 0\<rparr>)"
proof -
  let ?o = "\<lparr>o_Timeout = 60, o_HalfOpenMaxCalls = 0, o_CheckHTTPCodes = [], o_CheckErrors = [],
     o_FailureThreshold = 0\<rparr>"
  have "cb_state (NewCircuitBreaker ?o) = Closed" by (simp add: NewCircuitBreaker_def)
  with breaker_reachable_invariant [OF reach_new [of ?o]] show ?thesis by simp
qed

text \<open>A fresh breaker trips exactly at its threshold: it stays closed through fewer failures
  than the threshold, the failure that reaches the threshold opens it, and from then on every call
  before the timeout has passed is refused and leaves the breaker unchanged.\<close>

theorem breaker_trips_at_threshold:
  assumes "int (length fs) + 1 = o_FailureThreshold (cb_options (NewCircuitBreaker opts))"
  shows "cb_state (run_failures (NewCircuitBreaker opts) fs) = Closed
    \<and> cb_state (run_failures (NewCircuitBreaker opts) (fs @ [(now, e)])) = Open
    \<and> (t - now < o_Timeout opts \<longrightarrow>
         Check (run_failures (NewCircuitBreaker opts) (fs @ [(now, e)])) t None =
         (run_failures (NewCircuitBreaker opts) (fs @ [(now, e)]), False))"
proof -
  let ?cb = "NewCircuitBreaker opts"
  have app: "run_failures c (xs @ [(now, e)]) = fst (Check (run_failures c xs) now (Some e))" for c xs
    by (induction c xs rule: run_failures.induct) auto
  have opt: "cb_options (run_failures c xs) = cb_options c" for c xs
    by (induction c xs rule: run_failures.induct) auto
  have init: "cb_state ?cb = Closed" "cb_failureThreshold ?cb = o_FailureThreshold (cb_options ?cb)"
    "o_Timeout (cb_options ?cb) = o_Timeout opts"
    by (simp_all add: NewCircuitBreaker_def Let_def)
  note closed = run_failures_closed [of ?cb fs]
  have c: "cb_state (run_failures ?cb fs) = Closed" using closed init assms by simp
  have "cb_failureThreshold (run_failures ?cb fs) = 1" using closed init assms by simp
  with c have tripped: "cb_state (run_failures ?cb (fs @ [(now, e)])) = Open"
    "cb_lastFailure (run_failures ?cb (fs @ [(now, e)])) = now"
    by (simp_all add: app Check_def)
  then have "Check (run_failures ?cb (fs @ [(now, e)])) t None = (run_failures ?cb (fs @ [(now, e)]), False)"
    if "t - now < o_Timeout opts"
    using that init(3) by (auto simp: Check_def opt)
  with c tripped show ?thesis by blast
qed

theorem breaker_trips_at_threshold_witness:
  "cb_state (run_failures (NewCircuitBreaker \<lparr>o_Timeout = 60, o_HalfOpenMaxCalls = 0,
       o_CheckHTTPCodes = [], o_CheckErrors = [], o_FailureThreshold = 2\<rparr>)
     [(5, ErrEOF), (7, ErrEOF)]) = Open"
proof -
  let ?o = "\<lparr>o_Timeout = 60, o_HalfOpenMaxCalls = 0, o_CheckHTTPCodes = [], o_CheckErrors = [],
     o_FailureThreshold = 2\<rparr>"
  have "int (length [(5::int, ErrEOF)]) + 1 = o_FailureThreshold (cb_options (NewCircuitBreaker ?o))"
    by (simp add: NewCircuitBreaker_def)
  from breaker_trips_at_threshold [OF this, of 7 ErrEOF] show ?thesis by simp
qed

text \<open>One failed probe already marks a vendor unhealthy; \<open>unhealthyThreshold\<close> is never consulted.\<close>

theorem one_probe_failure_is_unhealthy:
  "h_status (fst (recordFailure NewHealthChecker b now e)) = HealthUnhealthy
   \<and> h_consecutiveFailures (fst (recordFailure NewHealthChecker b now e))
     < h_unhealthyThreshold NewHealthChecker"
  by (simp add: recordFailure_def NewHealthChecker_def)

end
