(* ===== verification/Url.thy ===== *)
theory Url
  imports Prelude
begin

section \<open>net/url: parsing as far as the program uses it\<close>

text \<open>
  The program reads the scheme and the hostname of a parsed URL. The model follows
  \<open>url.Parse\<close> of Go's standard library: control bytes, scheme, query, opaque part, authority,
  user information, port, brackets and percent escapes; \<open>None\<close> is a parse error. Path,
  query and fragment are checked where a malformed one makes \<open>Parse\<close> fail, but not kept.
\<close>

record url_t =
  u_Scheme :: string
  u_Host :: string

definition is_alpha :: "char \<Rightarrow> bool" where
  "is_alpha c = ((CHR ''a'' \<le> c \<and> c \<le> CHR ''z'') \<or> (CHR ''A'' \<le> c \<and> c \<le> CHR ''Z''))"

definition ctl_byte :: "char \<Rightarrow> bool" where
  "ctl_byte c = (c < CHR 0x20 \<or> c = CHR 0x7F)"

definition is_hex :: "char \<Rightarrow> bool" where
  "is_hex c = (is_digit c \<or> (CHR ''a'' \<le> c \<and> c \<le> CHR ''f'') \<or> (CHR ''A'' \<le> c \<and> c \<le> CHR ''F''))"

definition unhex :: "char \<Rightarrow> nat" where
  "unhex c = (if is_digit c then of_char c - 48
              else if CHR ''a'' \<le> c then of_char c - 97 + 10 else of_char c - 65 + 10)"

definition LastIndexByte :: "string \<Rightarrow> char \<Rightarrow> nat option" where
  "LastIndexByte s c =
     (let n = length (takeWhile (\<lambda>d. d \<noteq> c) (rev s))
      in if n < length s then Some (length s - 1 - n) else None)"

text \<open>\<open>getScheme\<close>: \<open>None\<close> is "missing protocol scheme".\<close>

fun getScheme_loop :: "string \<Rightarrow> string \<Rightarrow> string \<Rightarrow> (string \<times> string) option" where
  "getScheme_loop raw seen [] = Some ([], raw)"
| "getScheme_loop raw seen (c # cs) =
     (if is_alpha c then getScheme_loop raw (seen @ [c]) cs
      else if is_digit c \<or> c = CHR ''+'' \<or> c = CHR ''-'' \<or> c = CHR ''.'' then
        (if seen = [] then Some ([], raw) else getScheme_loop raw (seen @ [c]) cs)
      else if c = CHR '':'' then (if seen = [] then None else Some (seen, cs))
      else Some ([], raw))"

definition getScheme :: "string \<Rightarrow> (string \<times> string) option" where
  "getScheme raw = getScheme_loop raw [] raw"

text \<open>Percent escapes outside the host: each \<open>%\<close> needs two hexadecimal digits.\<close>

fun escapes_ok :: "string \<Rightarrow> bool" where
  "escapes_ok [] = True"
| "escapes_ok (c # cs) =
     (if c = CHR ''%'' then
        (case cs of a # b # rest \<Rightarrow> is_hex a \<and> is_hex b \<and> escapes_ok rest | _ \<Rightarrow> False)
      else escapes_ok cs)"

definition host_plain :: "char \<Rightarrow> bool" where
  "host_plain c = (is_alpha c \<or> is_digit c \<or> c \<in> set ''-_.~!$&'' \<or> c = CHR 0x27
     \<or> c \<in> set ''()*+,;=:[]<>'' \<or> c = CHR 0x22 \<or> CHR 0x80 \<le> c)"

text \<open>\<open>unescape\<close> in host mode: only non-ASCII bytes and \<open>%25\<close> may be escaped.\<close>

fun unescape_host :: "string \<Rightarrow> string option" where
  "unescape_host [] = Some []"
| "unescape_host (c # cs) =
     (if c = CHR ''%'' then
        (case cs of
           a # b # rest \<Rightarrow>
             if \<not> (is_hex a \<and> is_hex b) then None
             else if unhex a < 8 \<and> [a, b] \<noteq> ''25'' then None
             else map_option ((#) (char_of (unhex a * 16 + unhex b))) (unescape_host rest)
         | _ \<Rightarrow> None)
      else if host_plain c then map_option ((#) c) (unescape_host cs)
      else None)"

definition validOptionalPort :: "string \<Rightarrow> bool" where
  "validOptionalPort port = (case port of [] \<Rightarrow> True | c # cs \<Rightarrow> c = CHR '':'' \<and> list_all is_digit cs)"

definition parseHost :: "string \<Rightarrow> string option" where
  "parseHost host =
     (if CHR ''['' \<in> set host then
        (case LastIndexByte host (CHR '']'') of
           None \<Rightarrow> None
         | Some i \<Rightarrow>
             if hd host \<noteq> CHR ''['' then None
             else if \<not> validOptionalPort (drop (Suc i) host) then None
             else unescape_host host)
      else (case LastIndexByte host (CHR '':'') of
           Some i \<Rightarrow> if \<not> validOptionalPort (drop i host) then None else unescape_host host
         | None \<Rightarrow> unescape_host host))"

definition userinfo_char :: "char \<Rightarrow> bool" where
  "userinfo_char c = (is_alpha c \<or> is_digit c \<or> c \<in> set ''-._:~!$&()*+,;=%@'' \<or> c = CHR 0x27)"

definition parseAuthority :: "string \<Rightarrow> string option" where
  "parseAuthority authority = (case LastIndexByte authority (CHR ''@'') of
     None \<Rightarrow> parseHost authority
   | Some i \<Rightarrow>
       (case parseHost (drop (Suc i) authority) of
          None \<Rightarrow> None
        | Some host \<Rightarrow>
            if list_all userinfo_char (take i authority) \<and> escapes_ok (take i authority)
            then Some host else None))"

definition url_parse :: "string \<Rightarrow> url_t option" where
  "url_parse rawURL =
     (case Cut rawURL ''#'' of (u, frag, _) \<Rightarrow>
      if list_ex ctl_byte u then None
      else if \<not> escapes_ok frag then None
      else if u = ''*'' then Some \<lparr>u_Scheme = [], u_Host = []\<rparr>
      else case getScheme u of
        None \<Rightarrow> None
      | Some (scheme0, rest0) \<Rightarrow>
        (let scheme = ToLower scheme0; rest = fst (Cut rest0 ''?'') in
         if \<not> HasPrefix rest ''/'' \<and> scheme \<noteq> [] then Some \<lparr>u_Scheme = scheme, u_Host = []\<rparr>
         else if \<not> HasPrefix rest ''/'' \<and> Contains (fst (Cut rest ''/'')) '':'' then None
         else if (scheme \<noteq> [] \<or> \<not> HasPrefix rest ''///'') \<and> HasPrefix rest ''//'' then
           (let authority = takeWhile (\<lambda>c. c \<noteq> CHR ''/'') (drop 2 rest);
                path = dropWhile (\<lambda>c. c \<noteq> CHR ''/'') (drop 2 rest)
            in case parseAuthority authority of
                 None \<Rightarrow> None
               | Some host \<Rightarrow>
                   if escapes_ok path then Some \<lparr>u_Scheme = scheme, u_Host = host\<rparr> else None)
         else if escapes_ok rest then Some \<lparr>u_Scheme = scheme, u_Host = []\<rparr> else None))"

text \<open>\<open>(*URL).Hostname\<close>: the port and one pair of brackets are removed.\<close>

definition url_Hostname :: "url_t \<Rightarrow> string" where
  "url_Hostname u =
     (let hp = u_Host u;
          host = (case LastIndexByte hp (CHR '':'') of
                    Some i \<Rightarrow> if validOptionalPort (drop i hp) then take i hp else hp
                  | None \<Rightarrow> hp)
      in if HasPrefix host ''['' \<and> HasSuffix host '']'' then butlast (tl host) else host)"

lemma LastIndexByte_Some:
  assumes "LastIndexByte s c = Some i"
  shows "i < length s \<and> s ! i = c \<and> c \<notin> set (drop (Suc i) s)"
proof -
  let ?tw = "takeWhile (\<lambda>d. d \<noteq> c) (rev s)"
  have n: "length ?tw < length s" and i: "i = length s - 1 - length ?tw"
    using assms by (auto simp: LastIndexByte_def Let_def split: if_splits)
  have "rev s ! length ?tw = c"
    using nth_length_takeWhile [of "\<lambda>d. d \<noteq> c" "rev s"] n by simp
  then have "s ! i = c" using n i by (simp add: rev_nth)
  moreover have "drop (Suc i) s = rev ?tw"
  proof -
    have "?tw = take (length ?tw) (rev s)" by (rule takeWhile_eq_take)
    then have "rev ?tw = rev (take (length ?tw) (rev s))" by simp
    also have "\<dots> = drop (length s - length ?tw) s" by (simp add: take_rev)
    also have "length s - length ?tw = Suc i" using n i by simp
    finally show ?thesis by simp
  qed
  ultimately show ?thesis using n i by (auto dest: set_takeWhileD)
qed

lemma LastIndexByte_None: "LastIndexByte s c = None \<longleftrightarrow> c \<notin> set s"
proof
  assume "c \<notin> set s"
  then have "takeWhile (\<lambda>d. d \<noteq> c) (rev s) = rev s" by (auto simp: takeWhile_eq_all_conv)
  then have "length (takeWhile (\<lambda>d. d \<noteq> c) (rev s)) = length s" by (metis length_rev)
  then show "LastIndexByte s c = None" by (simp add: LastIndexByte_def Let_def)
next
  assume none: "LastIndexByte s c = None"
  let ?tw = "takeWhile (\<lambda>d. d \<noteq> c) (rev s)"
  from none have "length (rev s) \<le> length ?tw"
    by (auto simp: LastIndexByte_def Let_def split: if_splits)
  then have "?tw = rev s" by (metis takeWhile_eq_take take_all)
  then show "c \<notin> set s" by (auto simp: takeWhile_eq_all_conv)
qed

end
