(* ===== verification/Vendor.thy ===== *)
theory Vendor
  imports Url Types
begin

section \<open>Vendor detection, URL screening and vendor policy
  (protocol/host.go, vendor\_policy.go, url\_validator.go)\<close>

text \<open>
  The vendor is derived from the base URL's hostname; it selects the reasoning fields of a request,
  the breaker and the health check. The URL validator rejects private and internal targets.
\<close>

datatype Vendor =
    VendorUnspecified | VendorDeepSeek | VendorMiniMax | VendorMiMo | VendorZhipu
  | VendorLongCat | VendorOllamaCloud | VendorStepFun | VendorQwen

definition host_matches :: "string \<Rightarrow> string \<Rightarrow> string list \<Rightarrow> bool" where
  "host_matches host apex canonicals = (host \<in> set canonicals \<or> HasSuffix host (''.'' @ apex))"

definition matchesVendorHost :: "string \<Rightarrow> string \<Rightarrow> string list \<Rightarrow> bool" where
  "matchesVendorHost baseURL apex canonicals = (case url_parse baseURL of
     None \<Rightarrow> False
   | Some u \<Rightarrow> host_matches (ToLower (url_Hostname u)) apex canonicals)"

definition IsDeepSeek :: "string \<Rightarrow> bool" where
  "IsDeepSeek baseURL = matchesVendorHost baseURL ''deepseek.com'' [''api.deepseek.com'']"
definition IsMiniMax :: "string \<Rightarrow> bool" where
  "IsMiniMax baseURL = matchesVendorHost baseURL ''minimaxi.com'' [''api.minimaxi.com'']"
definition IsMiMo :: "string \<Rightarrow> bool" where
  "IsMiMo baseURL = matchesVendorHost baseURL ''xiaomimimo.com'' [''api.xiaomimimo.com'']"
definition IsZhipu :: "string \<Rightarrow> bool" where
  "IsZhipu baseURL = (matchesVendorHost baseURL ''bigmodel.cn'' [''open.bigmodel.cn'']
     \<or> matchesVendorHost baseURL ''z.ai'' [''api.z.ai''])"
definition IsLongCat :: "string \<Rightarrow> bool" where
  "IsLongCat baseURL = matchesVendorHost baseURL ''longcat.chat'' [''api.longcat.chat'']"
definition IsOllamaCloud :: "string \<Rightarrow> bool" where
  "IsOllamaCloud baseURL = matchesVendorHost baseURL ''ollama.com'' [''ollama.com'']"
definition IsStepFun :: "string \<Rightarrow> bool" where
  "IsStepFun baseURL = matchesVendorHost baseURL ''stepfun.com'' [''api.stepfun.com'']"
definition IsQwen :: "string \<Rightarrow> bool" where
  "IsQwen baseURL = matchesVendorHost baseURL ''aliyuncs.com'' [''dashscope.aliyuncs.com'']"

fun Vendor_String :: "Vendor \<Rightarrow> string" where
  "Vendor_String VendorDeepSeek = ''deepseek''"
| "Vendor_String VendorMiniMax = ''minimax''"
| "Vendor_String VendorMiMo = ''mimo''"
| "Vendor_String VendorZhipu = ''zhipu''"
| "Vendor_String VendorLongCat = ''longcat''"
| "Vendor_String VendorOllamaCloud = ''ollama''"
| "Vendor_String VendorStepFun = ''stepfun''"
| "Vendor_String VendorQwen = ''qwen''"
| "Vendor_String VendorUnspecified = ''openai''"

definition DetectVendor :: "string \<Rightarrow> Vendor" where
  "DetectVendor baseURL =
     (if IsDeepSeek baseURL then VendorDeepSeek
      else if IsMiniMax baseURL then VendorMiniMax
      else if IsMiMo baseURL then VendorMiMo
      else if IsZhipu baseURL then VendorZhipu
      else if IsLongCat baseURL then VendorLongCat
      else if IsOllamaCloud baseURL then VendorOllamaCloud
      else if IsStepFun baseURL then VendorStepFun
      else if IsQwen baseURL then VendorQwen
      else VendorUnspecified)"

text \<open>The position in the Go \<open>iota\<close> block, which \<open>%d\<close> prints.\<close>

fun vendor_index :: "Vendor \<Rightarrow> nat" where
  "vendor_index VendorUnspecified = 0"
| "vendor_index VendorDeepSeek = 1"
| "vendor_index VendorMiniMax = 2"
| "vendor_index VendorMiMo = 3"
| "vendor_index VendorZhipu = 4"
| "vendor_index VendorLongCat = 5"
| "vendor_index VendorOllamaCloud = 6"
| "vendor_index VendorStepFun = 7"
| "vendor_index VendorQwen = 8"

lemma vendor_index_inj: "vendor_index v = vendor_index w \<Longrightarrow> v = w"
  by (cases v; cases w) simp_all

text \<open>Vendors are integers in Go and are compared as such.\<close>

instantiation Vendor :: linorder
begin

definition less_eq_Vendor :: "Vendor \<Rightarrow> Vendor \<Rightarrow> bool" where
  "less_eq_Vendor v w = (vendor_index v \<le> vendor_index w)"

definition less_Vendor :: "Vendor \<Rightarrow> Vendor \<Rightarrow> bool" where
  "less_Vendor v w = (vendor_index v < vendor_index w)"

instance
  by standard (auto simp: less_eq_Vendor_def less_Vendor_def intro: vendor_index_inj)

end

subsection \<open>Vendor policy\<close>

datatype reasoningPolicy = reasoningNone | reasoningEffort | reasoningThinking

definition isThinkingVendor :: "Vendor \<Rightarrow> bool" where
  "isThinkingVendor v = (v \<in> {VendorDeepSeek, VendorZhipu, VendorMiniMax, VendorLongCat, VendorMiMo,
     VendorStepFun, VendorQwen})"

definition isEffortVendor :: "Vendor \<Rightarrow> bool" where
  "isEffortVendor v = (\<not> isThinkingVendor v)"

definition vendorDefaultEffort :: "Vendor \<Rightarrow> string" where
  "vendorDefaultEffort v = (case v of VendorMiniMax \<Rightarrow> ''adaptive'' | _ \<Rightarrow> ''enabled'')"

definition vendorDefaultThinkingType :: "Vendor \<Rightarrow> string" where
  "vendorDefaultThinkingType v = (case v of VendorDeepSeek \<Rightarrow> ''enabled'' | _ \<Rightarrow> ''enabled'')"

definition thinking_field :: "string \<Rightarrow> gany" where
  "thinking_field t = GObj [(''type'', GStr t)]"

definition buildThinkingFields ::
  "(string \<rightharpoonup> gany) \<Rightarrow> Vendor \<Rightarrow> reasoningPolicy \<Rightarrow> string \<Rightarrow> string \<Rightarrow> (string \<rightharpoonup> gany)" where
  "buildThinkingFields m v policy effort thinkingType = (case policy of
     reasoningThinking \<Rightarrow>
       (case v of
          VendorDeepSeek \<Rightarrow>
            if thinkingType = ''disabled'' then m(''thinking'' \<mapsto> thinking_field ''disabled'')
            else m(''thinking'' \<mapsto> thinking_field
                     (if thinkingType = [] then vendorDefaultThinkingType v else thinkingType))
        | VendorMiniMax \<Rightarrow>
            m(''thinking'' \<mapsto> thinking_field (if effort = [] then vendorDefaultEffort v else effort))
        | VendorZhipu \<Rightarrow>
            m(''thinking'' \<mapsto> thinking_field (if effort = [] then vendorDefaultEffort v else effort))
        | _ \<Rightarrow>
            m(''thinking'' \<mapsto> thinking_field
                (if thinkingType = [] then vendorDefaultThinkingType v else thinkingType)))
   | reasoningEffort \<Rightarrow> (if effort \<noteq> [] then m(''reasoning_effort'' \<mapsto> GStr effort) else m)
   | reasoningNone \<Rightarrow> m)"

definition resolveReasoningPolicy :: "Vendor \<Rightarrow> reasoningPolicy" where
  "resolveReasoningPolicy v = (if isThinkingVendor v then reasoningThinking else reasoningEffort)"

definition defaultHealthEndpoint :: "Vendor \<Rightarrow> string \<Rightarrow> string" where
  "defaultHealthEndpoint v baseURL = TrimRight baseURL ''/'' @ ''/models''"

subsection \<open>Lemmas and properties\<close>

text \<open>An apex domain with the dot that precedes it determines the host's last labels, so two
  apexes of which neither is a suffix of the other never match the same host.\<close>

lemma suffix_exclusive:
  assumes "HasSuffix h (''.'' @ a)" and "HasSuffix h (''.'' @ b)"
  shows "HasSuffix (''.'' @ a) (''.'' @ b) \<or> HasSuffix (''.'' @ b) (''.'' @ a)"
proof -
  from assms obtain s t where "s @ (''.'' @ a) = t @ (''.'' @ b)"
    unfolding HasSuffix_iff by metis
  then show ?thesis unfolding HasSuffix_iff append_eq_append_conv2 by metis
qed

definition vendor_apexes :: "(Vendor \<times> string) list" where
  "vendor_apexes = [(VendorDeepSeek, ''deepseek.com''), (VendorMiniMax, ''minimaxi.com''),
     (VendorMiMo, ''xiaomimimo.com''), (VendorZhipu, ''bigmodel.cn''), (VendorZhipu, ''z.ai''),
     (VendorLongCat, ''longcat.chat''), (VendorOllamaCloud, ''ollama.com''),
     (VendorStepFun, ''stepfun.com''), (VendorQwen, ''aliyuncs.com'')]"

lemma vendor_apexes_exclusive:
  "(v, a) \<in> set vendor_apexes \<Longrightarrow> (w, b) \<in> set vendor_apexes \<Longrightarrow> v \<noteq> w \<Longrightarrow>
   \<not> HasSuffix (''.'' @ a) (''.'' @ b)"
proof -
  have "\<forall>(v, a) \<in> set vendor_apexes. \<forall>(w, b) \<in> set vendor_apexes.
          v \<noteq> w \<longrightarrow> \<not> HasSuffix (''.'' @ a) (''.'' @ b)"
    by code_simp
  then show "(v, a) \<in> set vendor_apexes \<Longrightarrow> (w, b) \<in> set vendor_apexes \<Longrightarrow> v \<noteq> w \<Longrightarrow>
    \<not> HasSuffix (''.'' @ a) (''.'' @ b)" by blast
qed

lemma host_matches_suffix:
  assumes "host_matches h a cs" and "\<forall>c \<in> set cs. HasSuffix (''.'' @ c) (''.'' @ a)"
  shows "HasSuffix (''.'' @ h) (''.'' @ a)"
proof (cases "h \<in> set cs")
  case True
  with assms(2) show ?thesis by blast
next
  case False
  with assms(1) have "HasSuffix h (''.'' @ a)" by (simp add: host_matches_def)
  then show ?thesis by (auto simp: HasSuffix_iff)
qed

text \<open>The hostname of the URL is the apex domain or lies below it.\<close>

definition on_apex :: "string \<Rightarrow> string \<Rightarrow> bool" where
  "on_apex baseURL a \<longleftrightarrow>
     (\<exists>u. url_parse baseURL = Some u \<and> HasSuffix (''.'' @ ToLower (url_Hostname u)) (''.'' @ a))"

lemma matches_on_apex:
  "matchesVendorHost baseURL a cs \<Longrightarrow> \<forall>c \<in> set cs. HasSuffix (''.'' @ c) (''.'' @ a) \<Longrightarrow>
   on_apex baseURL a"
  by (auto simp: matchesVendorHost_def on_apex_def dest: host_matches_suffix split: option.splits)

lemma vendor_on_apex:
  "IsDeepSeek b \<Longrightarrow> on_apex b ''deepseek.com''"
  "IsMiniMax b \<Longrightarrow> on_apex b ''minimaxi.com''"
  "IsMiMo b \<Longrightarrow> on_apex b ''xiaomimimo.com''"
  "IsZhipu b \<Longrightarrow> on_apex b ''bigmodel.cn'' \<or> on_apex b ''z.ai''"
  "IsLongCat b \<Longrightarrow> on_apex b ''longcat.chat''"
  "IsOllamaCloud b \<Longrightarrow> on_apex b ''ollama.com''"
  "IsStepFun b \<Longrightarrow> on_apex b ''stepfun.com''"
  "IsQwen b \<Longrightarrow> on_apex b ''aliyuncs.com''"
  unfolding IsDeepSeek_def IsMiniMax_def IsMiMo_def IsZhipu_def IsLongCat_def IsOllamaCloud_def
    IsStepFun_def IsQwen_def
  by ((erule disj_forward)?, (erule matches_on_apex, code_simp)+)+

lemma on_apex_exclusive:
  assumes "on_apex url a" and "on_apex url b"
    and "(v, a) \<in> set vendor_apexes" and "(w, b) \<in> set vendor_apexes"
  shows "v = w"
proof (rule ccontr)
  assume "v \<noteq> w"
  with assms(3,4) have "\<not> HasSuffix (''.'' @ a) (''.'' @ b)" "\<not> HasSuffix (''.'' @ b) (''.'' @ a)"
    by (auto dest: vendor_apexes_exclusive)
  moreover from assms(1,2) obtain h where "HasSuffix h (''.'' @ a)" "HasSuffix h (''.'' @ b)"
    by (auto simp: on_apex_def)
  ultimately show False using suffix_exclusive by blast
qed

fun is_vendor :: "Vendor \<Rightarrow> string \<Rightarrow> bool" where
  "is_vendor VendorDeepSeek b = IsDeepSeek b"
| "is_vendor VendorMiniMax b = IsMiniMax b"
| "is_vendor VendorMiMo b = IsMiMo b"
| "is_vendor VendorZhipu b = IsZhipu b"
| "is_vendor VendorLongCat b = IsLongCat b"
| "is_vendor VendorOllamaCloud b = IsOllamaCloud b"
| "is_vendor VendorStepFun b = IsStepFun b"
| "is_vendor VendorQwen b = IsQwen b"
| "is_vendor VendorUnspecified b = False"

lemma is_vendor_apex: "is_vendor v b \<Longrightarrow> \<exists>a. on_apex b a \<and> (v, a) \<in> set vendor_apexes"
  by (cases v) (auto simp: vendor_apexes_def dest: vendor_on_apex)

lemma DetectVendor_is_vendor: "DetectVendor b = v \<Longrightarrow> v \<noteq> VendorUnspecified \<Longrightarrow> is_vendor v b"
  by (auto simp: DetectVendor_def split: if_splits)

lemma DetectVendor_None: "DetectVendor b = VendorUnspecified \<Longrightarrow> \<not> is_vendor v b"
  by (cases v) (auto simp: DetectVendor_def split: if_splits)

text \<open>Vendor detection is unambiguous: at most one vendor test accepts a base URL, so the order
  of the switch does not matter; DetectVendor answers exactly the vendor whose test holds, and then
  the URL's hostname is one of that vendor's domains or a subdomain of it.\<close>

theorem DetectVendor_unique:
  assumes "v \<noteq> VendorUnspecified"
  shows "(DetectVendor baseURL = v) = is_vendor v baseURL
    \<and> (is_vendor v baseURL \<longrightarrow> (\<exists>a. (v, a) \<in> set vendor_apexes \<and> on_apex baseURL a))"
proof -
  have "DetectVendor baseURL = v" if v: "is_vendor v baseURL"
  proof (cases "DetectVendor baseURL = VendorUnspecified")
    case True
    with DetectVendor_None v show ?thesis by blast
  next
    case False
    then have "is_vendor (DetectVendor baseURL) baseURL" by (simp add: DetectVendor_is_vendor)
    with v show ?thesis using is_vendor_apex on_apex_exclusive by metis
  qed
  with assms show ?thesis using DetectVendor_is_vendor is_vendor_apex by metis
qed

theorem DetectVendor_unique_witness:
  "DetectVendor ''https://api.deepseek.com/v1'' = VendorDeepSeek"
proof -
  have "is_vendor VendorDeepSeek ''https://api.deepseek.com/v1''" by code_simp
  with DetectVendor_unique [of VendorDeepSeek "''https://api.deepseek.com/v1''"] show ?thesis by simp
qed

text \<open>The reasoning fields follow the vendor: a thinking vendor always gets a thinking field and
  never a reasoning effort, any other vendor gets at most a reasoning effort and never a thinking
  field, and no other field of the request body is touched.\<close>

theorem thinking_fields_by_vendor:
  "(let m' = buildThinkingFields m v (resolveReasoningPolicy v) effort thinkingType in
     (isThinkingVendor v \<longrightarrow> (\<exists>t. t \<noteq> [] \<and> m' = m(''thinking'' \<mapsto> thinking_field t)))
   \<and> (isEffortVendor v \<longrightarrow>
        m' = (if effort = [] then m else m(''reasoning_effort'' \<mapsto> GStr effort))))"
  by (cases v)
     (auto simp: buildThinkingFields_def resolveReasoningPolicy_def isThinkingVendor_def
        isEffortVendor_def vendorDefaultEffort_def vendorDefaultThinkingType_def Let_def)

theorem thinking_fields_by_vendor_witness:
  "\<exists>t. t \<noteq> [] \<and> buildThinkingFields Map.empty VendorQwen (resolveReasoningPolicy VendorQwen) [] [] =
     [''thinking'' \<mapsto> thinking_field t]"
  using thinking_fields_by_vendor [of Map.empty VendorQwen "[]" "[]"]
  by (simp add: Let_def isThinkingVendor_def)

end
