(* ===== verification/Retry.thy ===== *)
theory Retry
  imports Breaker Vendor
begin

section \<open>HTTP retry (protocol/retry.go)\<close>

text \<open>
  \<open>SendWithRetry\<close> sends a request up to eleven times. The network, the caller's context and
  the random jitter are the environment: for every attempt a record says what they do. Durations
  are Go \<open>time.Duration\<close> values: signed 64-bit nanoseconds, with the wrap-around written out.
\<close>

definition Millisecond :: int where "Millisecond = 1000000"
definition Second :: int where "Second = 1000000000"

definition MaxRetries :: nat where "MaxRetries = 10"
definition maxBackoff :: int where "maxBackoff = 15 * Second"

subsection \<open>Operations\<close>

definition retryableStatus :: "nat \<Rightarrow> bool" where
  "retryableStatus s = (s = 408 \<or> s = 429 \<or> (500 \<le> s \<and> s \<le> 599))"

definition transientErr :: "gerror option \<Rightarrow> bool" where
  "transientErr err = (case err of
     None \<Rightarrow> False
   | Some e \<Rightarrow> \<not> (errors_Is e ErrCanceled \<or> errors_Is e ErrDeadlineExceeded))"

definition IsConnReset :: "gerror option \<Rightarrow> bool" where
  "IsConnReset err = (case err of
     None \<Rightarrow> False
   | Some e \<Rightarrow>
       if errors_Is e ErrCanceled \<or> errors_Is e ErrDeadlineExceeded then False
       else if errors_Is e ErrUnexpectedEOF \<or> errors_Is e ErrEOF \<or> errors_Is e ErrNetClosed
            \<or> errors_Is e ErrConnReset \<or> errors_Is e ErrConnAborted then True
       else errors_As e is_NetError \<noteq> None)"

definition backoffDelay :: "nat \<Rightarrow> int \<Rightarrow> nat \<Rightarrow> int" where
  "backoffDelay attempt retryAfter jitter =
     (if retryAfter > 0 then (if retryAfter > maxBackoff then maxBackoff else retryAfter)
      else
        let d = wrap64 (wrap64 (wrap64 (2 ^ (attempt - 1)) * 500) * Millisecond);
            d = (if d > maxBackoff then maxBackoff else d)
        in wrap64 (d + wrap64 (int jitter * Millisecond)))"

text \<open>\<open>strconv.Atoi\<close> on a 64-bit platform.\<close>

definition atoi_digits :: "string \<Rightarrow> int option" where
  "atoi_digits s = (if s \<noteq> [] \<and> list_all is_digit s then Some (int (read_nat s)) else None)"

definition Atoi :: "string \<Rightarrow> int option" where
  "Atoi s =
     (case (case s of
         [] \<Rightarrow> None
       | c # cs \<Rightarrow> if c = CHR ''-'' then map_option uminus (atoi_digits cs)
                   else if c = CHR ''+'' then atoi_digits cs else atoi_digits s) of
        Some n \<Rightarrow> if - (2 ^ 63) \<le> n \<and> n < 2 ^ 63 then Some n else None
      | None \<Rightarrow> None)"

definition parseRetryAfter :: "string \<Rightarrow> int" where
  "parseRetryAfter header =
     (let v = TrimSpace header in
      if v = [] then 0
      else case Atoi v of Some secs \<Rightarrow> if secs \<ge> 0 then wrap64 (secs * Second) else 0 | None \<Rightarrow> 0)"

datatype do_outcome = DoErr gerror | DoResp nat string string

record attempt_env =
  ae_ctx_done :: "gerror option"
  ae_jitter :: nat
  ae_now :: int
  ae_done :: int
  ae_newReq_err :: "gerror option"
  ae_outcome :: do_outcome

record net_state =
  ns_checker :: "HealthChecker option"
  ns_breaker :: "CircuitBreaker option"
  ns_health_has_breaker :: bool

datatype send_event = EvNotify nat | EvDelay int | EvRequest nat

type_synonym send_result = "net_state \<times> send_event list \<times> (gerror + string)"

definition net_GetStatus :: "net_state \<Rightarrow> int \<Rightarrow> net_state \<times> HealthStatus" where
  "net_GetStatus st now =
     (if ns_health_has_breaker st then
        (case GetStatus (ns_checker st) (ns_breaker st) now of (b, s) \<Rightarrow> (st\<lparr>ns_breaker := b\<rparr>, s))
      else (st, snd (GetStatus (ns_checker st) None now)))"

definition net_check :: "net_state \<Rightarrow> int \<Rightarrow> gerror option \<Rightarrow> net_state \<times> bool" where
  "net_check st now err = (case ns_breaker st of
     None \<Rightarrow> (st, True)
   | Some cb \<Rightarrow> (case Check cb now err of (cb', ok) \<Rightarrow> (st\<lparr>ns_breaker := Some cb'\<rparr>, ok)))"

definition net_success :: "net_state \<Rightarrow> net_state" where
  "net_success st = st\<lparr>ns_breaker := map_option Success (ns_breaker st)\<rparr>"

text \<open>
  One call of \<open>send_try\<close> is the body of the loop after the wait: it either finishes or gives the
  next \<open>retryAfter\<close> and \<open>lastErr\<close>. \<open>ae_now\<close> is the time before the request and \<open>ae_done\<close>
  the time after it.
\<close>

datatype try_result = Finish "gerror + string" | Again int gerror

definition send_try :: "Vendor \<Rightarrow> attempt_env \<Rightarrow> nat \<Rightarrow> net_state \<Rightarrow> net_state \<times> send_event list \<times> try_result" where
  "send_try vendor env attempt st =
     (let now = ae_now env in
      case net_GetStatus st now of (st1, status) \<Rightarrow>
      if status = HealthCircuitOpen then
        (st1, [], Finish (Inl (ErrMsg (''vendor '' @ Vendor_String vendor @ '' unhealthy (circuit open)''))))
      else case net_check st1 now None of (st2, allowed) \<Rightarrow>
      if \<not> allowed then (st2, [], Finish (Inl (ErrMsg (''circuit breaker open for vendor '' @ Vendor_String vendor))))
      else case ae_newReq_err env of
        Some e \<Rightarrow> (st2, [], Finish (Inl (ErrWrap ''build request'' e)))
      | None \<Rightarrow>
        (case ae_outcome env of
           DoErr e \<Rightarrow>
             if \<not> transientErr (Some e) then
               (st2, [EvRequest attempt], Finish (Inl (ErrWrap ''request failed'' e)))
             else (fst (net_check st2 (ae_done env) (Some e)), [EvRequest attempt], Again 0 (ErrWrap ''request failed'' e))
         | DoResp status body retry \<Rightarrow>
             if status = 200 then (net_success st2, [EvRequest attempt], Finish (Inr body))
             else if status = 401 \<or> status = 403 then
               (net_success st2, [EvRequest attempt], Finish (Inl (AuthError (vendor_index vendor) status True)))
             else
               let apiErr = APIError (vendor_index vendor) status (TrimSpace (take 4096 body)) in
               if \<not> retryableStatus status then (st2, [EvRequest attempt], Finish (Inl apiErr))
               else (fst (net_check st2 (ae_done env) (Some apiErr)), [EvRequest attempt],
                     Again (parseRetryAfter retry) apiErr)))"

fun send_loop ::
  "Vendor \<Rightarrow> (nat \<Rightarrow> attempt_env) \<Rightarrow> nat \<Rightarrow> nat \<Rightarrow> int \<Rightarrow> gerror \<Rightarrow> net_state \<Rightarrow> send_result" where
  "send_loop vendor env 0 attempt retryAfter lastErr st = (st, [], Inl lastErr)"
| "send_loop vendor env (Suc left) attempt retryAfter lastErr st =
     (let e = env attempt;
          delay = backoffDelay attempt retryAfter (ae_jitter e);
          pre = (if attempt > 0 then [EvNotify attempt, EvDelay delay] else [])
      in if attempt > 0 \<and> ae_ctx_done e \<noteq> None then (st, pre, Inl (the (ae_ctx_done e)))
         else case send_try vendor e attempt st of (st1, evs, r) \<Rightarrow>
           (case r of
              Finish res \<Rightarrow> (st1, pre @ evs, res)
            | Again ra err \<Rightarrow>
                (case send_loop vendor env left (Suc attempt) ra err st1 of (st2, evs2, res) \<Rightarrow>
                   (st2, pre @ evs @ evs2, res))))"

text \<open>The initial \<open>lastErr\<close> is nil and never returned, since the first attempt always runs.\<close>

definition SendWithRetry :: "Vendor \<Rightarrow> (nat \<Rightarrow> attempt_env) \<Rightarrow> net_state \<Rightarrow> send_result" where
  "SendWithRetry vendor env st = send_loop vendor env (Suc MaxRetries) 0 0 (ErrMsg []) st"

subsection \<open>Lemmas\<close>

lemmas duration_units = Millisecond_def Second_def maxBackoff_def

lemma backoff_exponential:
  assumes "retryAfter \<le> 0" and "1 \<le> attempt" and "attempt \<le> 35" and "jitter < 250"
  shows "backoffDelay attempt retryAfter jitter =
     min (2 ^ (attempt - 1) * 500 * Millisecond) maxBackoff + int jitter * Millisecond"
proof -
  define q where "q = (2::int) ^ (attempt - 1)"
  have "(2::int) ^ (attempt - 1) \<le> 2 ^ 34"
    using assms(3) by (intro power_increasing) auto
  then have q: "1 \<le> q" "q \<le> 17179869184" by (simp_all add: q_def)
  have w1: "wrap64 q = q" using q by (intro wrap64_id) auto
  have w2: "wrap64 (q * 500) = q * 500" using q by (intro wrap64_id) auto
  have w3: "wrap64 (q * 500 * Millisecond) = q * 500 * Millisecond"
    using q by (intro wrap64_id) (auto simp: duration_units)
  have j: "wrap64 (int jitter * Millisecond) = int jitter * Millisecond"
    using assms(4) by (intro wrap64_id) (auto simp: duration_units)
  have w4: "wrap64 (min (q * 500 * Millisecond) maxBackoff + int jitter * Millisecond)
        = min (q * 500 * Millisecond) maxBackoff + int jitter * Millisecond"
    using q assms(4) by (intro wrap64_id) (auto simp: duration_units min_def)
  have "backoffDelay attempt retryAfter jitter =
      wrap64 ((if q * 500 * Millisecond > maxBackoff then maxBackoff else q * 500 * Millisecond)
        + int jitter * Millisecond)"
    using assms(1) by (simp only: backoffDelay_def Let_def q_def [symmetric] w1 w2 w3 j) simp
  also have "\<dots> = wrap64 (min (q * 500 * Millisecond) maxBackoff + int jitter * Millisecond)"
    by (simp add: min_def not_le)
  finally show ?thesis unfolding w4 by (simp only: q_def)
qed

definition delay_ok :: "int \<Rightarrow> bool" where
  "delay_ok d \<longleftrightarrow> 0 < d \<and> d \<le> maxBackoff + 249 * Millisecond"

lemma backoff_bounds:
  assumes "1 \<le> attempt" and "attempt \<le> 35" and "jitter < 250"
  shows "delay_ok (backoffDelay attempt retryAfter jitter)"
proof (cases "retryAfter > 0")
  case True
  then show ?thesis by (auto simp: backoffDelay_def delay_ok_def duration_units)
next
  case False
  define q where "q = (2::int) ^ (attempt - 1)"
  have "1 \<le> q" by (simp add: q_def)
  moreover have "backoffDelay attempt retryAfter jitter =
      min (q * 500 * Millisecond) maxBackoff + int jitter * Millisecond"
    using backoff_exponential [of retryAfter attempt jitter] False assms by (simp only: q_def)
  ultimately show ?thesis using assms(3) by (auto simp: delay_ok_def duration_units min_def)
qed

fun requests :: "send_event list \<Rightarrow> nat list" where
  "requests [] = []"
| "requests (EvRequest n # es) = n # requests es"
| "requests (e # es) = requests es"

lemma requests_append [simp]: "requests (xs @ ys) = requests xs @ requests ys"
  by (induction xs rule: requests.induct) auto

lemma send_try_requests:
  "send_try vendor e attempt st = (st', evs, r) \<Longrightarrow> evs = [] \<and> (\<exists>x. r = Finish (Inl x)) \<or> evs = [EvRequest attempt]"
  by (auto simp: send_try_def Let_def split: prod.splits if_splits option.splits do_outcome.splits)

text \<open>The attempt numbers of the requests are consecutive from the first one.\<close>

lemma send_loop_requests:
  "send_loop vendor env n attempt ra le st = (st', evs, res) \<Longrightarrow>
   \<exists>k \<le> n. requests evs = [attempt..<attempt + k]"
proof (induction n arbitrary: attempt ra le st st' evs res)
  case (Suc n)
  let ?e = "env attempt"
  show ?case
  proof (cases "attempt > 0 \<and> ae_ctx_done ?e \<noteq> None")
    case True
    with Suc.prems have "requests evs = []" by (auto simp: Let_def)
    then show ?thesis by (intro exI [of _ 0]) simp
  next
    case False
    obtain st1 evs1 r where t: "send_try vendor ?e attempt st = (st1, evs1, r)"
      by (cases "send_try vendor ?e attempt st") auto
    show ?thesis
    proof (cases r)
      case (Finish x)
      with Suc.prems False t have "requests evs = requests evs1" by (auto simp: Let_def)
      with send_try_requests [OF t] show ?thesis
        by (auto intro: exI [of _ 0] exI [of _ "Suc 0"])
    next
      case (Again ra' err)
      obtain st2 evs2 res2 where l: "send_loop vendor env n (Suc attempt) ra' err st1 = (st2, evs2, res2)"
        by (cases "send_loop vendor env n (Suc attempt) ra' err st1") auto
      from Suc.IH [OF l] obtain k where k: "k \<le> n" "requests evs2 = [Suc attempt..<Suc attempt + k]" by blast
      from send_try_requests [OF t] Again have "evs1 = [EvRequest attempt]" by auto
      with Suc.prems False t Again l k have "requests evs = attempt # [Suc attempt..<Suc attempt + k]"
        by (auto simp: Let_def)
      also have "\<dots> = [attempt..<attempt + Suc k]" by (simp add: upt_conv_Cons)
      finally show ?thesis using k(1) by (intro exI [of _ "Suc k"]) simp
    qed
  qed
qed auto

lemma send_loop_delays:
  assumes "send_loop vendor env n attempt ra le st = (st', evs, res)"
    and "attempt + n \<le> 36" and "\<forall>i. ae_jitter (env i) < 250" and "EvDelay d \<in> set evs"
  shows "delay_ok d"
  using assms
proof (induction n arbitrary: attempt ra le st st' evs res)
  case (Suc n)
  have pre: "delay_ok (backoffDelay attempt ra (ae_jitter (env attempt)))" if "attempt > 0"
    using that Suc.prems(2,3) by (intro backoff_bounds) auto
  obtain st1 evs1 r where t: "send_try vendor (env attempt) attempt st = (st1, evs1, r)"
    by (cases "send_try vendor (env attempt) attempt st") auto
  have noev: "EvDelay d \<notin> set evs1" using send_try_requests [OF t] by auto
  show ?case
  proof (cases r)
    case (Finish x)
    with Suc.prems t noev pre show ?thesis by (auto simp: Let_def split: if_splits)
  next
    case (Again ra' err)
    obtain st2 evs2 res2 where l: "send_loop vendor env n (Suc attempt) ra' err st1 = (st2, evs2, res2)"
      by (cases "send_loop vendor env n (Suc attempt) ra' err st1") auto
    have "EvDelay d \<in> set evs2 \<Longrightarrow> delay_ok d"
      using Suc.IH [OF l] Suc.prems(2,3) by simp
    with Suc.prems t l Again noev pre show ?thesis by (auto simp: Let_def split: if_splits)
  qed
qed auto

subsection \<open>Specification of the loop without breaker and health data\<close>

text \<open>What one attempt's outcome means: a final result, or an error to retry.\<close>

definition final_outcome :: "Vendor \<Rightarrow> attempt_env \<Rightarrow> (gerror + string) option" where
  "final_outcome vendor e = (case ae_newReq_err e of
     Some x \<Rightarrow> Some (Inl (ErrWrap ''build request'' x))
   | None \<Rightarrow> (case ae_outcome e of
       DoErr x \<Rightarrow> if transientErr (Some x) then None else Some (Inl (ErrWrap ''request failed'' x))
     | DoResp s b ra \<Rightarrow>
         if s = 200 then Some (Inr b)
         else if s = 401 \<or> s = 403 then Some (Inl (AuthError (vendor_index vendor) s True))
         else if retryableStatus s then None
         else Some (Inl (APIError (vendor_index vendor) s (TrimSpace (take 4096 b))))))"

definition retry_error :: "Vendor \<Rightarrow> attempt_env \<Rightarrow> gerror" where
  "retry_error vendor e = (case ae_outcome e of
     DoErr x \<Rightarrow> ErrWrap ''request failed'' x
   | DoResp s b ra \<Rightarrow> APIError (vendor_index vendor) s (TrimSpace (take 4096 b)))"

fun retry_spec :: "Vendor \<Rightarrow> attempt_env list \<Rightarrow> gerror \<Rightarrow> gerror + string" where
  "retry_spec vendor [] le = Inl le"
| "retry_spec vendor (e # es) le = (case final_outcome vendor e of
     Some r \<Rightarrow> r
   | None \<Rightarrow> retry_spec vendor es (retry_error vendor e))"

definition plain_net :: net_state where
  "plain_net = \<lparr>ns_checker = None, ns_breaker = None, ns_health_has_breaker = False\<rparr>"

lemma send_try_plain:
  "\<exists>evs r. send_try vendor e attempt plain_net = (plain_net, evs, r)
     \<and> (case final_outcome vendor e of
          Some x \<Rightarrow> r = Finish x
        | None \<Rightarrow> \<exists>ra. r = Again ra (retry_error vendor e))"
  by (auto simp: send_try_def plain_net_def net_GetStatus_def GetStatus_def net_check_def net_success_def
      final_outcome_def retry_error_def Let_def split: option.splits do_outcome.splits)

lemma send_loop_plain:
  assumes "\<forall>i. ae_ctx_done (env i) = None"
  shows "\<exists>evs. send_loop vendor env n attempt ra le plain_net =
     (plain_net, evs, retry_spec vendor (map env [attempt..<attempt + n]) le)"
  using assms
proof (induction n arbitrary: attempt ra le)
  case (Suc n)
  have up: "[attempt..<Suc (attempt + n)] = attempt # [Suc attempt..<Suc (attempt + n)]"
    by (simp add: upt_conv_Cons del: upt_Suc)
  obtain evs r where t: "send_try vendor (env attempt) attempt plain_net = (plain_net, evs, r)"
    and r: "case final_outcome vendor (env attempt) of
          Some x \<Rightarrow> r = Finish x | None \<Rightarrow> \<exists>ra. r = Again ra (retry_error vendor (env attempt))"
    using send_try_plain by blast
  show ?case
  proof (cases "final_outcome vendor (env attempt)")
    case (Some x)
    with r t Suc.prems show ?thesis by (auto simp: up Let_def simp del: upt_Suc)
  next
    case None
    with r obtain ra' where r': "r = Again ra' (retry_error vendor (env attempt))" by auto
    obtain evs2 where l: "send_loop vendor env n (Suc attempt) ra' (retry_error vendor (env attempt)) plain_net =
      (plain_net, evs2, retry_spec vendor (map env [Suc attempt..<Suc attempt + n]) (retry_error vendor (env attempt)))"
      using Suc.IH [OF Suc.prems] by blast
    from None r' t l Suc.prems show ?thesis by (auto simp: up Let_def simp del: upt_Suc)
  qed
qed auto

lemma send_try_blocked:
  assumes "ns_breaker st = Some cb" and "open_until cb (ae_now e)"
  shows "\<exists>st' err. send_try vendor e attempt st = (st', [], Finish (Inl (ErrMsg err))) \<and> ns_breaker st' = Some cb"
proof -
  have blk: "Check cb (ae_now e) None = (cb, False)"
    using vendor_breaker.may_iff [of cb "ae_now e"] vendor_breaker.may_blocked [of cb "ae_now e"] assms(2)
    by (metis prod.collapse)
  show ?thesis
    using assms(1) blk
    by (auto simp: send_try_def net_GetStatus_def GetStatus_def net_check_def Let_def
        split: option.splits)
qed

subsection \<open>Properties\<close>

text \<open>C35: SendWithRetry sends at most MaxRetries + 1 = 11 requests, and their attempt numbers are
  consecutive from 0, whatever the network, the breaker, the health checker and the context do.\<close>

theorem send_at_most_eleven:
  "\<exists>k \<le> 11. requests (fst (snd (SendWithRetry vendor env st))) = [0..<k]"
proof -
  obtain st' evs res where l: "SendWithRetry vendor env st = (st', evs, res)"
    by (cases "SendWithRetry vendor env st") auto
  from send_loop_requests [OF l [unfolded SendWithRetry_def]] l show ?thesis
    by (auto simp: MaxRetries_def)
qed

text \<open>C14: With no breaker, no registered health checker and no cancellation, the result is that of
  the specification: the first attempt whose outcome is final (200, an auth error, a status that is
  not retryable, a cancelled request) decides, and after eleven retryable outcomes the last error is
  returned.\<close>

theorem send_result_spec:
  assumes "\<forall>i. ae_ctx_done (env i) = None"
  shows "snd (snd (SendWithRetry vendor env plain_net)) = retry_spec vendor (map env [0..<11]) (ErrMsg [])"
proof -
  obtain evs where l: "send_loop vendor env 11 0 0 (ErrMsg []) plain_net =
     (plain_net, evs, retry_spec vendor (map env [0..<0 + 11]) (ErrMsg []))"
    using send_loop_plain [OF assms] by blast
  have "Suc MaxRetries = 11" by (simp add: MaxRetries_def)
  then show ?thesis unfolding SendWithRetry_def by (simp only: l) simp
qed

definition flaky_env :: "nat \<Rightarrow> attempt_env" where
  "flaky_env i = \<lparr>ae_ctx_done = None, ae_jitter = 0, ae_now = 0, ae_done = 0, ae_newReq_err = None,
     ae_outcome = (if i = 0 then DoResp 503 ''busy'' [] else DoResp 200 ''ok'' [])\<rparr>"

theorem send_result_spec_witness:
  "snd (snd (SendWithRetry VendorQwen flaky_env plain_net)) = Inr ''ok''"
proof -
  have "\<forall>i. ae_ctx_done (flaky_env i) = None" by (simp add: flaky_env_def)
  moreover have "retry_spec VendorQwen (map flaky_env [0..<11]) (ErrMsg []) = Inr ''ok''"
    by (simp add: flaky_env_def final_outcome_def retryableStatus_def upt_rec)
  ultimately show ?thesis using send_result_spec by metis
qed

text \<open>While the vendor's breaker is open and its timeout has not passed, SendWithRetry sends
  nothing, returns an error and leaves the breaker as it is.\<close>

theorem open_breaker_sends_nothing:
  assumes "ns_breaker st = Some cb" and "open_until cb (ae_now (env 0))"
  shows "requests (fst (snd (SendWithRetry vendor env st))) = []
    \<and> isl (snd (snd (SendWithRetry vendor env st)))
    \<and> ns_breaker (fst (SendWithRetry vendor env st)) = Some cb"
proof -
  obtain st' err where "send_try vendor (env 0) 0 st = (st', [], Finish (Inl (ErrMsg err)))"
    "ns_breaker st' = Some cb"
    using send_try_blocked [OF assms] by blast
  then show ?thesis by (simp add: SendWithRetry_def Let_def)
qed

theorem open_breaker_sends_nothing_witness:
  "isl (snd (snd (SendWithRetry VendorQwen flaky_env
     (plain_net\<lparr>ns_breaker := Some (NewCircuitBreaker \<lparr>o_Timeout = 60, o_HalfOpenMaxCalls = 0,
        o_CheckHTTPCodes = [], o_CheckErrors = [], o_FailureThreshold = 1\<rparr>\<lparr>cb_state := Open\<rparr>)\<rparr>))))"
  (is "isl (snd (snd (SendWithRetry _ _ ?st)))")
proof -
  have h: "ns_breaker ?st = Some (the (ns_breaker ?st))" by simp
  have o: "open_until (the (ns_breaker ?st)) (ae_now (flaky_env 0))"
    by (simp add: open_until_def flaky_env_def NewCircuitBreaker_def)
  from open_breaker_sends_nothing [where env = flaky_env, OF h o] show ?thesis by blast
qed

text \<open>Every wait between attempts of SendWithRetry is positive and at most 15 seconds plus 249
  milliseconds of jitter, for any Retry-After header the server sends: the 64-bit arithmetic of
  backoffDelay does not overflow for the attempts the loop makes.\<close>

theorem send_delays_bounded:
  assumes "\<forall>i. ae_jitter (env i) < 250"
    and "EvDelay d \<in> set (fst (snd (SendWithRetry vendor env st)))"
  shows "0 < d \<and> d \<le> 15249 * Millisecond"
proof -
  obtain st' evs res where l: "SendWithRetry vendor env st = (st', evs, res)"
    by (cases "SendWithRetry vendor env st") auto
  have "delay_ok d"
    using send_loop_delays [OF l [unfolded SendWithRetry_def]] assms l by (simp add: MaxRetries_def)
  then show ?thesis by (simp add: delay_ok_def duration_units)
qed

theorem send_delays_bounded_witness:
  "EvDelay (500 * Millisecond) \<in> set (fst (snd (SendWithRetry VendorQwen flaky_env plain_net)))
   \<and> 0 < 500 * Millisecond"
proof -
  have j: "\<forall>i. ae_jitter (flaky_env i) < 250" by (simp add: flaky_env_def)
  have e: "EvDelay (500 * Millisecond) \<in> set (fst (snd (SendWithRetry VendorQwen flaky_env plain_net)))"
    by code_simp
  from send_delays_bounded [OF j e] e show ?thesis by simp
qed

text \<open>backoffDelay is exact exponential backoff with a 15 second cap up to attempt 35, but at
  attempt 36 (reached when the configured number of stream reconnects is that large) the product
  overflows int64 and the delay is negative, so the wait returns at once.\<close>

theorem backoff_overflow_at_36:
  "(\<forall>attempt jitter. 1 \<le> attempt \<and> attempt \<le> 35 \<and> jitter < 250 \<longrightarrow>
      backoffDelay attempt 0 jitter =
        min (2 ^ (attempt - 1) * 500 * Millisecond) maxBackoff + int jitter * Millisecond)
   \<and> backoffDelay 36 0 249 < 0"
proof -
  have "backoffDelay 36 0 249 < 0" by code_simp
  then show ?thesis using backoff_exponential by auto
qed

theorem backoff_overflow_at_36_witness: "backoffDelay 10 0 7 = maxBackoff + 7 * Millisecond"
proof -
  have "backoffDelay 10 0 7 = min (2 ^ (10 - 1) * 500 * Millisecond) maxBackoff + int 7 * Millisecond"
    using conjunct1 [OF backoff_overflow_at_36] by (elim allE [of _ 10] allE [of _ 7]) simp
  then show ?thesis by (simp add: duration_units)
qed

end
