(* ===== verification/RateLimit.thy ===== *)
theory RateLimit
  imports Types
begin

section \<open>Request and token rate limiter (protocol/ratelimit.go)\<close>

text \<open>
  A fixed one-minute window with a request and a token counter, guarded by one mutex that is held
  while a caller sleeps. \<open>rl_window = None\<close> is Go's zero time: any time is more than a minute
  later. The environment of a call says when it runs, whether the context ends the sleep, and at
  which time the sleep ends.
\<close>

record RateLimiter =
  rl_rpm :: int
  rl_tpm :: int
  rl_window :: "int option"
  rl_rCount :: int
  rl_tCount :: int

definition NewRateLimiter :: "int \<Rightarrow> int \<Rightarrow> RateLimiter" where
  "NewRateLimiter rpm tpm = \<lparr>rl_rpm = rpm, rl_tpm = tpm, rl_window = None, rl_rCount = 0, rl_tCount = 0\<rparr>"

definition Minute :: int where "Minute = 60000000000"

datatype wait_result = Granted | Slept int | Cancelled int gerror

definition rl_enter :: "RateLimiter \<Rightarrow> int \<Rightarrow> int \<Rightarrow> RateLimiter" where
  "rl_enter rl now tokens =
     (let rl1 = (if (case rl_window rl of None \<Rightarrow> True | Some w \<Rightarrow> now - w \<ge> Minute)
                 then rl\<lparr>rl_window := Some now, rl_rCount := 0, rl_tCount := 0\<rparr> else rl)
      in rl1\<lparr>rl_rCount := rl_rCount rl1 + 1, rl_tCount := rl_tCount rl1 + tokens\<rparr>)"

definition rl_wait :: "RateLimiter \<Rightarrow> int \<Rightarrow> int" where
  "rl_wait rl now =
     (let since = now - the (rl_window rl);
          w = (if rl_rpm rl > 0 \<and> rl_rCount rl > rl_rpm rl then Minute - since else 0);
          d = Minute - since
      in if rl_tpm rl > 0 \<and> rl_tCount rl > rl_tpm rl \<and> d > w then d else w)"

definition Wait ::
  "RateLimiter \<Rightarrow> int \<Rightarrow> int \<Rightarrow> gerror option \<Rightarrow> int \<Rightarrow> RateLimiter \<times> wait_result" where
  "Wait rl now tokens ctx_done wake =
     (if rl_rpm rl \<le> 0 \<and> rl_tpm rl \<le> 0 then (rl, Granted)
      else
        let rl1 = rl_enter rl now tokens; w = rl_wait rl1 now in
        if w \<le> 0 then (rl1, Granted)
        else case ctx_done of
            Some e \<Rightarrow> (rl1, Cancelled w e)
          | None \<Rightarrow> (rl1\<lparr>rl_window := Some wake, rl_rCount := 0, rl_tCount := 0\<rparr>, Slept w))"

definition rl_inv :: "RateLimiter \<Rightarrow> bool" where
  "rl_inv rl \<longleftrightarrow> 0 \<le> rl_rCount rl \<and> 0 \<le> rl_tCount rl \<and> (rl_window rl = None \<longrightarrow> rl_rCount rl = 0 \<and> rl_tCount rl = 0)"

lemma rl_enter_limits [simp]:
  "rl_rpm (rl_enter rl now t) = rl_rpm rl" "rl_tpm (rl_enter rl now t) = rl_tpm rl"
  by (simp_all add: rl_enter_def Let_def)

lemma Wait_limits [simp]:
  "rl_rpm (fst (Wait rl now t c w)) = rl_rpm rl" "rl_tpm (fst (Wait rl now t c w)) = rl_tpm rl"
  by (auto simp: Wait_def Let_def split: option.splits)

lemma Wait_inv: "rl_inv rl \<Longrightarrow> 0 \<le> tokens \<Longrightarrow> rl_inv (fst (Wait rl now tokens c w))"
  by (auto simp: Wait_def rl_enter_def rl_inv_def Let_def split: option.splits)

lemma rl_window_enter: "\<exists>w. rl_window (rl_enter rl now t) = Some w \<and> (w = now \<or> rl_window rl = Some w \<and> now - w < Minute)"
  by (auto simp: rl_enter_def Let_def not_le split: option.splits)

text \<open>A call that is granted at once leaves both counters within their limits.\<close>

lemma Wait_granted:
  assumes "Wait rl now tokens c w = (rl', Granted)" and "rl_rpm rl > 0 \<or> rl_tpm rl > 0"
  shows "rl' = rl_enter rl now tokens
    \<and> (rl_rpm rl > 0 \<longrightarrow> rl_rCount rl' \<le> rl_rpm rl) \<and> (rl_tpm rl > 0 \<longrightarrow> rl_tCount rl' \<le> rl_tpm rl)"
proof -
  let ?r = "rl_enter rl now tokens"
  have nz: "\<not> (rl_rpm rl \<le> 0 \<and> rl_tpm rl \<le> 0)" using assms(2) by auto
  with assms(1) have r: "rl' = ?r" and w: "rl_wait ?r now \<le> 0"
    by (auto simp: Wait_def Let_def split: if_splits option.splits)
  obtain v where v: "rl_window ?r = Some v" "v = now \<or> now - v < Minute"
    using rl_window_enter [of rl now tokens] by blast
  then have "now - v < Minute" by (auto simp: Minute_def)
  with w v(1) have "\<not> (rl_rpm rl > 0 \<and> rl_rCount ?r > rl_rpm rl)"
    "\<not> (rl_tpm rl > 0 \<and> rl_tCount ?r > rl_tpm rl)"
    by (auto simp: rl_wait_def Let_def split: if_splits)
  with r show ?thesis by auto
qed

text \<open>Calls that are all granted at once within one window: \<open>(now, tokens)\<close> per call.\<close>

fun granted_run :: "RateLimiter \<Rightarrow> (int \<times> int) list \<Rightarrow> RateLimiter \<Rightarrow> bool" where
  "granted_run rl [] rl' = (rl' = rl)"
| "granted_run rl ((now, tokens) # cs) rl' =
     (case Wait rl now tokens None 0 of (rl1, r) \<Rightarrow> r = Granted \<and> granted_run rl1 cs rl')"

lemma granted_run_counts:
  assumes "granted_run rl calls rl'" and "rl_rpm rl > 0 \<or> rl_tpm rl > 0"
    and "rl_window rl = Some w" and "\<forall>(now, tokens) \<in> set calls. now - w < Minute"
  shows "rl_rCount rl' = rl_rCount rl + int (length calls)
    \<and> rl_tCount rl' = rl_tCount rl + sum_list (map snd calls)
    \<and> (calls \<noteq> [] \<longrightarrow> (rl_rpm rl > 0 \<longrightarrow> rl_rCount rl' \<le> rl_rpm rl)
        \<and> (rl_tpm rl > 0 \<longrightarrow> rl_tCount rl' \<le> rl_tpm rl))"
  using assms
proof (induction rl calls rl' rule: granted_run.induct)
  case (2 rl now tokens cs rl')
  obtain rl1 where w: "Wait rl now tokens None 0 = (rl1, Granted)" and run: "granted_run rl1 cs rl'"
    using 2(2) by (auto split: prod.splits)
  from 2(5) have "now - w < Minute" by auto
  then have rl1: "rl1 = rl\<lparr>rl_rCount := rl_rCount rl + 1, rl_tCount := rl_tCount rl + tokens\<rparr>"
    using Wait_granted [OF w 2(3)] 2(4) by (simp add: rl_enter_def Let_def)
  have IH: "rl_rCount rl' = rl_rCount rl1 + int (length cs)
    \<and> rl_tCount rl' = rl_tCount rl1 + sum_list (map snd cs)
    \<and> (cs \<noteq> [] \<longrightarrow> (rl_rpm rl1 > 0 \<longrightarrow> rl_rCount rl' \<le> rl_rpm rl1)
        \<and> (rl_tpm rl1 > 0 \<longrightarrow> rl_tCount rl' \<le> rl_tpm rl1))"
    using 2(1) [OF w [symmetric] run] 2(3,4,5) rl1 by auto
  show ?case
  proof (cases "cs = []")
    case True
    with run IH rl1 Wait_granted [OF w 2(3)] show ?thesis by auto
  next
    case False
    with IH rl1 show ?thesis by auto
  qed
qed simp

subsection \<open>Properties\<close>

text \<open>C34: Within one minute-long window the limiter lets at most the configured number of requests
  and tokens through without a wait: if a sequence of calls inside the window is granted, the
  requests counted before plus the calls are at most RPM and the tokens at most TPM.\<close>

theorem rate_limit_window:
  assumes "granted_run rl calls rl'" and "calls \<noteq> []" and "rl_inv rl"
    and "rl_window rl = Some w" and "\<forall>(now, tokens) \<in> set calls. now - w < Minute"
  shows "(rl_rpm rl > 0 \<longrightarrow> rl_rCount rl + int (length calls) \<le> rl_rpm rl)
    \<and> (rl_tpm rl > 0 \<longrightarrow> rl_tCount rl + sum_list (map snd calls) \<le> rl_tpm rl)"
proof (cases "rl_rpm rl > 0 \<or> rl_tpm rl > 0")
  case True
  with granted_run_counts [OF assms(1) True assms(4,5)] assms(2) show ?thesis by auto
qed simp

theorem rate_limit_window_witness:
  "granted_run \<lparr>rl_rpm = 3, rl_tpm = 0, rl_window = Some 0, rl_rCount = 1, rl_tCount = 5\<rparr> [(7, 1), (8, 1)]
     \<lparr>rl_rpm = 3, rl_tpm = 0, rl_window = Some 0, rl_rCount = 3, rl_tCount = 7\<rparr>
   \<and> (1::int) + 2 \<le> 3"
proof -
  let ?rl = "\<lparr>rl_rpm = 3, rl_tpm = 0, rl_window = Some 0, rl_rCount = 1, rl_tCount = 5\<rparr>"
  let ?rl' = "\<lparr>rl_rpm = 3, rl_tpm = 0, rl_window = Some 0, rl_rCount = 3, rl_tCount = 7\<rparr>"
  have g: "granted_run ?rl [(7, 1), (8, 1)] ?rl'" by code_simp
  have "rl_inv ?rl" by (simp add: rl_inv_def)
  with rate_limit_window [OF g, of 0] g show ?thesis by (simp add: Minute_def)
qed

text \<open>A caller that has to wait sleeps at most one minute, and more than zero; if it is not
  cancelled the window restarts empty when it wakes, so the call that slept is itself not counted
  in the new window.\<close>

theorem rate_limit_sleep:
  assumes "Wait rl now tokens c wake = (rl', r)" and "rl_window rl = None \<or> the (rl_window rl) \<le> now"
  shows "(\<forall>d. r = Slept d \<longrightarrow> 0 < d \<and> d \<le> Minute \<and> rl_window rl' = Some wake \<and> rl_rCount rl' = 0 \<and> rl_tCount rl' = 0)
    \<and> (\<forall>d e. r = Cancelled d e \<longrightarrow> 0 < d \<and> d \<le> Minute \<and> c = Some e)"
proof -
  let ?r = "rl_enter rl now tokens"
  obtain v where v: "rl_window ?r = Some v" "v = now \<or> rl_window rl = Some v"
    using rl_window_enter [of rl now tokens] by blast
  with assms(2) have "v \<le> now" by auto
  then have "rl_wait ?r now \<le> Minute" using v(1) by (auto simp: rl_wait_def Minute_def Let_def)
  with assms(1) show ?thesis by (auto simp: Wait_def Let_def split: if_splits option.splits)
qed

theorem rate_limit_sleep_witness:
  "snd (Wait \<lparr>rl_rpm = 1, rl_tpm = 0, rl_window = Some 0, rl_rCount = 1, rl_tCount = 0\<rparr> 10 0 None (Minute + 10))
     = Slept (Minute - 10) \<and> 0 < Minute - 10"
proof -
  let ?rl = "\<lparr>rl_rpm = 1, rl_tpm = 0, rl_window = Some 0, rl_rCount = 1, rl_tCount = 0\<rparr>"
  have e: "Wait ?rl 10 0 None (Minute + 10) =
      (?rl\<lparr>rl_window := Some (Minute + 10), rl_rCount := 0, rl_tCount := 0\<rparr>, Slept (Minute - 10))"
    by (simp add: Wait_def rl_enter_def rl_wait_def Minute_def Let_def)
  from rate_limit_sleep [OF e] e show ?thesis by simp
qed

end
