(* ===== verification/Telemetry.thy ===== *)
theory Telemetry
  imports Types
begin

section \<open>Call statistics and context thresholds (protocol/telemetry.go, stream.go)\<close>

text \<open>
  \<open>Telemetry\<close> keeps the last call, counters fed by the event bus, and the thresholds against
  which the prompt size is compared. A duration in seconds is an opaque \<open>float64\<close> pattern. The
  usage database behind \<open>tracker\<close> is a third-party package: what the telemetry knows of it is whether there is one
  and which rows it has handed over.
\<close>

type_synonym usage_row = "string \<times> string \<times> string \<times> 64 word \<times> int \<times> int"

record CallRecord =
  cr_Model :: string
  cr_Vendor :: string
  cr_Duration :: "64 word"
  cr_PromptTokens :: int
  cr_CompletionTokens :: int

record Telemetry =
  t_last :: CallRecord
  t_warnPct :: int
  t_comprPct :: int
  t_lastWarn :: bool
  t_lastCompr :: bool
  t_chunkBytes :: int
  t_toolCalls :: int
  t_errors :: int
  t_sessionID :: string
  t_tracker :: "usage_row list option"

definition NewTelemetry :: Telemetry where
  "NewTelemetry = \<lparr>t_last = \<lparr>cr_Model = [], cr_Vendor = [], cr_Duration = 0, cr_PromptTokens = 0,
     cr_CompletionTokens = 0\<rparr>, t_warnPct = 40, t_comprPct = 50, t_lastWarn = False, t_lastCompr = False,
     t_chunkBytes = 0, t_toolCalls = 0, t_errors = 0, t_sessionID = [], t_tracker = None\<rparr>"

definition model_table :: "(string \<times> int) list" where
  "model_table =
     [(''gpt-4'', 8192), (''gpt-4-32k'', 32768), (''gpt-4-turbo'', 128000), (''gpt-4o'', 128000),
      (''gpt-4o-mini'', 128000), (''claude-3-haiku'', 200000), (''claude-3-sonnet'', 200000),
      (''claude-3-opus'', 200000), (''claude-3-5-haiku'', 200000), (''claude-3-5-sonnet'', 200000),
      (''deepseek-chat'', 65536), (''deepseek-reasoner'', 65536), (''step-2-16k'', 16384),
      (''step-1-128k'', 131072), (''qwen-turbo'', 8192), (''qwen-plus'', 32768),
      (''qwq-32b-preview'', 32768)]"

definition ModelContextWindow :: "string \<Rightarrow> int" where
  "ModelContextWindow model = (case map_of model_table model of
     Some v \<Rightarrow> v
   | None \<Rightarrow>
       if Contains model ''128k'' \<or> Contains model ''128K'' then 128000
       else if Contains model ''200k'' \<or> Contains model ''200K'' then 200000
       else if Contains model ''step'' \<or> Contains model ''Step'' then 128000
       else if Contains model ''qwen'' \<or> Contains model ''Qwen'' then 32768
       else 524288)"

subsection \<open>Operations\<close>

definition SetTracker :: "Telemetry \<Rightarrow> usage_row list option \<Rightarrow> Telemetry" where
  "SetTracker t ut = t\<lparr>t_tracker := ut\<rparr>"

definition SetSessionID :: "Telemetry \<Rightarrow> string \<Rightarrow> Telemetry" where
  "SetSessionID t sid = t\<lparr>t_sessionID := sid\<rparr>"

definition SetThresholds :: "Telemetry \<Rightarrow> int \<Rightarrow> int \<Rightarrow> Telemetry" where
  "SetThresholds t warnPct compressPct = t\<lparr>t_warnPct := warnPct, t_comprPct := compressPct\<rparr>"

definition LastWarning :: "Telemetry \<Rightarrow> bool \<times> bool" where
  "LastWarning t = (t_lastWarn t, t_lastCompr t)"

definition context_pct :: "int \<Rightarrow> int \<Rightarrow> int" where
  "context_pct promptTokens maxCtx = go_div (wrap64 (promptTokens * 100)) maxCtx"

text \<open>Returns the new state, the two flags, and the row handed to the tracker, if one is set; the state
  remembers it too.\<close>

definition record_call ::
  "Telemetry \<Rightarrow> string \<Rightarrow> string \<Rightarrow> string \<Rightarrow> 64 word \<Rightarrow> Usage option \<Rightarrow>
   Telemetry \<times> bool \<times> bool \<times> usage_row option" where
  "record_call t sessionID model vendor durSec usage =
     (let promptTks = (case usage of Some u \<Rightarrow> PromptTokens u | None \<Rightarrow> 0);
          completionTks = (case usage of Some u \<Rightarrow> CompletionTokens u | None \<Rightarrow> 0);
          maxCtx = ModelContextWindow model;
          active = (usage \<noteq> None \<and> t_warnPct t > 0 \<and> maxCtx > 0);
          pct = context_pct promptTks maxCtx;
          compress = (active \<and> t_comprPct t > 0 \<and> pct \<ge> t_comprPct t);
          warn = (active \<and> pct \<ge> t_warnPct t);
          row = (sessionID, model, vendor, durSec, promptTks, completionTks)
      in (t\<lparr>t_last := \<lparr>cr_Model = model, cr_Vendor = vendor, cr_Duration = durSec,
              cr_PromptTokens = promptTks, cr_CompletionTokens = completionTks\<rparr>,
            t_lastWarn := warn, t_lastCompr := compress,
            t_tracker := map_option (\<lambda>rows. rows @ [row]) (t_tracker t)\<rparr>,
          warn, compress, map_option (\<lambda>_. row) (t_tracker t)))"

definition Record :: "Telemetry \<Rightarrow> string \<Rightarrow> string \<Rightarrow> 64 word \<Rightarrow> Usage option \<Rightarrow>
   Telemetry \<times> bool \<times> bool \<times> usage_row option" where
  "Record t model vendor durSec usage = record_call t (t_sessionID t) model vendor durSec usage"

text \<open>The session ID comes from the request context; a missing value is the empty string.\<close>

definition RecordFromContext :: "Telemetry \<Rightarrow> string option \<Rightarrow> string \<Rightarrow> string \<Rightarrow> 64 word \<Rightarrow>
   Usage option \<Rightarrow> Telemetry \<times> bool \<times> bool \<times> usage_row option" where
  "RecordFromContext t ctx_sid model vendor durSec usage =
     record_call t (case ctx_sid of Some s \<Rightarrow> s | None \<Rightarrow> []) model vendor durSec usage"

definition RecordChunkBytes :: "Telemetry \<Rightarrow> int \<Rightarrow> Telemetry" where
  "RecordChunkBytes t n = t\<lparr>t_chunkBytes := t_chunkBytes t + n\<rparr>"
definition RecordToolCall :: "Telemetry \<Rightarrow> Telemetry" where
  "RecordToolCall t = t\<lparr>t_toolCalls := t_toolCalls t + 1\<rparr>"
definition RecordError :: "Telemetry \<Rightarrow> Telemetry" where
  "RecordError t = t\<lparr>t_errors := t_errors t + 1\<rparr>"
definition RecordUsage :: "Telemetry \<Rightarrow> Usage option \<Rightarrow> Telemetry" where
  "RecordUsage t usage = (case usage of
     None \<Rightarrow> t
   | Some u \<Rightarrow> t\<lparr>t_last := (t_last t)\<lparr>cr_PromptTokens := PromptTokens u,
                 cr_CompletionTokens := CompletionTokens u\<rparr>\<rparr>)"

text \<open>The event-bus subscriber \<open>telemetryProcessor\<close>.\<close>

definition telemetry_Process :: "Telemetry \<Rightarrow> Chunk \<Rightarrow> Telemetry" where
  "telemetry_Process t chunk = (case ch_Type chunk of
     ChunkText \<Rightarrow> RecordChunkBytes t (int (length (ch_Text chunk)))
   | ChunkReasoning \<Rightarrow> RecordChunkBytes t (int (length (ch_Text chunk)))
   | ChunkToolCall \<Rightarrow> RecordToolCall t
   | ChunkToolCallStart \<Rightarrow> RecordToolCall t
   | ChunkUsage \<Rightarrow> (if ch_Usage chunk \<noteq> None then RecordUsage t (ch_Usage chunk) else t)
   | ChunkError \<Rightarrow> RecordError t
   | _ \<Rightarrow> t)"

text \<open>\<open>sendContextWarning\<close> (openai.go): the warning chunk for a usage report, if any.\<close>

definition contextWarning :: "Telemetry \<Rightarrow> string \<Rightarrow> Usage option \<Rightarrow> Chunk option" where
  "contextWarning t model usage = (case usage of
     None \<Rightarrow> None
   | Some u \<Rightarrow>
       let maxCtx = ModelContextWindow model in
       if maxCtx \<le> 0 then None
       else
         let pct = context_pct (PromptTokens u) maxCtx in
         if pct \<ge> t_comprPct t then
           Some ((zero_Chunk ChunkWarn)\<lparr>ch_Warning := ''context at '' @ show_int pct @ ''% '' @
             [CHR 0xE2, CHR 0x80, CHR 0x94] @ '' compression recommended''\<rparr>)
         else if pct \<ge> t_warnPct t then
           Some ((zero_Chunk ChunkWarn)\<lparr>ch_Warning := ''context at '' @ show_int pct @ ''%''\<rparr>)
         else None)"

subsection \<open>Lemmas and properties\<close>

lemma ModelContextWindow_pos: "0 < ModelContextWindow model"
proof -
  have "\<forall>(k, v) \<in> set model_table. 0 < v" by (simp add: model_table_def)
  then have "map_of model_table model = Some v \<Longrightarrow> 0 < v" for v
    by (auto dest!: map_of_SomeD)
  then show ?thesis by (auto simp: ModelContextWindow_def split: option.splits)
qed

text \<open>Token counts for which the product with 100 stays in 64 bits.\<close>

abbreviation token_count :: "int \<Rightarrow> bool" where
  "token_count p \<equiv> 0 \<le> p \<and> p < 2 ^ 56"

lemma context_pct_eq: "token_count p \<Longrightarrow> 0 < n \<Longrightarrow> context_pct p n = p * 100 div n"
  by (simp add: context_pct_def wrap64_id go_div_nonneg)

lemma context_pct_iff:
  assumes "token_count p"
  shows "context_pct p (ModelContextWindow m) \<ge> k \<longleftrightarrow> k * ModelContextWindow m \<le> p * 100"
  using assms ModelContextWindow_pos [of m]
  by (simp add: context_pct_eq le_div_int_iff)

text \<open>A recorded call raises the context flags exactly at the thresholds: with warning enabled
  and a usage report, warn is set iff the prompt takes at least warnPct percent of the model's
  context window and compress iff compression is enabled and it takes at least comprPct percent;
  with no report or warning disabled neither is set. The flags are what LastWarning returns next.\<close>

theorem record_thresholds:
  assumes "record_call t sid model vendor dur usage = (t', warn, compress, row)"
    and "\<forall>u. usage = Some u \<longrightarrow> token_count (PromptTokens u)"
  shows "warn = (\<exists>u. usage = Some u \<and> t_warnPct t > 0
            \<and> t_warnPct t * ModelContextWindow model \<le> PromptTokens u * 100)
    \<and> compress = (\<exists>u. usage = Some u \<and> t_warnPct t > 0 \<and> t_comprPct t > 0
            \<and> t_comprPct t * ModelContextWindow model \<le> PromptTokens u * 100)
    \<and> LastWarning t' = (warn, compress)"
  using assms ModelContextWindow_pos [of model]
  by (cases usage) (auto simp: record_call_def LastWarning_def Let_def context_pct_iff)

theorem record_thresholds_witness:
  "fst (snd (record_call NewTelemetry [] ''gpt-4'' ''openai'' 0
      (Some \<lparr>PromptTokens = 4000, CompletionTokens = 1, TotalTokens = 4001\<rparr>)))"
proof -
  let ?u = "Some \<lparr>PromptTokens = 4000, CompletionTokens = 1, TotalTokens = 4001\<rparr>"
  obtain t' w c r where e: "record_call NewTelemetry [] ''gpt-4'' ''openai'' 0 ?u = (t', w, c, r)"
    by (cases "record_call NewTelemetry [] ''gpt-4'' ''openai'' 0 ?u") auto
  have "ModelContextWindow ''gpt-4'' = 8192" by (simp add: ModelContextWindow_def model_table_def)
  with record_thresholds [OF e] e show ?thesis by (simp add: NewTelemetry_def)
qed

text \<open>With both thresholds set to 0 (off), no recorded call raises a flag, but the stream still
  sends a "compression recommended" warning for every usage report.\<close>

theorem disabled_thresholds_still_warn:
  assumes "token_count (PromptTokens u)"
  shows "\<exists>c. contextWarning (SetThresholds t 0 0) model (Some u) = Some c
    \<and> fst (snd (record_call (SetThresholds t 0 0) sid model vendor dur (Some u))) = False"
  using context_pct_iff [OF assms, of 0 model] ModelContextWindow_pos [of model] assms
  by (simp add: contextWarning_def SetThresholds_def record_call_def Let_def)

end
