(* ===== verification/Sse.thy ===== *)
theory Sse
  imports Think Telemetry Vendor
begin

section \<open>Reading a chat stream (protocol/openai.go: readStream, processSSEData)\<close>

text \<open>
  One HTTP response is a sequence of lines; each \<open>data:\<close> line carries a JSON object that is
  decoded and turned into chunks on the output channel. Decoding of a line into the anonymous
  struct of \<open>processSSEData\<close> is the argument \<open>unmarshal\<close>: \<open>None\<close> is a decoding error, and
  every theorem holds for any decoder. A send on the channel succeeds or, when the context is
  done, fails; \<open>accept n\<close> says which for the \<open>n\<close>-th attempt.
\<close>

record sse_call =
  d_Index :: int
  d_ID :: string
  d_Type :: string
  d_Name :: string
  d_Arguments :: string

record sse_choice =
  sd_Content :: string
  sd_ReasoningContent :: string
  sd_Reasoning :: string
  sd_ToolCalls :: "sse_call list"
  sd_FinishReason :: "string option"

record sse_data =
  sr_Choices :: "sse_choice list"
  sr_Usage :: "Usage option"
  sr_Error :: "string option"

record readStreamState =
  rs_out :: "Chunk list"
  rs_tries :: nat
  rs_acc :: "int \<rightharpoonup> ToolCall"
  rs_started :: "int set"
  rs_order :: "int list"
  rs_think :: thinkSplitter
  rs_emitted :: bool
  rs_lastUsage :: "Usage option"

text \<open>What a call needs of the client: its vendor, model, telemetry thresholds and channel.\<close>

record stream_cfg =
  sf_vendor :: Vendor
  sf_model :: string
  sf_telemetry :: Telemetry
  sf_accept :: "nat \<Rightarrow> bool"
  sf_ctxErr :: gerror

definition rs_init :: "Chunk list \<Rightarrow> nat \<Rightarrow> Usage option \<Rightarrow> readStreamState" where
  "rs_init out tries usage = \<lparr>rs_out = out, rs_tries = tries, rs_acc = Map.empty, rs_started = {},
     rs_order = [], rs_think = think_init, rs_emitted = False, rs_lastUsage = usage\<rparr>"

subsection \<open>Sending\<close>

definition send :: "stream_cfg \<Rightarrow> readStreamState \<Rightarrow> Chunk \<Rightarrow> readStreamState \<times> bool" where
  "send cfg s ch =
     (if sf_accept cfg (rs_tries s)
      then (s\<lparr>rs_out := rs_out s @ [ch], rs_tries := Suc (rs_tries s), rs_emitted := True\<rparr>, True)
      else (s\<lparr>rs_tries := Suc (rs_tries s)\<rparr>, False))"

text \<open>The package-level \<open>sendChunk\<close> drops the chunk when it cannot be sent and does not set
  \<open>emitted\<close>.\<close>

definition sendChunk :: "stream_cfg \<Rightarrow> readStreamState \<Rightarrow> Chunk \<Rightarrow> readStreamState" where
  "sendChunk cfg s ch =
     (if sf_accept cfg (rs_tries s)
      then s\<lparr>rs_out := rs_out s @ [ch], rs_tries := Suc (rs_tries s)\<rparr>
      else s\<lparr>rs_tries := Suc (rs_tries s)\<rparr>)"

definition streamErr :: "bool \<Rightarrow> gerror option \<Rightarrow> gerror option" where
  "streamErr emitted err = (case err of
     Some e \<Rightarrow> if emitted then Some (StreamInterruptedError True e) else Some e
   | None \<Rightarrow> None)"

definition sendErr :: "stream_cfg \<Rightarrow> readStreamState \<Rightarrow> gerror \<Rightarrow> readStreamState \<times> bool" where
  "sendErr cfg s err =
     send cfg s ((zero_Chunk ChunkError)\<lparr>ch_Error := streamErr (rs_emitted s) (Some err)\<rparr>)"

definition text_chunk :: "ChunkType \<Rightarrow> string \<Rightarrow> Chunk" where
  "text_chunk t s = (zero_Chunk t)\<lparr>ch_Text := s\<rparr>"

definition call_chunk :: "ChunkType \<Rightarrow> ToolCall \<Rightarrow> Chunk" where
  "call_chunk t tc = (zero_Chunk t)\<lparr>ch_ToolCall := Some tc\<rparr>"

fun send_list :: "stream_cfg \<Rightarrow> readStreamState \<Rightarrow> Chunk list \<Rightarrow> readStreamState \<times> bool" where
  "send_list cfg s [] = (s, True)"
| "send_list cfg s (c # cs) =
     (case send cfg s c of (s1, ok) \<Rightarrow> if ok then send_list cfg s1 cs else (s1, False))"

subsection \<open>One decoded event\<close>

definition zero_ToolCall :: ToolCall where
  "zero_ToolCall = \<lparr>tc_ID = [], tc_Type = [], tc_Name = [], tc_Arguments = []\<rparr>"

definition merge_call :: "ToolCall \<Rightarrow> sse_call \<Rightarrow> ToolCall" where
  "merge_call cur tc =
     (let cur1 = (if d_ID tc \<noteq> [] then cur\<lparr>tc_ID := d_ID tc\<rparr> else cur);
          cur2 = (if d_Name tc \<noteq> [] then cur1\<lparr>tc_Name := d_Name tc\<rparr> else cur1)
      in cur2\<lparr>tc_Arguments := tc_Arguments cur2 @ d_Arguments tc\<rparr>)"

definition add_call :: "readStreamState \<Rightarrow> sse_call \<Rightarrow> readStreamState" where
  "add_call s tc =
     (let i = d_Index tc;
          s1 = (if rs_acc s i = None
                then s\<lparr>rs_acc := (rs_acc s)(i \<mapsto> zero_ToolCall), rs_order := rs_order s @ [i]\<rparr> else s)
      in s1\<lparr>rs_acc := (rs_acc s1)(i \<mapsto> merge_call (the (rs_acc s1 i)) tc)\<rparr>)"

fun calls_loop :: "stream_cfg \<Rightarrow> readStreamState \<Rightarrow> sse_call list \<Rightarrow> readStreamState \<times> bool" where
  "calls_loop cfg s [] = (s, True)"
| "calls_loop cfg s (tc # tcs) =
     (let i = d_Index tc; s1 = add_call s tc; cur = the (rs_acc s1 i) in
      if i \<notin> rs_started s1 \<and> tc_Name cur \<noteq> [] then
        (case send cfg (s1\<lparr>rs_started := insert i (rs_started s1)\<rparr>)
                (call_chunk ChunkToolCallStart (zero_ToolCall\<lparr>tc_ID := tc_ID cur, tc_Name := tc_Name cur\<rparr>)) of
           (s2, ok) \<Rightarrow> if ok then calls_loop cfg s2 tcs else (s2, False))
      else calls_loop cfg s1 tcs)"

fun finish_loop :: "stream_cfg \<Rightarrow> readStreamState \<Rightarrow> int list \<Rightarrow> readStreamState \<times> bool" where
  "finish_loop cfg s [] = (s, True)"
| "finish_loop cfg s (i # is) = (case rs_acc s i of
     None \<Rightarrow> finish_loop cfg s is
   | Some tc \<Rightarrow>
       let tc1 = (if tc_ID tc = [] then tc\<lparr>tc_ID := ''call_'' @ show_int i\<rparr> else tc) in
       (case send cfg (s\<lparr>rs_acc := (rs_acc s)(i \<mapsto> tc1)\<rparr>) (call_chunk ChunkToolCall tc1) of
          (s2, ok) \<Rightarrow> if ok then finish_loop cfg s2 is else (s2, False)))"

definition usage_step :: "stream_cfg \<Rightarrow> readStreamState \<Rightarrow> Usage \<Rightarrow> readStreamState" where
  "usage_step cfg s u =
     (let s1 = fst (send cfg (s\<lparr>rs_lastUsage := Some u\<rparr>) ((zero_Chunk ChunkUsage)\<lparr>ch_Usage := Some u\<rparr>))
      in case contextWarning (sf_telemetry cfg) (sf_model cfg) (Some u) of
           Some c \<Rightarrow> sendChunk cfg s1 c
         | None \<Rightarrow> s1)"

definition content_chunks :: "stream_cfg \<Rightarrow> readStreamState \<Rightarrow> string \<Rightarrow> readStreamState \<times> Chunk list" where
  "content_chunks cfg s content =
     (if content = [] then (s, [])
      else if sf_vendor cfg = VendorMiniMax then
        (case push (rs_think s) content of (th, r, txt) \<Rightarrow>
           (s\<lparr>rs_think := th\<rparr>,
            (if r \<noteq> [] then [text_chunk ChunkReasoning r] else []) @
            (if txt \<noteq> [] then [text_chunk ChunkText txt] else [])))
      else (s, [text_chunk ChunkText content]))"

definition reasoning_chunks :: "sse_choice \<Rightarrow> Chunk list" where
  "reasoning_chunks d =
     (let rd = (if sd_ReasoningContent d = [] then sd_Reasoning d else sd_ReasoningContent d)
      in if rd \<noteq> [] then [text_chunk ChunkReasoning rd] else [])"

definition finish_step :: "stream_cfg \<Rightarrow> readStreamState \<Rightarrow> readStreamState \<times> bool \<times> gerror option" where
  "finish_step cfg s =
     (case flush (rs_think s) of (th, r, _) \<Rightarrow>
      case send_list cfg (s\<lparr>rs_think := th\<rparr>) (if r \<noteq> [] then [text_chunk ChunkReasoning r] else []) of
        (s1, ok1) \<Rightarrow>
          if \<not> ok1 then (s1, False, Some (sf_ctxErr cfg))
          else (case finish_loop cfg s1 (rs_order s1) of (s2, ok2) \<Rightarrow>
            if \<not> ok2 then (s2, False, Some (sf_ctxErr cfg))
            else (fst (send cfg s2 (zero_Chunk ChunkDone)), True, None)))"

definition process_choice ::
  "stream_cfg \<Rightarrow> readStreamState \<Rightarrow> sse_choice \<Rightarrow> readStreamState \<times> bool \<times> gerror option" where
  "process_choice cfg s d =
     (case send_list cfg s (reasoning_chunks d) of (s1, ok1) \<Rightarrow>
      if \<not> ok1 then (s1, False, Some (sf_ctxErr cfg))
      else case content_chunks cfg s1 (sd_Content d) of (s2, cs) \<Rightarrow>
      case send_list cfg s2 cs of (s3, ok3) \<Rightarrow>
      if \<not> ok3 then (s3, False, Some (sf_ctxErr cfg))
      else case calls_loop cfg s3 (sd_ToolCalls d) of (s4, ok4) \<Rightarrow>
      if \<not> ok4 then (s4, False, Some (sf_ctxErr cfg))
      else if sd_FinishReason d \<noteq> None \<and> sd_FinishReason d \<noteq> Some [] then finish_step cfg s4
      else (s4, False, None))"

text \<open>The result is the new state, \<open>stop\<close>, and the error.\<close>

definition process_event ::
  "stream_cfg \<Rightarrow> readStreamState \<Rightarrow> sse_data \<Rightarrow> readStreamState \<times> bool \<times> gerror option" where
  "process_event cfg s sr = (case sr_Error sr of
     Some msg \<Rightarrow> (fst (sendErr cfg s (ErrMsg msg)), False, Some (ErrMsg (''API stream error: '' @ msg)))
   | None \<Rightarrow>
       let s1 = (case sr_Usage sr of Some u \<Rightarrow> usage_step cfg s u | None \<Rightarrow> s) in
       (case sr_Choices sr of
          [] \<Rightarrow> (s1, False, None)
        | d # _ \<Rightarrow> process_choice cfg s1 d))"

definition processSSEData ::
  "stream_cfg \<Rightarrow> (string \<Rightarrow> sse_data option) \<Rightarrow> readStreamState \<Rightarrow> string \<Rightarrow> readStreamState \<times> bool \<times> gerror option"
  where
  "processSSEData cfg unmarshal s data = (case unmarshal data of
     None \<Rightarrow> (s, False, None)
   | Some sr \<Rightarrow> process_event cfg s sr)"

subsection \<open>The whole response\<close>

datatype scan_result = ScanEnd readStreamState | ScanReturn readStreamState "gerror option"

fun read_lines ::
  "stream_cfg \<Rightarrow> (string \<Rightarrow> sse_data option) \<Rightarrow> readStreamState \<Rightarrow> string list \<Rightarrow> gerror option \<Rightarrow> scan_result \<times> gerror option"
  where
  "read_lines cfg unmarshal s [] scanErr = (ScanEnd s, scanErr)"
| "read_lines cfg unmarshal s (l # ls) scanErr =
     (let line = TrimSpace l in
      if line = [] \<or> \<not> HasPrefix line ''data:'' then read_lines cfg unmarshal s ls scanErr
      else
        let data = TrimSpace (TrimPrefix line ''data:'') in
        if data = ''[DONE]'' then (ScanEnd (fst (send cfg s (zero_Chunk ChunkDone))), None)
        else (case processSSEData cfg unmarshal s data of (s1, stop, err) \<Rightarrow>
          if err \<noteq> None then (ScanReturn s1 (streamErr (rs_emitted s1) err), None)
          else if stop then (ScanReturn s1 None, None)
          else read_lines cfg unmarshal s1 ls scanErr))"

text \<open>
  \<open>lines\<close> are the lines the scanner yields before the body ends, \<open>scanErr\<close> the error that ends
  it, if any, and \<open>stalled\<close> the flag of the stall watchdog.
\<close>

definition readStream ::
  "stream_cfg \<Rightarrow> (string \<Rightarrow> sse_data option) \<Rightarrow> readStreamState \<Rightarrow> string list \<Rightarrow> gerror option \<Rightarrow> bool \<Rightarrow>
   readStreamState \<times> gerror option" where
  "readStream cfg unmarshal s lines scanErr stalled =
     (case read_lines cfg unmarshal s lines scanErr of
        (ScanReturn s1 err, _) \<Rightarrow> (s1, err)
      | (ScanEnd s1, Some e) \<Rightarrow> (s1, streamErr (rs_emitted s1) (Some (ErrWrap ''scanner error'' e)))
      | (ScanEnd s1, None) \<Rightarrow>
          if stalled then
            (let s2 = sendChunk cfg s1 ((zero_Chunk ChunkError)\<lparr>ch_Error := Some (ErrMsg ''stream idle timeout'')\<rparr>)
             in (s2, streamErr (rs_emitted s2) (Some (ErrMsg ''stream idle timeout''))))
          else (s1, None))"

subsection \<open>Lemmas: a live consumer\<close>

definition live :: "stream_cfg \<Rightarrow> bool" where "live cfg \<longleftrightarrow> (\<forall>n. sf_accept cfg n)"

definition deliver :: "Chunk list \<Rightarrow> readStreamState \<Rightarrow> readStreamState" where
  "deliver cs s = s\<lparr>rs_out := rs_out s @ cs, rs_tries := rs_tries s + length cs,
     rs_emitted := (rs_emitted s \<or> cs \<noteq> [])\<rparr>"

lemma deliver_fields [simp]:
  "rs_out (deliver cs s) = rs_out s @ cs" "rs_acc (deliver cs s) = rs_acc s"
  "rs_started (deliver cs s) = rs_started s" "rs_order (deliver cs s) = rs_order s"
  "rs_think (deliver cs s) = rs_think s" "rs_lastUsage (deliver cs s) = rs_lastUsage s"
  by (simp_all add: deliver_def)

lemma send_live [simp]: "live cfg \<Longrightarrow> send cfg s c = (deliver [c] s, True)"
  by (simp add: send_def live_def deliver_def)

lemma deliver_deliver: "deliver ds (deliver cs s) = deliver (cs @ ds) s"
  by (auto simp: deliver_def)

lemma deliver_Nil [simp]: "deliver [] s = s"
  by (simp add: deliver_def)

lemma send_list_live [simp]: "live cfg \<Longrightarrow> send_list cfg s cs = (deliver cs s, True)"
  by (induction cs arbitrary: s) (auto simp: deliver_deliver)

subsection \<open>Lemmas: accumulating tool calls\<close>

definition first_seen :: "int list \<Rightarrow> int list" where
  "first_seen is = foldl (\<lambda>acc i. if i \<in> set acc then acc else acc @ [i]) [] is"

definition fragments_of :: "int \<Rightarrow> sse_call list \<Rightarrow> sse_call list" where
  "fragments_of i fs = filter (\<lambda>f. d_Index f = i) fs"

definition merged :: "sse_call list \<Rightarrow> int \<Rightarrow> ToolCall" where
  "merged fs i = foldl merge_call zero_ToolCall (fragments_of i fs)"

definition calls_inv :: "readStreamState \<Rightarrow> sse_call list \<Rightarrow> bool" where
  "calls_inv s fs \<longleftrightarrow>
     rs_order s = first_seen (map d_Index fs)
     \<and> (\<forall>i. rs_acc s i = (if i \<in> set (map d_Index fs) then Some (merged fs i) else None))"

lemma first_seen_snoc:
  "first_seen (is @ [i]) = (if i \<in> set (first_seen is) then first_seen is else first_seen is @ [i])"
  by (simp add: first_seen_def)

lemma first_seen_set [simp]: "set (first_seen is) = set is"
  by (induction "is" rule: rev_induct) (auto simp: first_seen_snoc, auto simp: first_seen_def)

lemma first_seen_distinct [simp]: "distinct (first_seen is)"
  by (induction "is" rule: rev_induct) (auto simp: first_seen_snoc, auto simp: first_seen_def)

lemma merged_snoc:
  "merged (fs @ [tc]) i = (if d_Index tc = i then merge_call (merged fs i) tc else merged fs i)"
  by (simp add: merged_def fragments_of_def)

lemma merged_fresh: "i \<notin> set (map d_Index fs) \<Longrightarrow> merged fs i = zero_ToolCall"
proof -
  assume "i \<notin> set (map d_Index fs)"
  then have "fragments_of i fs = []" by (auto simp: fragments_of_def filter_empty_conv)
  then show ?thesis by (simp add: merged_def)
qed

lemma merge_call_arguments:
  "tc_Arguments (foldl merge_call c fs) = tc_Arguments c @ concat (map d_Arguments fs)"
  by (induction fs arbitrary: c) (auto simp: merge_call_def Let_def)

lemma merged_arguments: "tc_Arguments (merged fs i) = concat (map d_Arguments (fragments_of i fs))"
  by (simp add: merged_def merge_call_arguments zero_ToolCall_def)

lemma add_call_inv:
  assumes "calls_inv s fs"
  shows "calls_inv (add_call s tc) (fs @ [tc])"
proof (cases "d_Index tc \<in> set (map d_Index fs)")
  case True
  with assms show ?thesis
    unfolding calls_inv_def by (auto simp: add_call_def Let_def first_seen_snoc merged_snoc)
next
  case False
  with assms show ?thesis
    unfolding calls_inv_def
    by (auto simp: add_call_def Let_def first_seen_snoc merged_snoc merged_fresh image_iff)
qed

lemma calls_inv_deliver [simp]: "calls_inv (deliver cs s) fs = calls_inv s fs"
  by (simp add: calls_inv_def)

lemma calls_inv_started [simp]: "calls_inv (s\<lparr>rs_started := x\<rparr>) fs = calls_inv s fs"
  by (simp add: calls_inv_def)

lemma calls_inv_think [simp]: "calls_inv (s\<lparr>rs_think := x\<rparr>) fs = calls_inv s fs"
  by (simp add: calls_inv_def)

lemma add_call_frame [simp]:
  "rs_out (add_call s tc) = rs_out s" "rs_think (add_call s tc) = rs_think s"
  by (simp_all add: add_call_def Let_def)

text \<open>The start chunks for fragments \<open>tcs\<close> that follow \<open>fs\<close> when every call is named by its first
  fragment.\<close>

fun named_first :: "sse_call list \<Rightarrow> sse_call list \<Rightarrow> bool" where
  "named_first fs [] = True"
| "named_first fs (tc # tcs) =
     ((d_Index tc \<notin> set (map d_Index fs) \<longrightarrow> d_Name tc \<noteq> []) \<and> named_first (fs @ [tc]) tcs)"

definition start_chunk :: "sse_call \<Rightarrow> Chunk" where
  "start_chunk tc = call_chunk ChunkToolCallStart (zero_ToolCall\<lparr>tc_ID := d_ID tc, tc_Name := d_Name tc\<rparr>)"

fun starts_of :: "sse_call list \<Rightarrow> sse_call list \<Rightarrow> Chunk list" where
  "starts_of fs [] = []"
| "starts_of fs (tc # tcs) =
     (if d_Index tc \<in> set (map d_Index fs) then [] else [start_chunk tc]) @ starts_of (fs @ [tc]) tcs"

lemma named_first_append: "named_first fs (xs @ ys) \<longleftrightarrow> named_first fs xs \<and> named_first (fs @ xs) ys"
  by (induction xs arbitrary: fs) auto

lemma starts_of_append: "starts_of fs (xs @ ys) = starts_of fs xs @ starts_of (fs @ xs) ys"
  by (induction xs arbitrary: fs) auto

definition started_inv :: "readStreamState \<Rightarrow> sse_call list \<Rightarrow> bool" where
  "started_inv s fs \<longleftrightarrow> rs_started s = set (map d_Index fs)"

lemma started_deliver [simp]: "started_inv (deliver cs s) fs = started_inv s fs"
  by (simp add: started_inv_def)

lemma add_call_started [simp]: "rs_started (add_call s tc) = rs_started s"
  by (simp add: add_call_def Let_def)

lemma add_call_fresh:
  assumes "calls_inv s fs" and "d_Index tc \<notin> set (map d_Index fs)"
  shows "the (rs_acc (add_call s tc) (d_Index tc)) =
     zero_ToolCall\<lparr>tc_ID := d_ID tc, tc_Name := d_Name tc, tc_Arguments := d_Arguments tc\<rparr>"
proof -
  have "rs_acc s (d_Index tc) = None" using assms by (simp add: calls_inv_def)
  then show ?thesis by (simp add: add_call_def merge_call_def zero_ToolCall_def Let_def)
qed

lemma calls_loop_live:
  assumes "live cfg" and "calls_inv s fs"
  shows "\<exists>s' starts. calls_loop cfg s tcs = (s', True) \<and> calls_inv s' (fs @ tcs)
     \<and> rs_think s' = rs_think s \<and> rs_out s' = rs_out s @ starts
     \<and> (\<forall>c \<in> set starts. ch_Type c = ChunkToolCallStart)
     \<and> (started_inv s fs \<and> named_first fs tcs \<longrightarrow> started_inv s' (fs @ tcs) \<and> starts = starts_of fs tcs)"
  using assms(2)
proof (induction tcs arbitrary: s fs)
  case (Cons tc tcs)
  let ?s1 = "add_call s tc"
  have inv1: "calls_inv ?s1 (fs @ [tc])" using Cons.prems by (rule add_call_inv)
  show ?case
  proof (cases "d_Index tc \<notin> rs_started ?s1 \<and> tc_Name (the (rs_acc ?s1 (d_Index tc))) \<noteq> []")
    case True
    let ?c = "call_chunk ChunkToolCallStart (zero_ToolCall\<lparr>tc_ID := tc_ID (the (rs_acc ?s1 (d_Index tc))),
       tc_Name := tc_Name (the (rs_acc ?s1 (d_Index tc)))\<rparr>)"
    let ?s2 = "deliver [?c] (?s1\<lparr>rs_started := insert (d_Index tc) (rs_started ?s1)\<rparr>)"
    have "calls_inv ?s2 (fs @ [tc])" using inv1 by simp
    from Cons.IH [OF this] obtain s' starts where
      l: "calls_loop cfg ?s2 tcs = (s', True)" "calls_inv s' ((fs @ [tc]) @ tcs)" "rs_think s' = rs_think ?s2"
        "rs_out s' = rs_out ?s2 @ starts" "\<forall>c \<in> set starts. ch_Type c = ChunkToolCallStart"
        "started_inv ?s2 (fs @ [tc]) \<and> named_first (fs @ [tc]) tcs \<longrightarrow>
           started_inv s' ((fs @ [tc]) @ tcs) \<and> starts = starts_of (fs @ [tc]) tcs" by blast
    have "ch_Type ?c = ChunkToolCallStart" by (simp add: call_chunk_def zero_Chunk_def)
    moreover have "started_inv s' (fs @ tc # tcs) \<and> ?c # starts = starts_of fs (tc # tcs)"
      if "started_inv s fs" "named_first fs (tc # tcs)"
    proof -
      have fresh: "d_Index tc \<notin> set (map d_Index fs)" using True that(1) by (simp add: started_inv_def)
      then have "?c = start_chunk tc"
        using add_call_fresh [OF Cons.prems fresh] by (simp add: start_chunk_def)
      moreover have "started_inv ?s2 (fs @ [tc])" using that(1) by (simp add: started_inv_def)
      ultimately show ?thesis using l(6) that(2) fresh by simp
    qed
    ultimately show ?thesis using True l assms(1)
      by (intro exI [of _ s'] exI [of _ "?c # starts"]) (auto simp: Let_def)
  next
    case False
    from Cons.IH [OF inv1] obtain s' starts where
      l: "calls_loop cfg ?s1 tcs = (s', True)" "calls_inv s' ((fs @ [tc]) @ tcs)" "rs_think s' = rs_think ?s1"
        "rs_out s' = rs_out ?s1 @ starts" "\<forall>c \<in> set starts. ch_Type c = ChunkToolCallStart"
        "started_inv ?s1 (fs @ [tc]) \<and> named_first (fs @ [tc]) tcs \<longrightarrow>
           started_inv s' ((fs @ [tc]) @ tcs) \<and> starts = starts_of (fs @ [tc]) tcs" by blast
    have "started_inv s' (fs @ tc # tcs) \<and> starts = starts_of fs (tc # tcs)"
      if "started_inv s fs" "named_first fs (tc # tcs)"
    proof -
      have old: "d_Index tc \<in> set (map d_Index fs)"
      proof (rule ccontr)
        assume n: "d_Index tc \<notin> set (map d_Index fs)"
        then have "d_Name tc \<noteq> []" using that(2) by simp
        with False that(1) n add_call_fresh [OF Cons.prems n] show False by (simp add: started_inv_def)
      qed
      then have "started_inv ?s1 (fs @ [tc])" using that(1) by (auto simp: started_inv_def)
      with l(6) that(2) old show ?thesis by simp
    qed
    with l False show ?thesis by (intro exI [of _ s'] exI [of _ starts]) (auto simp: Let_def)
  qed
qed auto

definition final_call :: "int \<Rightarrow> ToolCall \<Rightarrow> ToolCall" where
  "final_call i tc = (if tc_ID tc = [] then tc\<lparr>tc_ID := ''call_'' @ show_int i\<rparr> else tc)"

lemma finish_loop_live:
  assumes "live cfg" and "distinct is" and "\<forall>i \<in> set is. rs_acc s i \<noteq> None"
  shows "\<exists>s'. finish_loop cfg s is = (s', True)
     \<and> rs_out s' = rs_out s @ map (\<lambda>i. call_chunk ChunkToolCall (final_call i (the (rs_acc s i)))) is"
  using assms(2,3)
proof (induction "is" arbitrary: s)
  case (Cons i "is")
  then obtain tc where tc: "rs_acc s i = Some tc" by auto
  let ?s1 = "deliver [call_chunk ChunkToolCall (final_call i tc)] (s\<lparr>rs_acc := (rs_acc s)(i \<mapsto> final_call i tc)\<rparr>)"
  have ne: "j \<in> set is \<Longrightarrow> j \<noteq> i" for j using Cons.prems(1) by auto
  have "\<forall>j \<in> set is. rs_acc ?s1 j \<noteq> None" using Cons.prems by auto
  from Cons.IH [OF _ this] Cons.prems(1) obtain s' where
    l: "finish_loop cfg ?s1 is = (s', True)"
      "rs_out s' = rs_out ?s1 @ map (\<lambda>j. call_chunk ChunkToolCall (final_call j (the (rs_acc ?s1 j)))) is" by auto
  have "map (\<lambda>j. call_chunk ChunkToolCall (final_call j (the (rs_acc ?s1 j)))) is =
        map (\<lambda>j. call_chunk ChunkToolCall (final_call j (the (rs_acc s j)))) is"
    using ne by (intro map_cong) auto
  with tc l assms(1) show ?case by (simp add: final_call_def Let_def)
qed simp

subsection \<open>Lemmas: what a sequence of events emits\<close>

definition tool_chunks :: "Chunk list \<Rightarrow> Chunk list" where
  "tool_chunks cs = filter (\<lambda>c. ch_Type c = ChunkToolCall) cs"

definition text_of :: "Chunk list \<Rightarrow> string" where
  "text_of cs = concat (map ch_Text (filter (\<lambda>c. ch_Type c = ChunkText) cs))"

definition call_chunks :: "Chunk list \<Rightarrow> Chunk list" where
  "call_chunks cs = filter (\<lambda>c. ch_Type c = ChunkToolCallStart \<or> ch_Type c = ChunkToolCall) cs"

lemma call_chunks_append [simp]: "call_chunks (xs @ ys) = call_chunks xs @ call_chunks ys"
  by (simp add: call_chunks_def)

lemma call_chunks_starts [simp]: "call_chunks (starts_of fs tcs) = starts_of fs tcs"
  by (induction fs tcs rule: starts_of.induct)
     (auto simp: call_chunks_def start_chunk_def call_chunk_def zero_Chunk_def)

lemma tool_chunks_append [simp]: "tool_chunks (xs @ ys) = tool_chunks xs @ tool_chunks ys"
  by (simp add: tool_chunks_def)

lemma text_of_append [simp]: "text_of (xs @ ys) = text_of xs @ text_of ys"
  by (simp add: text_of_def)

lemma chunk_types [simp]:
  "ch_Type (text_chunk t x) = t" "ch_Type (call_chunk t tc) = t" "ch_Type (zero_Chunk t) = t"
  "ch_Text (text_chunk t x) = x" "ch_ToolCall (call_chunk t tc) = Some tc"
  by (simp_all add: text_chunk_def call_chunk_def zero_Chunk_def)

lemma chunks_of_text:
  "tool_chunks [text_chunk ChunkText x] = []" "text_of [text_chunk ChunkText x] = x"
  "tool_chunks [] = []" "text_of [] = []" "call_chunks [text_chunk ChunkText x] = []" "call_chunks [] = []"
  by (simp_all add: tool_chunks_def text_of_def call_chunks_def)

lemma contextWarning_type: "contextWarning t m u = Some c \<Longrightarrow> ch_Type c = ChunkWarn"
  by (auto simp: contextWarning_def Let_def zero_Chunk_def split: option.splits if_splits)

definition event_calls :: "sse_data \<Rightarrow> sse_call list" where
  "event_calls sr = (case sr_Choices sr of [] \<Rightarrow> [] | d # _ \<Rightarrow> sd_ToolCalls d)"

definition event_content :: "sse_data \<Rightarrow> string" where
  "event_content sr = (case sr_Choices sr of [] \<Rightarrow> [] | d # _ \<Rightarrow> sd_Content d)"

definition finishing :: "sse_data \<Rightarrow> bool" where
  "finishing sr = (case sr_Choices sr of [] \<Rightarrow> False
     | d # _ \<Rightarrow> sd_FinishReason d \<noteq> None \<and> sd_FinishReason d \<noteq> Some [])"

lemma usage_step_live:
  assumes "live cfg"
  shows "\<exists>cs. rs_out (usage_step cfg s u) = rs_out s @ cs \<and> (\<forall>c \<in> set cs. ch_Type c \<in> {ChunkUsage, ChunkWarn})
     \<and> calls_inv (usage_step cfg s u) = calls_inv s \<and> rs_think (usage_step cfg s u) = rs_think s
     \<and> rs_started (usage_step cfg s u) = rs_started s"
  using assms
  by (auto simp: usage_step_def sendChunk_def live_def deliver_def send_def calls_inv_def fun_eq_iff Let_def
      dest: contextWarning_type split: option.splits)

definition plain_types :: "Chunk list \<Rightarrow> bool" where
  "plain_types cs \<longleftrightarrow> (\<forall>c \<in> set cs. ch_Type c \<in> {ChunkUsage, ChunkWarn, ChunkReasoning, ChunkToolCallStart})"

text \<open>No chunk that ends the stream for its reader.\<close>

definition no_end :: "Chunk list \<Rightarrow> bool" where
  "no_end cs \<longleftrightarrow> (\<forall>c \<in> set cs. ch_Type c \<noteq> ChunkDone \<and> ch_Type c \<noteq> ChunkError)"

lemma no_end_simps [simp]:
  "no_end (xs @ ys) \<longleftrightarrow> no_end xs \<and> no_end ys" "no_end []" "no_end [text_chunk ChunkText x]"
  by (auto simp: no_end_def)

lemma plain_no_end: "plain_types cs \<Longrightarrow> no_end cs"
  by (auto simp: plain_types_def no_end_def)

lemma plain_types_none: "plain_types cs \<Longrightarrow> tool_chunks cs = [] \<and> text_of cs = []"
  by (auto simp: plain_types_def tool_chunks_def text_of_def filter_empty_conv concat_eq_Nil_conv) 

text \<open>Everything \<open>process_choice\<close> does before it looks at the finish reason.\<close>

lemma choice_body_live:
  assumes "live cfg" and "calls_inv s fs" and "sf_vendor cfg \<noteq> VendorMiniMax"
  shows "\<exists>s4 pre post. calls_inv s4 (fs @ sd_ToolCalls d) \<and> rs_think s4 = rs_think s
     \<and> rs_out s4 = rs_out s @ pre @ (if sd_Content d = [] then [] else [text_chunk ChunkText (sd_Content d)]) @ post
     \<and> plain_types pre \<and> plain_types post \<and> call_chunks pre = []
     \<and> (started_inv s fs \<and> named_first fs (sd_ToolCalls d) \<longrightarrow>
          started_inv s4 (fs @ sd_ToolCalls d) \<and> post = starts_of fs (sd_ToolCalls d))
     \<and> process_choice cfg s d =
         (if sd_FinishReason d \<noteq> None \<and> sd_FinishReason d \<noteq> Some [] then finish_step cfg s4 else (s4, False, None))"
proof -
  let ?cs = "if sd_Content d = [] then [] else [text_chunk ChunkText (sd_Content d)]"
  let ?s3 = "deliver ?cs (deliver (reasoning_chunks d) s)"
  have "calls_inv ?s3 fs" using assms(2) by simp
  from calls_loop_live [OF assms(1) this, of "sd_ToolCalls d"] obtain s4 starts where
    l: "calls_loop cfg ?s3 (sd_ToolCalls d) = (s4, True)" "calls_inv s4 (fs @ sd_ToolCalls d)"
      "rs_think s4 = rs_think ?s3" "rs_out s4 = rs_out ?s3 @ starts"
      "\<forall>c \<in> set starts. ch_Type c = ChunkToolCallStart"
      "started_inv ?s3 fs \<and> named_first fs (sd_ToolCalls d) \<longrightarrow>
         started_inv s4 (fs @ sd_ToolCalls d) \<and> starts = starts_of fs (sd_ToolCalls d)" by blast
  have calls: "call_chunks (reasoning_chunks d) = []" by (simp add: call_chunks_def reasoning_chunks_def Let_def)
  have pre: "plain_types (reasoning_chunks d)" by (simp add: plain_types_def reasoning_chunks_def Let_def)
  have post: "plain_types starts" using l(5) by (simp add: plain_types_def)
  have c: "content_chunks cfg (deliver (reasoning_chunks d) s) (sd_Content d) =
     (deliver (reasoning_chunks d) s, ?cs)"
    using assms(3) by (simp add: content_chunks_def)
  have "process_choice cfg s d =
      (if sd_FinishReason d \<noteq> None \<and> sd_FinishReason d \<noteq> Some [] then finish_step cfg s4 else (s4, False, None))"
    using assms(1) c l(1) by (simp add: process_choice_def)
  with l pre post calls show ?thesis by (intro exI [of _ s4] exI [of _ "reasoning_chunks d"] exI [of _ starts]) simp
qed

lemma process_event_live:
  assumes "live cfg" and "calls_inv s fs" and "sf_vendor cfg \<noteq> VendorMiniMax" and "sr_Error sr = None"
  shows "\<exists>s4 cs. calls_inv s4 (fs @ event_calls sr) \<and> rs_think s4 = rs_think s \<and> rs_out s4 = rs_out s @ cs
     \<and> tool_chunks cs = [] \<and> text_of cs = event_content sr \<and> no_end cs
     \<and> (started_inv s fs \<and> named_first fs (event_calls sr) \<longrightarrow>
          started_inv s4 (fs @ event_calls sr) \<and> call_chunks cs = starts_of fs (event_calls sr))
     \<and> process_event cfg s sr = (if finishing sr then finish_step cfg s4 else (s4, False, None))"
proof -
  obtain s1 us where u: "s1 = (case sr_Usage sr of Some u \<Rightarrow> usage_step cfg s u | None \<Rightarrow> s)"
    "rs_out s1 = rs_out s @ us" "plain_types us" "calls_inv s1 fs" "rs_think s1 = rs_think s"
    "rs_started s1 = rs_started s" "call_chunks us = []"
  proof (cases "sr_Usage sr")
    case None
    then show ?thesis using assms(2) that [of s "[]"] by (simp add: plain_types_def call_chunks_def)
  next
    case (Some x)
    from usage_step_live [OF assms(1), of s x] obtain cs where
      c: "rs_out (usage_step cfg s x) = rs_out s @ cs" "\<forall>c \<in> set cs. ch_Type c \<in> {ChunkUsage, ChunkWarn}"
        "calls_inv (usage_step cfg s x) = calls_inv s" "rs_think (usage_step cfg s x) = rs_think s"
        "rs_started (usage_step cfg s x) = rs_started s" by blast
    then have "plain_types cs" "call_chunks cs = []" by (auto simp: plain_types_def call_chunks_def filter_empty_conv)
    with c assms(2) show ?thesis using that [of "usage_step cfg s x" cs] Some by simp
  qed
  show ?thesis
  proof (cases "sr_Choices sr")
    case Nil
    with u assms(4) plain_types_none [OF u(3)] plain_no_end [OF u(3)] show ?thesis
      by (intro exI [of _ s1] exI [of _ us])
         (simp add: process_event_def event_calls_def event_content_def finishing_def started_inv_def)
  next
    case (Cons d ds)
    from choice_body_live [OF assms(1) u(4) assms(3), of d] obtain s4 pre post where
      b: "calls_inv s4 (fs @ sd_ToolCalls d)" "rs_think s4 = rs_think s1"
        "rs_out s4 = rs_out s1 @ pre @ (if sd_Content d = [] then [] else [text_chunk ChunkText (sd_Content d)]) @ post"
        "plain_types pre" "plain_types post" "call_chunks pre = []"
        "started_inv s1 fs \<and> named_first fs (sd_ToolCalls d) \<longrightarrow>
          started_inv s4 (fs @ sd_ToolCalls d) \<and> post = starts_of fs (sd_ToolCalls d)"
        "process_choice cfg s1 d = (if sd_FinishReason d \<noteq> None \<and> sd_FinishReason d \<noteq> Some []
           then finish_step cfg s4 else (s4, False, None))" by blast
    let ?cs = "us @ pre @ (if sd_Content d = [] then [] else [text_chunk ChunkText (sd_Content d)]) @ post"
    have t: "tool_chunks ?cs = []" "text_of ?cs = sd_Content d"
      using plain_types_none [OF u(3)] plain_types_none [OF b(4)] plain_types_none [OF b(5)]
      by (simp_all add: chunks_of_text)
    have ne: "no_end ?cs" using plain_no_end [OF u(3)] plain_no_end [OF b(4)] plain_no_end [OF b(5)] by simp
    have "process_event cfg s sr = (if finishing sr then finish_step cfg s4 else (s4, False, None))"
      using assms(4) u(1) Cons b(8) by (simp add: process_event_def finishing_def)
    moreover have "started_inv s4 (fs @ sd_ToolCalls d) \<and> call_chunks ?cs = starts_of fs (sd_ToolCalls d)"
      if "started_inv s fs" "named_first fs (sd_ToolCalls d)"
    proof -
      have "started_inv s1 fs" using that(1) u(6) by (simp add: started_inv_def)
      with b(7) that(2) have "started_inv s4 (fs @ sd_ToolCalls d)" "post = starts_of fs (sd_ToolCalls d)" by auto
      with b(6) u(7) show ?thesis by (simp add: chunks_of_text)
    qed
    ultimately show ?thesis using u b t ne Cons
      by (intro exI [of _ s4] exI [of _ ?cs]) (simp add: event_calls_def event_content_def)
  qed
qed

fun run_events :: "stream_cfg \<Rightarrow> readStreamState \<Rightarrow> sse_data list \<Rightarrow> readStreamState" where
  "run_events cfg s [] = s"
| "run_events cfg s (e # es) = run_events cfg (fst (process_event cfg s e)) es"

lemma run_events_live:
  assumes "live cfg" and "calls_inv s fs" and "sf_vendor cfg \<noteq> VendorMiniMax"
    and "\<forall>e \<in> set es. sr_Error e = None \<and> \<not> finishing e"
  shows "calls_inv (run_events cfg s es) (fs @ concat (map event_calls es))
     \<and> rs_think (run_events cfg s es) = rs_think s
     \<and> tool_chunks (rs_out (run_events cfg s es)) = tool_chunks (rs_out s)
     \<and> text_of (rs_out (run_events cfg s es)) = text_of (rs_out s) @ concat (map event_content es)
     \<and> no_end (rs_out (run_events cfg s es)) = no_end (rs_out s)
     \<and> (started_inv s fs \<and> named_first fs (concat (map event_calls es)) \<longrightarrow>
          started_inv (run_events cfg s es) (fs @ concat (map event_calls es))
          \<and> call_chunks (rs_out (run_events cfg s es)) = call_chunks (rs_out s) @ starts_of fs (concat (map event_calls es)))"
  using assms(2,4)
proof (induction es arbitrary: s fs)
  case (Cons e es)
  from Cons.prems(2) have e: "sr_Error e = None" "\<not> finishing e" by auto
  from process_event_live [OF assms(1) Cons.prems(1) assms(3) e(1)] e(2) obtain s4 cs where
    p: "calls_inv s4 (fs @ event_calls e)" "rs_think s4 = rs_think s" "rs_out s4 = rs_out s @ cs"
      "tool_chunks cs = []" "text_of cs = event_content e" "no_end cs"
      "started_inv s fs \<and> named_first fs (event_calls e) \<longrightarrow>
          started_inv s4 (fs @ event_calls e) \<and> call_chunks cs = starts_of fs (event_calls e)"
      "process_event cfg s e = (s4, False, None)" by auto
  have "\<forall>e \<in> set es. sr_Error e = None \<and> \<not> finishing e" using Cons.prems(2) by simp
  from Cons.IH [OF p(1) this] p show ?case by (auto simp: named_first_append starts_of_append)
qed simp

lemma finish_step_live:
  assumes "live cfg" and "calls_inv s fs" and "rs_think s = think_init"
  shows "\<exists>s'. finish_step cfg s = (s', True, None)
     \<and> rs_out s' = rs_out s @ map (\<lambda>i. call_chunk ChunkToolCall (final_call i (merged fs i))) (first_seen (map d_Index fs))
         @ [zero_Chunk ChunkDone]"
proof -
  let ?s1 = "s\<lparr>rs_think := think_init\<rparr>"
  have fl: "flush (rs_think s) = (think_init, [], [])" using assms(3) by (simp add: flush_def think_init_def)
  have order: "rs_order ?s1 = first_seen (map d_Index fs)" using assms(2) by (simp add: calls_inv_def)
  have acc: "i \<in> set (rs_order ?s1) \<Longrightarrow> rs_acc ?s1 i = Some (merged fs i)" for i
    using assms(2) by (simp add: calls_inv_def)
  have dist: "distinct (rs_order ?s1)" using order by simp
  have some: "\<forall>i \<in> set (rs_order ?s1). rs_acc ?s1 i \<noteq> None" using acc by auto
  from finish_loop_live [OF assms(1) dist some] obtain s2 where
    l: "finish_loop cfg ?s1 (rs_order ?s1) = (s2, True)"
      "rs_out s2 = rs_out ?s1 @ map (\<lambda>i. call_chunk ChunkToolCall (final_call i (the (rs_acc ?s1 i)))) (rs_order ?s1)"
    by blast
  have "map (\<lambda>i. call_chunk ChunkToolCall (final_call i (the (rs_acc ?s1 i)))) (rs_order ?s1) =
        map (\<lambda>i. call_chunk ChunkToolCall (final_call i (merged fs i))) (rs_order ?s1)"
    using acc by (intro map_cong) auto
  with l order fl assms(1) show ?thesis by (simp add: finish_step_def)
qed

lemma starts_of_first_seen:
  "starts_of [] fs = map (\<lambda>i. start_chunk (hd (fragments_of i fs))) (first_seen (map d_Index fs))"
proof (induction fs rule: rev_induct)
  case Nil
  show ?case by (simp add: first_seen_def)
next
  case (snoc x fs)
  have old: "hd (fragments_of i (fs @ [x])) = hd (fragments_of i fs)" if "i \<in> set (map d_Index fs)" for i
  proof -
    have "fragments_of i fs \<noteq> []" using that by (auto simp: fragments_of_def filter_empty_conv)
    then show ?thesis by (simp add: fragments_of_def)
  qed
  have new: "d_Index x \<notin> set (map d_Index fs) \<Longrightarrow> fragments_of (d_Index x) (fs @ [x]) = [x]"
    by (auto simp: fragments_of_def filter_empty_conv image_iff)
  show ?case
    using snoc.IH old new by (auto simp: starts_of_append first_seen_snoc)
qed

text \<open>A whole answer: what has been delivered when the finishing event has been processed.\<close>

lemma complete_stream_live:
  assumes "live cfg" and "sf_vendor cfg \<noteq> VendorMiniMax"
    and "\<forall>e \<in> set es. sr_Error e = None \<and> \<not> finishing e" and "sr_Error fin = None" and "finishing fin"
    and "named_first [] (concat (map event_calls (es @ [fin])))"
  shows "\<exists>s' body. process_event cfg (run_events cfg (rs_init [] 0 us) es) fin = (s', True, None)
    \<and> rs_out s' = body @ map (\<lambda>i. call_chunk ChunkToolCall (final_call i (merged (concat (map event_calls (es @ [fin]))) i)))
          (first_seen (map d_Index (concat (map event_calls (es @ [fin]))))) @ [zero_Chunk ChunkDone]
    \<and> no_end body \<and> text_of body = concat (map event_content (es @ [fin]))
    \<and> call_chunks body = starts_of [] (concat (map event_calls (es @ [fin])))"
proof -
  let ?s0 = "rs_init [] 0 us" and ?fs = "concat (map event_calls (es @ [fin]))"
  have i: "calls_inv ?s0 []" "started_inv ?s0 []"
    by (simp_all add: calls_inv_def started_inv_def rs_init_def first_seen_def)
  note run = run_events_live [OF assms(1) i(1) assms(2,3)]
  let ?s1 = "run_events cfg ?s0 es"
  have nf: "named_first [] (concat (map event_calls es))" "named_first (concat (map event_calls es)) (event_calls fin)"
    using assms(6) by (auto simp: named_first_append)
  have r: "calls_inv ?s1 (concat (map event_calls es))" "rs_think ?s1 = think_init" "no_end (rs_out ?s1)"
    "text_of (rs_out ?s1) = concat (map event_content es)" "started_inv ?s1 (concat (map event_calls es))"
    "call_chunks (rs_out ?s1) = starts_of [] (concat (map event_calls es))"
    using run i nf by (auto simp: rs_init_def chunks_of_text)
  from process_event_live [OF assms(1) r(1) assms(2,4)] r(5) nf(2) assms(5) obtain s4 cs where
    p: "calls_inv s4 ?fs" "rs_think s4 = rs_think ?s1" "rs_out s4 = rs_out ?s1 @ cs" "no_end cs"
      "text_of cs = event_content fin" "call_chunks cs = starts_of (concat (map event_calls es)) (event_calls fin)"
      "process_event cfg ?s1 fin = finish_step cfg s4" by auto
  have "rs_think s4 = think_init" using p(2) r(2) by simp
  from finish_step_live [OF assms(1) p(1) this] obtain s' where
    f: "finish_step cfg s4 = (s', True, None)"
      "rs_out s' = rs_out s4 @ map (\<lambda>i. call_chunk ChunkToolCall (final_call i (merged ?fs i))) (first_seen (map d_Index ?fs))
         @ [zero_Chunk ChunkDone]" by blast
  show ?thesis
    using f p r by (intro exI [of _ s'] exI [of _ "rs_out s4"]) (simp add: starts_of_append)
qed

subsection \<open>Properties\<close>


definition sample_cfg :: stream_cfg where
  "sample_cfg = \<lparr>sf_vendor = VendorQwen, sf_model = ''m'', sf_telemetry = NewTelemetry,
     sf_accept = (\<lambda>_. True), sf_ctxErr = ErrCanceled\<rparr>"

definition sample_event :: "sse_call list \<Rightarrow> string option \<Rightarrow> sse_data" where
  "sample_event tcs fr = \<lparr>sr_Choices = [\<lparr>sd_Content = [], sd_ReasoningContent = [], sd_Reasoning = [],
     sd_ToolCalls = tcs, sd_FinishReason = fr\<rparr>], sr_Usage = None, sr_Error = None\<rparr>"


text \<open>The visible text is delivered without loss or reordering: for a live consumer and a vendor
  without inline reasoning, the text chunks emitted by any sequence of non-final events concatenate to
  the concatenation of the events' content deltas.\<close>

theorem stream_text_exact:
  assumes "live cfg" and "sf_vendor cfg \<noteq> VendorMiniMax"
    and "\<forall>e \<in> set es. sr_Error e = None \<and> \<not> finishing e"
  shows "text_of (rs_out (run_events cfg (rs_init [] 0 None) es)) = concat (map event_content es)"
proof -
  have "calls_inv (rs_init [] 0 None) []" by (simp add: calls_inv_def rs_init_def first_seen_def)
  from run_events_live [OF assms(1) this assms(2,3)] show ?thesis by (simp add: rs_init_def text_of_def)
qed

theorem stream_text_exact_witness:
  "text_of (rs_out (run_events sample_cfg (rs_init [] 0 None) [sample_event [] None])) = []"
proof -
  have "live sample_cfg" "sf_vendor sample_cfg \<noteq> VendorMiniMax"
    "\<forall>e \<in> set [sample_event [] None]. sr_Error e = None \<and> \<not> finishing e"
    by (simp_all add: live_def sample_cfg_def sample_event_def finishing_def)
  from stream_text_exact [OF this] show ?thesis by (simp add: event_content_def sample_event_def)
qed

text \<open>A response ends with its finish reason: once a data line carries one, readStream returns
  without reading further lines, so a usage report that the server sends after it (as the request's
  include_usage option asks for) is never seen.\<close>

theorem finish_ends_reading:
  assumes "live cfg" and "HasPrefix (TrimSpace l) ''data:''"
    and "TrimSpace (TrimPrefix (TrimSpace l) ''data:'') \<noteq> ''[DONE]''"
    and "unmarshal (TrimSpace (TrimPrefix (TrimSpace l) ''data:'')) = Some sr"
    and "sr_Error sr = None" and "finishing sr" and "calls_inv s fs" and "rs_think s = think_init"
    and "sf_vendor cfg \<noteq> VendorMiniMax"
  shows "readStream cfg unmarshal s (l # ls) scanErr stalled = readStream cfg unmarshal s [l] None False
    \<and> snd (readStream cfg unmarshal s (l # ls) scanErr stalled) = None"
proof -
  from process_event_live [OF assms(1,7,9,5)] obtain s4 where
    p: "calls_inv s4 (fs @ event_calls sr)" "rs_think s4 = rs_think s"
      "process_event cfg s sr = (if finishing sr then finish_step cfg s4 else (s4, False, None))" by blast
  have "rs_think s4 = think_init" using p(2) assms(8) by simp
  from finish_step_live [OF assms(1) p(1) this] obtain s' where "finish_step cfg s4 = (s', True, None)" by blast
  with p(3) assms(6) have e: "process_event cfg s sr = (s', True, None)" by simp
  have ne: "TrimSpace l \<noteq> []" using assms(2) by auto
  show ?thesis using assms(2-4) e ne by (simp add: readStream_def processSSEData_def Let_def)
qed

theorem finish_ends_reading_witness:
  "snd (readStream sample_cfg (\<lambda>_. Some (sample_event [] (Some ''stop''))) (rs_init [] 0 None)
     [''data: {}'', ''data: usage''] None False) = None"
proof -
  have "live sample_cfg" "HasPrefix (TrimSpace ''data: {}'') ''data:''"
    "TrimSpace (TrimPrefix (TrimSpace ''data: {}'') ''data:'') \<noteq> ''[DONE]''"
    "(\<lambda>_. Some (sample_event [] (Some ''stop''))) (TrimSpace (TrimPrefix (TrimSpace ''data: {}'') ''data:'')) =
       Some (sample_event [] (Some ''stop''))"
    "sr_Error (sample_event [] (Some ''stop'')) = None" "finishing (sample_event [] (Some ''stop''))"
    "calls_inv (rs_init [] 0 None) []" "rs_think (rs_init [] 0 None) = think_init"
    "sf_vendor sample_cfg \<noteq> VendorMiniMax"
    by (simp_all add: live_def sample_cfg_def sample_event_def finishing_def calls_inv_def rs_init_def first_seen_def)
       code_simp+
  from finish_ends_reading [OF this] show ?thesis by blast
qed

end
