(* ===== verification/Chain.thy ===== *)
theory Chain
  imports Types
begin

section \<open>Lifecycle hooks and middleware (protocol/hooks.go, internal/adk/middleware)\<close>

text \<open>
  Three registries of the program run a list of callbacks in order, each of which may rewrite the
  value it is given or stop the run with an error: the lifecycle hooks around a model call, the
  middlewares around the agent's model and tools, and the interceptors around a shell command.
  Their common contract is the locale \<open>fallible_chain\<close>. Callbacks belong to the
  application: they are arguments, and a state of type \<open>'s\<close>, the world they act on, is threaded
  through every call so that the order of effects is visible.
\<close>

subsection \<open>The contract of a chain\<close>

locale fallible_chain =
  fixes step :: "'h \<Rightarrow> 's \<Rightarrow> 'a \<Rightarrow> 's \<times> ('e + 'a)"
    and run :: "'h list \<Rightarrow> 's \<Rightarrow> 'a \<Rightarrow> 's \<times> ('e + 'a)"
  assumes run_Nil: "run [] s a = (s, Inr a)"
    and run_Cons: "run (h # hs) s a =
      (case step h s a of (s1, r) \<Rightarrow> (case r of Inl e \<Rightarrow> (s1, Inl e) | Inr b \<Rightarrow> run hs s1 b))"
begin

lemma run_append:
  "run (hs @ ks) s a = (case run hs s a of (s1, r) \<Rightarrow> (case r of Inl e \<Rightarrow> (s1, Inl e) | Inr b \<Rightarrow> run ks s1 b))"
  by (induction hs arbitrary: s a) (auto simp: run_Nil run_Cons split: prod.splits sum.splits)

lemma run_error_iff:
  "run hs s a = (s', Inl e) \<longleftrightarrow>
     (\<exists>pre h post s1 b. hs = pre @ h # post \<and> run pre s a = (s1, Inr b) \<and> step h s1 b = (s', Inl e))"
proof (induction hs arbitrary: s a)
  case Nil
  then show ?case by (simp add: run_Nil)
next
  case (Cons k hs)
  obtain s1 r where st: "step k s a = (s1, r)" by fastforce
  show ?case
  proof (cases r)
    case (Inl x)
    have "run (k # hs) s a = (s1, Inl x)" using st Inl by (simp add: run_Cons)
    moreover have "(\<exists>pre h post s2 b. k # hs = pre @ h # post \<and> run pre s a = (s2, Inr b) \<and> step h s2 b = (s', Inl e))
      \<longleftrightarrow> s1 = s' \<and> x = e" (is "?L \<longleftrightarrow> _")
    proof
      assume ?L
      then obtain pre h post s2 b where p: "k # hs = pre @ h # post" "run pre s a = (s2, Inr b)" "step h s2 b = (s', Inl e)"
        by blast
      then show "s1 = s' \<and> x = e"
        using st Inl by (cases pre) (auto simp: run_Nil run_Cons)
    next
      assume "s1 = s' \<and> x = e"
      then show ?L using st Inl by (intro exI [of _ "[]"] exI [of _ k] exI [of _ hs] exI [of _ s] exI [of _ a]) (simp add: run_Nil)
    qed
    ultimately show ?thesis by auto
  next
    case (Inr b)
    have eq: "run (k # hs) s a = run hs s1 b" using st Inr by (simp add: run_Cons)
    have "(\<exists>pre h post s2 c. k # hs = pre @ h # post \<and> run pre s a = (s2, Inr c) \<and> step h s2 c = (s', Inl e))
      \<longleftrightarrow> (\<exists>pre h post s2 c. hs = pre @ h # post \<and> run pre s1 b = (s2, Inr c) \<and> step h s2 c = (s', Inl e))"
      (is "?L \<longleftrightarrow> ?R")
    proof
      assume ?L
      then obtain pre h post s2 c where p: "k # hs = pre @ h # post" "run pre s a = (s2, Inr c)" "step h s2 c = (s', Inl e)"
        by blast
      then show ?R using st Inr by (cases pre) (auto simp: run_Nil run_Cons)
    next
      assume ?R
      then obtain pre h post s2 c where p: "hs = pre @ h # post" "run pre s1 b = (s2, Inr c)" "step h s2 c = (s', Inl e)"
        by blast
      then show ?L using st Inr
        by (intro exI [of _ "k # pre"] exI [of _ h] exI [of _ post] exI [of _ s2] exI [of _ c]) (simp add: run_Cons)
    qed
    with eq Cons.IH [of s1 b] show ?thesis by simp
  qed
qed

lemma run_invariant:
  assumes "\<And>h s a s1 b. h \<in> set hs \<Longrightarrow> P s a \<Longrightarrow> step h s a = (s1, Inr b) \<Longrightarrow> P s1 b"
    and "P s a" and "run hs s a = (s', Inr b)"
  shows "P s' b"
  using assms
proof (induction hs arbitrary: s a)
  case (Cons h hs)
  obtain s1 c where st: "step h s a = (s1, Inr c)" and r: "run hs s1 c = (s', Inr b)"
    using Cons.prems(3) by (auto simp: run_Cons split: prod.splits sum.splits)
  have p: "P s1 c" using Cons.prems(1) [OF _ Cons.prems(2) st] by simp
  have "\<And>h' s a s1 b. h' \<in> set hs \<Longrightarrow> P s a \<Longrightarrow> step h' s a = (s1, Inr b) \<Longrightarrow> P s1 b"
    using Cons.prems(1) by (meson list.set_intros(2))
  from Cons.IH [OF this p r] show ?case .
qed (auto simp: run_Nil)

end

subsection \<open>Lifecycle hooks (protocol/hooks.go)\<close>

record Request =
  rq_Model :: string
  rq_Messages :: "Message list"
  rq_Tools :: "ToolSchema list"
  rq_Temperature :: "64 word option"
  rq_TopP :: "64 word option"
  rq_MaxTokens :: "int option"
  rq_Stop :: "string list"

text \<open>A Go result \<open>(*T, error)\<close> is a pair of options: a nil pointer and a nil error are \<open>None\<close>.\<close>

record 's LifecycleHook =
  lh_name :: string
  lh_beforeFn :: "('s \<Rightarrow> Request \<Rightarrow> 's \<times> Request option \<times> gerror option) option"
  lh_afterFn :: "('s \<Rightarrow> Request \<Rightarrow> Response \<Rightarrow> 's \<times> Response option \<times> gerror option) option"
  lh_onErrorFn :: "('s \<Rightarrow> Request \<Rightarrow> gerror \<Rightarrow> 's \<times> gerror option) option"

definition NewLifecycleHook :: "string \<Rightarrow> 's LifecycleHook" where
  "NewLifecycleHook name = \<lparr>lh_name = name, lh_beforeFn = None, lh_afterFn = None, lh_onErrorFn = None\<rparr>"

definition SetBefore :: "'s LifecycleHook \<Rightarrow> ('s \<Rightarrow> Request \<Rightarrow> 's \<times> Request option \<times> gerror option) option \<Rightarrow> 's LifecycleHook" where
  "SetBefore h fn = h\<lparr>lh_beforeFn := fn\<rparr>"

definition SetAfter :: "'s LifecycleHook \<Rightarrow> ('s \<Rightarrow> Request \<Rightarrow> Response \<Rightarrow> 's \<times> Response option \<times> gerror option) option \<Rightarrow> 's LifecycleHook" where
  "SetAfter h fn = h\<lparr>lh_afterFn := fn\<rparr>"

definition SetOnError :: "'s LifecycleHook \<Rightarrow> ('s \<Rightarrow> Request \<Rightarrow> gerror \<Rightarrow> 's \<times> gerror option) option \<Rightarrow> 's LifecycleHook" where
  "SetOnError h fn = h\<lparr>lh_onErrorFn := fn\<rparr>"

definition BeforeProcess :: "'s LifecycleHook \<Rightarrow> 's \<Rightarrow> Request \<Rightarrow> 's \<times> Request option \<times> gerror option" where
  "BeforeProcess h s req = (case lh_beforeFn h of Some f \<Rightarrow> f s req | None \<Rightarrow> (s, Some req, None))"

definition AfterProcess :: "'s LifecycleHook \<Rightarrow> 's \<Rightarrow> Request \<Rightarrow> Response \<Rightarrow> 's \<times> Response option \<times> gerror option" where
  "AfterProcess h s req resp = (case lh_afterFn h of Some f \<Rightarrow> f s req resp | None \<Rightarrow> (s, Some resp, None))"

definition OnError :: "'s LifecycleHook \<Rightarrow> 's \<Rightarrow> Request \<Rightarrow> gerror \<Rightarrow> 's \<times> gerror option" where
  "OnError h s req err = (case lh_onErrorFn h of Some f \<Rightarrow> f s req err | None \<Rightarrow> (s, Some err))"

text \<open>A nil hook is not registered.\<close>

definition RegisterLifecycleHook :: "'s LifecycleHook list \<Rightarrow> 's LifecycleHook option \<Rightarrow> 's LifecycleHook list" where
  "RegisterLifecycleHook hooks h = (case h of None \<Rightarrow> hooks | Some k \<Rightarrow> hooks @ [k])"

definition ClearLifecycleHooks :: "'s LifecycleHook list \<Rightarrow> 's LifecycleHook list" where
  "ClearLifecycleHooks hooks = []"

definition nil_error :: "string \<Rightarrow> string \<Rightarrow> gerror" where
  "nil_error name what = ErrMsg (''lifecycle hook '' @ [CHR 0x22] @ name @ [CHR 0x22] @ '' returned nil '' @ what)"

fun RunBeforeProcessHooks :: "'s LifecycleHook list \<Rightarrow> 's \<Rightarrow> Request \<Rightarrow> 's \<times> (gerror + Request)" where
  "RunBeforeProcessHooks [] s req = (s, Inr req)"
| "RunBeforeProcessHooks (h # hs) s req =
     (case BeforeProcess h s req of (s1, r, err) \<Rightarrow>
        (case err of
           Some e \<Rightarrow> (s1, Inl e)
         | None \<Rightarrow> (case r of
             None \<Rightarrow> (s1, Inl (nil_error (lh_name h) ''request''))
           | Some req1 \<Rightarrow> RunBeforeProcessHooks hs s1 req1)))"

fun RunAfterProcessHooks :: "Request \<Rightarrow> 's LifecycleHook list \<Rightarrow> 's \<Rightarrow> Response \<Rightarrow> 's \<times> (gerror + Response)" where
  "RunAfterProcessHooks req [] s resp = (s, Inr resp)"
| "RunAfterProcessHooks req (h # hs) s resp =
     (case AfterProcess h s req resp of (s1, r, err) \<Rightarrow>
        (case err of
           Some e \<Rightarrow> (s1, Inl e)
         | None \<Rightarrow> (case r of
             None \<Rightarrow> (s1, Inl (nil_error (lh_name h) ''response''))
           | Some resp1 \<Rightarrow> RunAfterProcessHooks req hs s1 resp1)))"

fun RunOnErrorHooks :: "'s LifecycleHook list \<Rightarrow> 's \<Rightarrow> Request \<Rightarrow> gerror \<Rightarrow> 's \<times> gerror" where
  "RunOnErrorHooks [] s req err = (s, err)"
| "RunOnErrorHooks (h # hs) s req err = RunOnErrorHooks hs (fst (OnError h s req err)) req err"

text \<open>What one hook contributes, with the nil check of the loop.\<close>

definition before_step :: "'s LifecycleHook \<Rightarrow> 's \<Rightarrow> Request \<Rightarrow> 's \<times> (gerror + Request)" where
  "before_step h s req = (case BeforeProcess h s req of (s1, r, err) \<Rightarrow>
     (s1, case err of Some e \<Rightarrow> Inl e
          | None \<Rightarrow> (case r of None \<Rightarrow> Inl (nil_error (lh_name h) ''request'') | Some q \<Rightarrow> Inr q)))"

definition after_step :: "Request \<Rightarrow> 's LifecycleHook \<Rightarrow> 's \<Rightarrow> Response \<Rightarrow> 's \<times> (gerror + Response)" where
  "after_step req h s resp = (case AfterProcess h s req resp of (s1, r, err) \<Rightarrow>
     (s1, case err of Some e \<Rightarrow> Inl e
          | None \<Rightarrow> (case r of None \<Rightarrow> Inl (nil_error (lh_name h) ''response'') | Some q \<Rightarrow> Inr q)))"

interpretation before_hooks: fallible_chain before_step RunBeforeProcessHooks
  by unfold_locales (auto simp: before_step_def split: prod.splits option.splits)

interpretation after_hooks: fallible_chain "after_step req" "RunAfterProcessHooks req" for req
  by unfold_locales (auto simp: after_step_def split: prod.splits option.splits)

lemma RunOnErrorHooks_value [simp]: "snd (RunOnErrorHooks hs s req err) = err"
  by (induction hs arbitrary: s) auto

lemma RunOnErrorHooks_all: "fst (RunOnErrorHooks hs s req err) = foldl (\<lambda>s h. fst (OnError h s req err)) s hs"
  by (induction hs arbitrary: s) auto

end
