(* ===== verification/Middleware.thy ===== *)
theory Middleware
  imports Chain
begin

section \<open>Middleware around the agent's model and tools (internal/adk/middleware)\<close>

text \<open>
  A middleware rewrites requests on the way in and responses on the way out. The message type of
  \<open>internal/adk/types\<close> has the same fields as the protocol's, so \<open>Message\<close> is used for both; a
  message pointer may be nil. The chain passes pointers on without looking at them, so a callback
  that returns a nil request hands nil to the next one.
\<close>

record ModelRequest =
  mr_Messages :: "Message option list"
  mr_Tools :: "string list"
  mr_SessionID :: string

record ModelResponse =
  mp_Messages :: "Message option list"
  mp_Stats :: string

record mw_ToolCall =
  mc_Name :: string
  mc_Arguments :: string
  mc_ToolID :: string

record mw_ToolResult =
  mt_Name :: string
  mt_Result :: string
  mt_Error :: "gerror option"
  mt_ToolID :: string

record 's MiddlewareFuncs =
  BeforeModelFn :: "('s \<Rightarrow> ModelRequest option \<Rightarrow> 's \<times> ModelRequest option \<times> gerror option) option"
  AfterModelFn :: "('s \<Rightarrow> ModelRequest option \<Rightarrow> ModelResponse option \<Rightarrow> 's \<times> ModelResponse option \<times> gerror option) option"
  BeforeToolFn :: "('s \<Rightarrow> mw_ToolCall option \<Rightarrow> 's \<times> mw_ToolCall option \<times> gerror option) option"
  AfterToolFn :: "('s \<Rightarrow> mw_ToolCall option \<Rightarrow> mw_ToolResult option \<Rightarrow> 's \<times> mw_ToolResult option \<times> gerror option) option"

definition BeforeModel :: "'s MiddlewareFuncs \<Rightarrow> 's \<Rightarrow> ModelRequest option \<Rightarrow> 's \<times> ModelRequest option \<times> gerror option" where
  "BeforeModel m s req = (case BeforeModelFn m of None \<Rightarrow> (s, req, None) | Some f \<Rightarrow> f s req)"

definition AfterModel :: "'s MiddlewareFuncs \<Rightarrow> 's \<Rightarrow> ModelRequest option \<Rightarrow> ModelResponse option \<Rightarrow>
    's \<times> ModelResponse option \<times> gerror option" where
  "AfterModel m s req resp = (case AfterModelFn m of None \<Rightarrow> (s, resp, None) | Some f \<Rightarrow> f s req resp)"

definition BeforeTool :: "'s MiddlewareFuncs \<Rightarrow> 's \<Rightarrow> mw_ToolCall option \<Rightarrow> 's \<times> mw_ToolCall option \<times> gerror option" where
  "BeforeTool m s call = (case BeforeToolFn m of None \<Rightarrow> (s, call, None) | Some f \<Rightarrow> f s call)"

definition AfterTool :: "'s MiddlewareFuncs \<Rightarrow> 's \<Rightarrow> mw_ToolCall option \<Rightarrow> mw_ToolResult option \<Rightarrow>
    's \<times> mw_ToolResult option \<times> gerror option" where
  "AfterTool m s call result = (case AfterToolFn m of None \<Rightarrow> (s, result, None) | Some f \<Rightarrow> f s call result)"

definition chain_Use :: "'s MiddlewareFuncs list \<Rightarrow> 's MiddlewareFuncs \<Rightarrow> 's MiddlewareFuncs list" where
  "chain_Use mws mw = mws @ [mw]"

subsection \<open>The two loops and the chain\<close>

fun before_loop :: "('m \<Rightarrow> 's \<Rightarrow> 'q \<Rightarrow> 's \<times> 'q \<times> gerror option) \<Rightarrow> 'm list \<Rightarrow> 's \<Rightarrow> 'q \<Rightarrow> 's \<times> (gerror + 'q)" where
  "before_loop f [] s req = (s, Inr req)"
| "before_loop f (m # ms) s req = (case f m s req of (s1, req1, err) \<Rightarrow>
     (case err of Some e \<Rightarrow> (s1, Inl e) | None \<Rightarrow> before_loop f ms s1 req1))"

fun after_loop :: "('m \<Rightarrow> 's \<Rightarrow> 'q \<Rightarrow> 'r \<Rightarrow> 's \<times> 'r \<times> gerror option) \<Rightarrow> 'q \<Rightarrow> 'm list \<Rightarrow> 's \<Rightarrow> 'r \<Rightarrow> 's \<times> (gerror + 'r)" where
  "after_loop f req [] s resp = (s, Inr resp)"
| "after_loop f req (m # ms) s resp = (case f m s req resp of (s1, resp1, err) \<Rightarrow>
     (case err of Some e \<Rightarrow> (s1, Inl e) | None \<Rightarrow> after_loop f req ms s1 resp1))"

text \<open>Both \<open>AroundModel\<close> and \<open>AroundTool\<close>: every before-callback in order, the call, then every
  after-callback in reverse order, all of them with the request the call was given.\<close>

definition around ::
  "('m \<Rightarrow> 's \<Rightarrow> 'q \<Rightarrow> 's \<times> 'q \<times> gerror option) \<Rightarrow> ('m \<Rightarrow> 's \<Rightarrow> 'q \<Rightarrow> 'r \<Rightarrow> 's \<times> 'r \<times> gerror option) \<Rightarrow>
   'm list \<Rightarrow> 's \<Rightarrow> 'q \<Rightarrow> ('s \<Rightarrow> 'q \<Rightarrow> 's \<times> 'r \<times> gerror option) \<Rightarrow> 's \<times> (gerror + 'r)" where
  "around bf af mws s req next_call =
     (case before_loop bf mws s req of (s1, r) \<Rightarrow>
        (case r of
           Inl e \<Rightarrow> (s1, Inl e)
         | Inr req1 \<Rightarrow> (case next_call s1 req1 of (s2, resp, err) \<Rightarrow>
             (case err of Some e \<Rightarrow> (s2, Inl e) | None \<Rightarrow> after_loop af req1 (rev mws) s2 resp))))"

definition AroundModel where "AroundModel = around BeforeModel AfterModel"
definition AroundTool where "AroundTool = around BeforeTool AfterTool"
definition BeforeModelChain where "BeforeModelChain = before_loop BeforeModel"

definition loop_step :: "('m \<Rightarrow> 's \<Rightarrow> 'q \<Rightarrow> 's \<times> 'q \<times> gerror option) \<Rightarrow> 'm \<Rightarrow> 's \<Rightarrow> 'q \<Rightarrow> 's \<times> (gerror + 'q)" where
  "loop_step f m s q = (case f m s q of (s1, q1, err) \<Rightarrow> (s1, case err of Some e \<Rightarrow> Inl e | None \<Rightarrow> Inr q1))"

interpretation before_chain: fallible_chain "loop_step f" "before_loop f" for f
  by unfold_locales (auto simp: loop_step_def split: prod.splits option.splits)

interpretation after_chain: fallible_chain "loop_step (\<lambda>m s. f m s req)" "after_loop f req" for f req
  by unfold_locales (auto simp: loop_step_def split: prod.splits option.splits)

subsection \<open>The nesting specification\<close>

text \<open>\<open>onion\<close> nests the middlewares: the first one is outermost. It also returns the request that
  reached the call.\<close>

fun onion ::
  "('m \<Rightarrow> 's \<Rightarrow> 'q \<Rightarrow> 's \<times> 'q \<times> gerror option) \<Rightarrow> ('m \<Rightarrow> 's \<Rightarrow> 'q \<Rightarrow> 'r \<Rightarrow> 's \<times> 'r \<times> gerror option) \<Rightarrow>
   'm list \<Rightarrow> 's \<Rightarrow> 'q \<Rightarrow> ('s \<Rightarrow> 'q \<Rightarrow> 's \<times> 'r \<times> gerror option) \<Rightarrow> 's \<times> (gerror + 'q \<times> 'r)" where
  "onion bf af [] s req next_call = (case next_call s req of (s1, resp, err) \<Rightarrow>
     (s1, case err of Some e \<Rightarrow> Inl e | None \<Rightarrow> Inr (req, resp)))"
| "onion bf af (m # ms) s req next_call = (case bf m s req of (s1, req1, err) \<Rightarrow>
     (case err of
        Some e \<Rightarrow> (s1, Inl e)
      | None \<Rightarrow> (case onion bf af ms s1 req1 next_call of (s2, r) \<Rightarrow>
          (case r of
             Inl e \<Rightarrow> (s2, Inl e)
           | Inr (q, resp) \<Rightarrow> (case af m s2 q resp of (s3, resp1, err1) \<Rightarrow>
               (s3, case err1 of Some e \<Rightarrow> Inl e | None \<Rightarrow> Inr (q, resp1)))))))"

definition drop_request :: "'s \<times> (gerror + 'q \<times> 'r) \<Rightarrow> 's \<times> (gerror + 'r)" where
  "drop_request x = (fst x, case snd x of Inl e \<Rightarrow> Inl e | Inr (q, r) \<Rightarrow> Inr r)"

lemma onion_around_gen:
  "onion bf af mws s req next_call =
     (case before_loop bf mws s req of (s1, r) \<Rightarrow>
        (case r of
           Inl e \<Rightarrow> (s1, Inl e)
         | Inr req1 \<Rightarrow> (case next_call s1 req1 of (s2, resp, err) \<Rightarrow>
             (case err of Some e \<Rightarrow> (s2, Inl e)
              | None \<Rightarrow> (case after_loop af req1 (rev mws) s2 resp of (s3, x) \<Rightarrow>
                  (s3, case x of Inl e \<Rightarrow> Inl e | Inr resp1 \<Rightarrow> Inr (req1, resp1)))))))"
proof (induction mws arbitrary: s req)
  case (Cons m ms)
  show ?case
    by (simp add: Cons.IH after_chain.run_append split: prod.splits sum.splits option.splits)
       (auto simp: after_chain.run_Nil)
qed (auto split: prod.splits option.splits)

subsection \<open>Properties\<close>

text \<open>The middleware chain is an onion: AroundModel and AroundTool run the callbacks as nested
  calls do, the first registered middleware outermost, and an error anywhere skips everything that
  would run later; every after-callback sees the request that reached the innermost call.\<close>

theorem around_is_onion:
  "AroundModel mws s req next_model = drop_request (onion BeforeModel AfterModel mws s req next_model)
   \<and> AroundTool mws s call next_tool = drop_request (onion BeforeTool AfterTool mws s call next_tool)"
  by (auto simp: AroundModel_def AroundTool_def around_def drop_request_def onion_around_gen
      split: prod.splits sum.splits option.splits)

text \<open>A middleware that rejects a request keeps it from the model: if a before-callback returns
  an error, the model is not called, no later callback runs, and the error is the result, both for
  the complete chain and for the request-only chain of the streaming path.\<close>

theorem before_error_stops:
  assumes "before_loop BeforeModel pre s req = (s1, Inr req1)" and "BeforeModel m s1 req1 = (s2, req2, Some e)"
  shows "AroundModel (pre @ m # post) s req next_model = (s2, Inl e)
    \<and> BeforeModelChain (pre @ m # post) s req = (s2, Inl e)"
  using assms
  by (simp add: AroundModel_def BeforeModelChain_def around_def before_chain.run_append)

definition deny_mw :: "nat MiddlewareFuncs" where
  "deny_mw = \<lparr>BeforeModelFn = Some (\<lambda>n q. (n + 1, q, Some (ErrMsg ''denied''))), AfterModelFn = None,
     BeforeToolFn = None, AfterToolFn = None\<rparr>"

definition count_mw :: "nat MiddlewareFuncs" where
  "count_mw = \<lparr>BeforeModelFn = Some (\<lambda>n q. (n + 10, q, None)), AfterModelFn = None,
     BeforeToolFn = None, AfterToolFn = None\<rparr>"

theorem before_error_stops_witness:
  "AroundModel [count_mw, deny_mw, count_mw] 0 None (\<lambda>n q. (n + 100, None, None)) = (11, Inl (ErrMsg ''denied''))"
proof -
  have "before_loop BeforeModel [count_mw] 0 None = (10, Inr None)"
    "BeforeModel deny_mw 10 None = (11, None, Some (ErrMsg ''denied''))"
    by (simp_all add: count_mw_def deny_mw_def BeforeModel_def)
  from before_error_stops [OF this, of "[count_mw]"] show ?thesis by simp
qed

end
