(* ===== verification/Regex.thy ===== *)
theory Regex
  imports Prelude "HOL-Library.Monad_Syntax"
begin

section \<open>Matching regular expressions\<close>

text \<open>
  The program's regular expressions are written out as functions from a text to the rest behind a match
  at its start. In each of them a greedy repetition is followed by a character outside its class, so that
  the matcher of package regexp never has to give back what a repetition took.
\<close>

definition re_space :: "char \<Rightarrow> bool" where
  "re_space c = (c \<in> set [CHR 0x09, CHR 0x0A, CHR 0x0C, CHR 0x0D, CHR '' ''])"

definition word_char :: "char \<Rightarrow> bool" where
  "word_char c = (is_digit c \<or> (CHR ''a'' \<le> c \<and> c \<le> CHR ''z'') \<or> (CHR ''A'' \<le> c \<and> c \<le> CHR ''Z'') \<or> c = CHR ''_'')"

text \<open>Consuming matchers: the rest of the input, or \<open>None\<close>.\<close>

fun m_digits :: "nat \<Rightarrow> string \<Rightarrow> string option" where
  "m_digits 0 s = Some s"
| "m_digits (Suc n) s = (case s of c # t \<Rightarrow> if is_digit c then m_digits n t else None | [] \<Rightarrow> None)"

definition m_in :: "char set \<Rightarrow> string \<Rightarrow> string option" where
  "m_in cs s = (case s of c # t \<Rightarrow> if c \<in> cs then Some t else None | [] \<Rightarrow> None)"

definition m_many1 :: "(char \<Rightarrow> bool) \<Rightarrow> string \<Rightarrow> string option" where
  "m_many1 p s = (case s of c # t \<Rightarrow> if p c then Some (dropWhile p t) else None | [] \<Rightarrow> None)"

definition m_lit :: "string \<Rightarrow> string \<Rightarrow> string option" where
  "m_lit p s = (if HasPrefix s p then Some (drop (length p) s) else None)"

definition m_opt :: "(string \<Rightarrow> string option) \<Rightarrow> string \<Rightarrow> string" where
  "m_opt f s = (case f s of Some t \<Rightarrow> t | None \<Rightarrow> s)"

text \<open>\<open>p{k,}\<close>: at least \<open>k\<close> characters, as many as there are.\<close>

definition m_atleast :: "nat \<Rightarrow> (char \<Rightarrow> bool) \<Rightarrow> string \<Rightarrow> string option" where
  "m_atleast k p s = (if k \<le> length (takeWhile p s) then Some (dropWhile p s) else None)"

text \<open>\<open>FindStringIndex\<close>: the leftmost match as its position and what follows it.\<close>

fun find_match :: "(string \<Rightarrow> string option) \<Rightarrow> nat \<Rightarrow> string \<Rightarrow> (nat \<times> string) option" where
  "find_match m i [] = map_option (Pair i) (m [])"
| "find_match m i (c # s) = (case m (c # s) of Some t \<Rightarrow> Some (i, t) | None \<Rightarrow> find_match m (Suc i) s)"

text \<open>\<open>ReplaceAllStringFunc\<close> for a pattern that matches no empty text.\<close>

function replace_matches :: "(string \<Rightarrow> string option) \<Rightarrow> (string \<Rightarrow> string) \<Rightarrow> string \<Rightarrow> string" where
  "replace_matches m f [] = []"
| "replace_matches m f (c # s) = (case m (c # s) of
     Some t \<Rightarrow> if length t \<le> length s then f (take (Suc (length s) - length t) (c # s)) @ replace_matches m f t
               else c # replace_matches m f s
   | None \<Rightarrow> c # replace_matches m f s)"
  by pat_completeness auto
termination
  by (relation "measure (\<lambda>(m, f, s). length s)") auto

text \<open>What a matcher leaves is a proper suffix of what it got.\<close>

definition consumes :: "(string \<Rightarrow> string option) \<Rightarrow> bool" where
  "consumes m \<longleftrightarrow> (\<forall>s t. m s = Some t \<longrightarrow> (\<exists>u. u \<noteq> [] \<and> s = u @ t))"

lemma consumesD: "consumes m \<Longrightarrow> m s = Some t \<Longrightarrow> \<exists>u. u \<noteq> [] \<and> s = u @ t"
  by (auto simp: consumes_def)

lemma replace_matches_rel:
  assumes "consumes m" and "\<And>w. list_all2 R w (f w)" and "\<And>c. R c c"
  shows "list_all2 R s (replace_matches m f s)"
proof (induction s rule: length_induct)
  case (1 s)
  show ?case
  proof (cases s)
    case (Cons c r)
    have IH: "length r' \<le> length r \<Longrightarrow> list_all2 R r' (replace_matches m f r')" for r' using 1 Cons by auto
    show ?thesis
    proof (cases "m (c # r)")
      case None
      with Cons IH [of r] assms(3) show ?thesis by simp
    next
      case (Some t)
      obtain u where u: "u \<noteq> []" "c # r = u @ t" using consumesD [OF assms(1) Some] by blast
      have len: "Suc (length r) = length u + length t" using arg_cong [OF u(2), of length] by simp
      have l: "length t \<le> length r" using len u(1) by (cases u) auto
      have "take (Suc (length r) - length t) (c # r) = u" unfolding len u(2) by simp
      with Some l have "replace_matches m f (c # r) = f u @ replace_matches m f t" by simp
      with IH [OF l] assms(2) [of u] u(2) Cons show ?thesis by (simp add: list_all2_appendI)
    qed
  qed simp
qed

lemma replace_matches_none: "(\<And>u v. s = u @ v \<Longrightarrow> m v = None) \<Longrightarrow> replace_matches m f s = s"
proof (induction s)
  case (Cons c s)
  have "m (c # s) = None" using Cons.prems [of "[]"] by simp
  moreover have "replace_matches m f s = s" using Cons.prems by (intro Cons.IH) (metis append_Cons)
  ultimately show ?case by simp
qed simp

text \<open>The leftmost match is the first one replaced.\<close>

lemma replace_matches_first:
  assumes "w \<noteq> []" and "m (w @ t) = Some t" and "\<And>a b. u = a @ b \<Longrightarrow> b \<noteq> [] \<Longrightarrow> m (b @ w @ t) = None"
  shows "replace_matches m f (u @ w @ t) = u @ f w @ replace_matches m f t"
  using assms(3)
proof (induction u)
  case Nil
  obtain c r where w: "w = c # r" using assms(1) by (cases w) auto
  with assms(2) show ?case by simp
next
  case (Cons c u)
  have "m (c # u @ w @ t) = None" using Cons.prems [of "[]"] by simp
  moreover have "replace_matches m f (u @ w @ t) = u @ f w @ replace_matches m f t"
    using Cons.prems by (intro Cons.IH) (metis append_Cons)
  ultimately show ?case by simp
qed

end
