(* ===== verification/Compress.thy ===== *)
theory Compress
  imports Types Json_Scan Regex
begin

section \<open>Content detection and compression (protocol/content_*.go)\<close>

text \<open>
  Before a long user or tool message is sent, its kind is guessed and it is compressed. The
  regular expressions of the source are matched on single lines; each is written out here as the
  matcher it denotes (\<open>\s\<close> is RE2's, the five ASCII blanks). The hash of the two caches is an
  argument.
\<close>

datatype ContentType =
    ContentPlainText | ContentJsonArray | ContentBuildOutput | ContentSearchResults | ContentGitDiff
  | ContentSourceCode

subsection \<open>The regular expressions\<close>

definition m_date :: "string \<Rightarrow> string option" where
  "m_date s = do {
     s1 \<leftarrow> m_digits 4 s; s2 \<leftarrow> m_in {CHR ''-'', CHR ''/''} s1; s3 \<leftarrow> m_digits 2 s2;
     s4 \<leftarrow> m_in {CHR ''-'', CHR ''/''} s3; m_digits 2 s4 }"

definition m_hhmm :: "string \<Rightarrow> string option" where
  "m_hhmm s = do { s1 \<leftarrow> m_digits 2 s; s2 \<leftarrow> m_lit '':'' s1; m_digits 2 s2 }"

definition reBuildLog :: "string \<Rightarrow> bool" where
  "reBuildLog line = (do { s1 \<leftarrow> m_date line; s2 \<leftarrow> m_many1 re_space s1; m_hhmm s2 } \<noteq> None)"

definition reSearch :: "string \<Rightarrow> bool" where
  "reSearch line =
     (case do { s1 \<leftarrow> m_many1 is_digit line; m_lit ''.'' s1 } of
        Some (c # d # t) \<Rightarrow> re_space c
      | _ \<Rightarrow> False)"

definition reGitDiff :: "string \<Rightarrow> bool" where
  "reGitDiff line = (\<exists>p \<in> set [''diff --git'', ''@@ '', ''--- '', ''+++ '']. HasPrefix line p)"

definition reLogLevel :: "string \<Rightarrow> bool" where
  "reLogLevel line =
     (\<exists>p \<in> set [''debug'', ''info'', ''warn'', ''error'', ''fatal'', ''trace''].
        HasPrefix (ToLower line) p \<and> (case drop (length p) line of c # _ \<Rightarrow> \<not> word_char c | [] \<Rightarrow> True))"

definition reURL :: "string \<Rightarrow> bool" where
  "reURL line =
     (case do { s1 \<leftarrow> m_many1 re_space line; m_lit ''URL:'' s1 } of
        Some t \<Rightarrow> (let u = dropWhile re_space t in HasPrefix u ''http://'' \<or> HasPrefix u ''https://'')
      | None \<Rightarrow> False)"

definition m_zone :: "string \<Rightarrow> string option" where
  "m_zone s = (case m_lit ''Z'' s of
     Some t \<Rightarrow> Some t
   | None \<Rightarrow> do { s1 \<leftarrow> m_in {CHR ''+'', CHR ''-''} s; s2 \<leftarrow> m_digits 2 s1; m_digits 2 (m_opt (m_lit '':'') s2) })"

text \<open>\<open>reTimestamp.ReplaceAllString(line, "")\<close>: the pattern is anchored, so at most one match.\<close>

definition strip_timestamp :: "string \<Rightarrow> string" where
  "strip_timestamp line =
     (case do { s1 \<leftarrow> m_date line; s2 \<leftarrow> m_in {CHR ''T'', CHR '' ''} s1; s3 \<leftarrow> m_hhmm s2;
        let s4 = m_opt (\<lambda>s. do { t \<leftarrow> m_lit '':'' s; m_digits 2 t }) s3;
            s5 = m_opt (\<lambda>s. do { t \<leftarrow> m_lit ''.'' s; m_many1 is_digit t }) s4;
            s6 = m_opt m_zone s5
        in m_many1 re_space s6 } of
        Some t \<Rightarrow> t
      | None \<Rightarrow> line)"

text \<open>\<open>reANSIEscape.ReplaceAllString(line, "")\<close>.\<close>

definition ansi_code :: "string \<Rightarrow> string option" where
  "ansi_code s = do {
     s1 \<leftarrow> m_lit [CHR 0x1B, CHR ''[''] s;
     m_lit ''m'' (dropWhile (\<lambda>c. is_digit c \<or> c = CHR '';'') s1) }"

lemma ansi_code_length: "ansi_code s = Some t \<Longrightarrow> length t < length s"
proof -
  assume "ansi_code s = Some t"
  then have t: "HasPrefix s [CHR 0x1B, CHR ''['']"
    "t = drop 1 (dropWhile (\<lambda>c. is_digit c \<or> c = CHR '';'') (drop 2 s))"
    by (auto simp: ansi_code_def m_lit_def Option.bind_eq_Some_conv numeral_2_eq_2 split: if_splits)
  have "2 \<le> length s" using HasPrefix_length [OF t(1)] by simp
  then show ?thesis
    using t(2) length_dropWhile_le [of "\<lambda>c. is_digit c \<or> c = CHR '';''" "drop 2 s"] by simp
qed

function strip_ansi :: "string \<Rightarrow> string" where
  "strip_ansi [] = []"
| "strip_ansi (c # s) = (case ansi_code (c # s) of Some t \<Rightarrow> strip_ansi t | None \<Rightarrow> c # strip_ansi s)"
  by pat_completeness auto
termination
  by (relation "measure length") (auto dest: ansi_code_length)

definition reHunkHeader :: "string \<Rightarrow> bool" where
  "reHunkHeader line =
     (do { s1 \<leftarrow> m_lit ''@@ -'' line; s2 \<leftarrow> m_many1 is_digit s1; s3 \<leftarrow> m_lit '','' s2;
           s4 \<leftarrow> m_many1 is_digit s3; s5 \<leftarrow> m_many1 (\<lambda>c. c = CHR '' '') s4; s6 \<leftarrow> m_lit ''+'' s5;
           s7 \<leftarrow> m_many1 is_digit s6; s8 \<leftarrow> m_lit '','' s7; s9 \<leftarrow> m_many1 is_digit s8;
           m_lit '' @@'' s9 } \<noteq> None)"

subsection \<open>Detection (content_detector.go)\<close>

definition isSearchResultLine :: "string \<Rightarrow> bool" where
  "isSearchResultLine line = (length line > 30 \<and> Contains line ''http'')"

definition lineNeedsFurtherCheck :: "string \<Rightarrow> bool" where
  "lineNeedsFurtherCheck line = (length line > 20 \<and> (\<exists>c \<in> set line. c \<in> set ''=@()[]{}+-<>''))"

definition line_matches :: "string \<Rightarrow> bool" where
  "line_matches line =
     (reGitDiff line \<or> reBuildLog line \<or> reLogLevel line \<or> (reSearch line \<and> isSearchResultLine line)
      \<or> lineNeedsFurtherCheck line)"

fun matched_loop :: "string list \<Rightarrow> nat \<Rightarrow> nat" where
  "matched_loop [] matched = matched"
| "matched_loop (l # ls) matched =
     (let line = TrimSpace l in
      if line = [] then matched_loop ls matched
      else if matched > 5 then matched
      else matched_loop ls (if line_matches line then Suc matched else matched))"

fun count_kinds :: "string list \<Rightarrow> nat \<times> nat \<times> nat \<Rightarrow> nat \<times> nat \<times> nat" where
  "count_kinds [] n = n"
| "count_kinds (l # ls) (diffs, logs, searches) =
     (let line = TrimSpace l in
      count_kinds ls
        (if line = [] then (diffs, logs, searches)
         else if reGitDiff line then (Suc diffs, logs, searches)
         else if reBuildLog line \<or> reLogLevel line then (diffs, Suc logs, searches)
         else if reSearch line \<or> reURL line then (diffs, logs, Suc searches)
         else (diffs, logs, searches)))"

definition detectFromMatched :: "string list \<Rightarrow> ContentType" where
  "detectFromMatched lines = (case count_kinds lines (0, 0, 0) of (d, l, s) \<Rightarrow>
     if d > l \<and> d > s then ContentGitDiff
     else if l > d \<and> l > s then ContentBuildOutput
     else if s > d \<and> s > l then ContentSearchResults
     else ContentPlainText)"

definition code_patterns :: "string list" where
  "code_patterns = [''func '', ''class '', ''import '', ''package '', ''#include'', ''def '', ''fn '',
     ''=>'', ''->'', '';;'', ''if ('', ''for ('', ''while ('', [CHR 0x60, CHR 0x60, CHR 0x60]]"

definition hasCodePatterns :: "string \<Rightarrow> bool" where
  "hasCodePatterns content = (length (filter (Contains content) code_patterns) \<ge> 2)"

definition detectFromContent :: "string \<Rightarrow> ContentType" where
  "detectFromContent content =
     (let trimmed = TrimSpace content in
      if HasPrefix trimmed ''diff --git'' \<or> HasPrefix trimmed ''--- '' \<or> HasPrefix trimmed ''Index: '' then ContentGitDiff
      else if HasPrefix trimmed ''['' \<and> \<not> Contains trimmed [nl, CHR ''{''] then ContentJsonArray
      else let first = hd (split_lines trimmed) in
        if reBuildLog first \<or> reLogLevel first then ContentBuildOutput
        else if length (filter (\<lambda>c. c = nl) content) > 20 \<and> hasCodePatterns content then ContentSourceCode
        else ContentPlainText)"

definition detectContentTypeHeuristic :: "string \<Rightarrow> ContentType" where
  "detectContentTypeHeuristic content =
     (if (HasPrefix (TrimSpace content) ''['' \<or> HasPrefix (TrimSpace content) ''{'') \<and> \<not> Contains content [nl]
      then ContentJsonArray
      else let lines = split_lines (TrimSpace content) in
        if matched_loop lines 0 > 3 then detectFromMatched lines else detectFromContent content)"

subsection \<open>The predictor's cache (content_predict.go)\<close>

record ContentPredictor =
  cp_cache :: "string \<rightharpoonup> ContentType"
  cp_enabled :: bool

definition NewContentPredictor :: "bool \<Rightarrow> ContentPredictor" where
  "NewContentPredictor enabled = \<lparr>cp_cache = Map.empty, cp_enabled = enabled\<rparr>"

definition contentHash :: "(string \<Rightarrow> string) \<Rightarrow> string \<Rightarrow> string" where
  "contentHash sha content = sha (if length content > 4096 then take 4096 content else content)"

definition Predict :: "(string \<Rightarrow> string) \<Rightarrow> ContentPredictor \<Rightarrow> string \<Rightarrow> ContentPredictor \<times> ContentType" where
  "Predict sha p content =
     (if \<not> cp_enabled p then (p, detectContentTypeHeuristic content)
      else
        let key = contentHash sha content in
        case cp_cache p key of
          Some ct \<Rightarrow> (p, ct)
        | None \<Rightarrow>
            let ct = detectContentTypeHeuristic content
            in (p\<lparr>cp_cache := (cp_cache p)(key \<mapsto> ct)\<rparr>, ct))"

definition predictor_Invalidate :: "(string \<Rightarrow> string) \<Rightarrow> ContentPredictor \<Rightarrow> string \<Rightarrow> ContentPredictor" where
  "predictor_Invalidate sha p content = p\<lparr>cp_cache := (cp_cache p)(contentHash sha content := None)\<rparr>"

subsection \<open>Compression (content_compress.go)\<close>

definition maxHunks :: nat where "maxHunks = 50"
definition maxSearchResults :: nat where "maxSearchResults = 10"

fun json_loop :: "bool \<Rightarrow> bool \<Rightarrow> string \<Rightarrow> string" where
  "json_loop inStr esc [] = []"
| "json_loop inStr esc (c # s) =
     (if inStr then
        c # (if esc then json_loop True False s
             else if c = CHR 0x5C then json_loop True True s
             else if c = CHR 0x22 then json_loop False False s
             else json_loop True False s)
      else if c = CHR 0x22 then c # json_loop True esc s
      else if c \<in> set [CHR '' '', CHR 0x09, CHR 0x0A, CHR 0x0D] then json_loop False esc s
      else c # json_loop False esc s)"

definition compressJSONArray :: "string \<Rightarrow> string" where
  "compressJSONArray content = json_loop False False content"

definition strip_build_line :: "string \<Rightarrow> string" where
  "strip_build_line line = TrimRight (strip_ansi (strip_timestamp line)) [CHR '' '', CHR 0x09, CHR 0x0D]"

text \<open>The state of the loop is \<open>seenBlank\<close>, \<open>lineCount\<close> and the text written so far.\<close>

fun build_loop :: "string list \<Rightarrow> bool \<Rightarrow> nat \<Rightarrow> string \<Rightarrow> nat \<times> string" where
  "build_loop [] seenBlank lineCount b = (lineCount, b)"
| "build_loop (l # ls) seenBlank lineCount b =
     (let stripped = strip_build_line l in
      if stripped = [] then
        (if \<not> seenBlank \<and> lineCount > 0 then build_loop ls True lineCount (b @ [nl])
         else build_loop ls seenBlank lineCount b)
      else build_loop ls False (Suc lineCount) (b @ stripped @ [nl]))"

definition compressBuildOutput :: "string \<Rightarrow> string" where
  "compressBuildOutput content =
     (case build_loop (split_lines content) False 0 [] of (lineCount, b) \<Rightarrow>
        if lineCount > 0 \<and> b \<noteq> [] then TrimRight b [nl] else b)"

fun search_loop :: "string list \<Rightarrow> nat \<Rightarrow> string \<Rightarrow> string" where
  "search_loop [] cnt b = b"
| "search_loop (line # ls) cnt b =
     (if TrimSpace line = [] then search_loop ls cnt b
      else if HasPrefix (TrimSpace line) ''---'' \<or> HasPrefix (TrimSpace line) ''==='' then search_loop ls cnt b
      else if reSearch line then
        (if cnt \<ge> maxSearchResults then search_loop ls cnt b
         else search_loop ls (Suc cnt) (b @ line @ [nl]))
      else if reURL line then search_loop ls cnt (b @ line @ [nl])
      else if cnt > 0 \<and> b \<noteq> [] then search_loop ls cnt (b @ line @ [nl])
      else search_loop ls cnt b)"

definition compressSearchResults :: "string \<Rightarrow> string" where
  "compressSearchResults content = TrimRight (search_loop (split_lines content) 0 []) [nl]"

text \<open>\<open>itoa\<close> fills a 12-byte buffer from the end; writing past its start panics (\<open>None\<close>).\<close>

fun itoa_loop :: "nat \<Rightarrow> nat \<Rightarrow> string \<Rightarrow> (nat \<times> string) option" where
  "itoa_loop 0 i buf = Some (i, buf)"
| "itoa_loop (Suc k) i buf =
     (if i = 0 then None else itoa_loop (Suc k div 10) (i - 1) (digit_char (Suc k mod 10) # buf))"

definition itoa :: "int \<Rightarrow> string option" where
  "itoa n = (if n = 0 then Some ''0''
     else case itoa_loop (nat \<bar>n\<bar>) 12 [] of
         None \<Rightarrow> None
       | Some (i, buf) \<Rightarrow> if n < 0 then (if i = 0 then None else Some (CHR ''-'' # buf)) else Some buf)"

fun diff_loop :: "nat \<Rightarrow> string list \<Rightarrow> nat \<Rightarrow> string \<Rightarrow> string option" where
  "diff_loop nlines [] hunkCount b = Some b"
| "diff_loop nlines (line # ls) hunkCount b =
     (if reHunkHeader line then
        let hc = Suc hunkCount in
        if hc > maxHunks then
          (if hc = maxHunks + 1 then
             (case itoa (int nlines - int maxHunks) of
                None \<Rightarrow> None
              | Some n \<Rightarrow> diff_loop nlines ls hc (b @ ''... (+'' @ n @ '' more hunks truncated)'' @ [nl]))
           else diff_loop nlines ls hc b)
        else diff_loop nlines ls hc (b @ line @ [nl])
      else diff_loop nlines ls hunkCount (b @ line @ [nl]))"

definition compressGitDiff :: "string \<Rightarrow> string option" where
  "compressGitDiff content =
     (let lines = split_lines content
      in map_option (\<lambda>b. TrimRight b [nl]) (diff_loop (length lines) lines 0 []))"

definition CompressContent :: "string \<Rightarrow> ContentType \<Rightarrow> string option" where
  "CompressContent content ct =
     (if length content < 256 then Some content
      else case ct of
          ContentJsonArray \<Rightarrow> Some (compressJSONArray content)
        | ContentBuildOutput \<Rightarrow> Some (compressBuildOutput content)
        | ContentSearchResults \<Rightarrow> Some (compressSearchResults content)
        | ContentGitDiff \<Rightarrow> compressGitDiff content
        | _ \<Rightarrow> Some content)"

text \<open>\<open>lru k\<close> is what the expiring third-party cache answers for the key at the time of the call; the
  result is \<open>None\<close> when compression panics.\<close>

definition CachedCompressContent ::
  "(string \<Rightarrow> ContentType \<Rightarrow> string) \<Rightarrow> (string \<rightharpoonup> string) \<Rightarrow> string \<Rightarrow> ContentType \<Rightarrow> string option" where
  "CachedCompressContent key lru content ct =
     (if length content < 256 then Some content
      else case lru (key content ct) of
          Some r \<Rightarrow> Some r
        | None \<Rightarrow> CompressContent content ct)"

subsection \<open>Lemmas: compression keeps JSON valid\<close>

fun string_state :: "scan_state \<Rightarrow> bool" where
  "string_state InString = True"
| "string_state InStringEsc = True"
| "string_state InStringEscU = True"
| "string_state InStringEscU1 = True"
| "string_state InStringEscU12 = True"
| "string_state InStringEscU123 = True"
| "string_state st = False"

abbreviation in_string :: "scanner \<Rightarrow> bool" where "in_string s \<equiv> string_state (sc_step s)"

text \<open>States in which a value is complete and a blank only closes it.\<close>

fun value_end :: "scan_state \<Rightarrow> bool" where
  "value_end S1 = True"
| "value_end S0 = True"
| "value_end SDot0 = True"
| "value_end SE0 = True"
| "value_end EndValue = True"
| "value_end st = False"

text \<open>The scanner after a blank: a finished number or value is closed.\<close>

definition settle :: "scanner \<Rightarrow> scanner" where
  "settle s = (if value_end (sc_step s) then
     (if sc_stack s = [] then s\<lparr>sc_step := EndTop, sc_endTop := True\<rparr> else s\<lparr>sc_step := EndValue\<rparr>) else s)"

definition lag :: "scanner \<Rightarrow> scanner \<Rightarrow> bool" where
  "lag t s \<longleftrightarrow> s = t \<or> s = settle t"

lemma js_space_chars:
  "js_space c \<longleftrightarrow> c \<in> set [CHR '' '', CHR 0x09, CHR 0x0A, CHR 0x0D]"
  by (auto simp: js_space_def)

lemma js_space_not:
  "js_space c \<Longrightarrow> \<not> is_digit c"
  "js_space c \<Longrightarrow> c \<noteq> CHR ''.'' \<and> c \<noteq> CHR ''e'' \<and> c \<noteq> CHR ''E'' \<and> c \<noteq> CHR 0x22 \<and> c \<noteq> CHR ''}'' \<and> c \<noteq> CHR '']''"
  by (auto simp: js_space_def is_digit_iff)

lemma endValue_space: "js_space c \<Longrightarrow> stateEndValue s c =
  Some (if sc_stack s = [] then s\<lparr>sc_step := EndTop, sc_endTop := True\<rparr> else s\<lparr>sc_step := EndValue\<rparr>)"
  by (cases "sc_stack s") (simp_all add: stateEndValue_def stateEndTop_def goto_def)

lemma space_step:
  assumes "scan_step s c = Some s1" and "js_space c" and "\<not> in_string s"
  shows "s1 = s \<or> s1 = settle s"
proof (cases "value_end (sc_step s)")
  case True
  then have "scan_step s c = stateEndValue s c"
    using js_space_not [OF assms(2)] by (cases "sc_step s") (simp_all add: scan_step_def state0_def)
  with True assms(1,2) show ?thesis by (simp add: endValue_space settle_def)
next
  case False
  with assms js_space_not [OF assms(2)] show ?thesis
    by (cases "sc_step s")
       (simp_all add: scan_step_def stateBeginValue_def stateBeginString_def stateEndTop_def stateESign_def
         expect_def js_space_def split: if_splits, auto)
qed

lemma settle_idem [simp]: "settle (settle s) = settle s"
  by (simp add: settle_def)

lemma settle_string: "in_string (settle t) = in_string t"
  by (cases "sc_step t") (simp_all add: settle_def)

lemma settle_step:
  assumes "scan_step (settle t) c = Some s1" and "\<not> js_space c" and "value_end (sc_step t)"
  shows "scan_step t c = Some s1"
proof -
  have ne: "sc_stack t \<noteq> []"
  proof
    assume "sc_stack t = []"
    with assms show False by (simp add: settle_def scan_step_def stateEndTop_def)
  qed
  then have e: "scan_step (settle t) c = stateEndValue (t\<lparr>sc_step := EndValue\<rparr>) c"
    using assms(3) by (simp add: settle_def scan_step_def)
  have c: "c = CHR '':'' \<or> c = CHR '','' \<or> c = CHR ''}'' \<or> c = CHR '']''"
    using assms(1,2) e ne by (auto simp: stateEndValue_def split: list.splits parse_state.splits if_splits)
  then have "\<not> is_digit c" "c \<noteq> CHR ''.''" "c \<noteq> CHR ''e''" "c \<noteq> CHR ''E''" by (auto simp: is_digit_iff)
  then have "scan_step t c = stateEndValue t c"
    using assms(3) by (cases "sc_step t") (simp_all add: scan_step_def state0_def)
  moreover have "stateEndValue t c = stateEndValue (t\<lparr>sc_step := EndValue\<rparr>) c"
    using assms(2) ne
    by (auto simp: stateEndValue_def goto_def popParseState_def Let_def split: list.splits parse_state.splits)
  ultimately show ?thesis using assms(1) e by simp
qed

lemma lag_step:
  assumes "lag t s" and "scan_step s c = Some s1" and "\<not> js_space c \<or> in_string s"
  shows "\<exists>t1. scan_step t c = Some t1 \<and> lag t1 s1"
proof (cases "s = t")
  case True
  with assms show ?thesis by (auto simp: lag_def)
next
  case False
  then have s: "s = settle t" "value_end (sc_step t)"
    using assms(1) by (auto simp: lag_def settle_def split: if_splits)
  then have "\<not> in_string t" by (cases "sc_step t") simp_all
  with s(1) have "\<not> in_string s" by (simp add: settle_string)
  with assms(3) have "\<not> js_space c" by simp
  from settle_step [OF _ this s(2)] assms(2) s(1) show ?thesis by (auto simp: lag_def)
qed

lemma stateEndValue_outside:
  "stateEndValue s c = Some s1 \<Longrightarrow> \<not> in_string s1 \<and> c \<noteq> CHR 0x22"
  by (auto simp: stateEndValue_def stateEndTop_def popParseState_def goto_def js_space_def Let_def
      split: list.splits parse_state.splits if_splits)

lemma stateBegin_outside:
  assumes "\<not> in_string s"
  shows "stateBeginValue s c = Some s1 \<Longrightarrow> in_string s1 = (c = CHR 0x22) \<and> sc_step s1 \<noteq> InStringEsc"
    and "stateBeginString s c = Some s1 \<Longrightarrow> in_string s1 = (c = CHR 0x22) \<and> sc_step s1 \<noteq> InStringEsc"
  using assms
  by (auto simp: stateBeginValue_def stateBeginString_def pushParseState_def goto_def js_space_def
      split: if_splits)

lemma outside_not_esc: "\<not> in_string s \<Longrightarrow> sc_step s \<noteq> InStringEsc"
  by auto

lemma quote_not_digit: "is_digit c \<Longrightarrow> c \<noteq> CHR 0x22 \<and> c \<noteq> CHR 0x5C"
  by (auto simp: is_digit_iff)

lemma string_flags_out:
  assumes "scan_step s c = Some s1" and "\<not> in_string s"
  shows "in_string s1 = (c = CHR 0x22) \<and> sc_step s1 \<noteq> InStringEsc"
proof (cases "c = CHR 0x22")
  case True
  with assms show ?thesis
    by (cases "sc_step s")
       (simp_all add: scan_step_def stateBeginValue_def stateBeginString_def stateEndTop_def stateESign_def state0_def
         expect_def goto_def js_space_def is_digit_iff stateEndValue_def split: list.splits parse_state.splits, auto)
next
  case False
  have "\<not> in_string s1"
    using assms False
    by (cases "sc_step s")
       (auto simp: scan_step_def stateESign_def state0_def expect_def goto_def stateEndTop_def
         dest: stateEndValue_outside stateBegin_outside [OF assms(2)] split: if_splits)
  with False outside_not_esc show ?thesis by blast
qed

lemma string_flags_in:
  assumes "scan_step s c = Some s1" and "in_string s"
  shows "in_string s1 = (sc_step s = InStringEsc \<or> c \<noteq> CHR 0x22)
     \<and> (sc_step s1 = InStringEsc) = (sc_step s \<noteq> InStringEsc \<and> c = CHR 0x5C)"
proof -
  have hex: "hex_digit c \<Longrightarrow> c \<noteq> CHR 0x22 \<and> c \<noteq> CHR 0x5C" by (auto simp: hex_digit_def is_digit_iff)
  with assms show ?thesis
    by (cases "sc_step s") (auto simp: scan_step_def goto_def split: if_splits)
qed

lemma json_loop_scan:
  assumes "scan_all s cs = Some s'" and "lag t s" and "inStr = in_string s" and "esc = (sc_step s = InStringEsc)"
  shows "\<exists>t'. scan_all t (json_loop inStr esc cs) = Some t' \<and> lag t' s'"
  using assms
proof (induction cs arbitrary: s t inStr esc)
  case (Cons c cs)
  from Cons.prems(1) obtain s1 where st: "scan_step s c = Some s1" and r: "scan_all s1 cs = Some s'"
    by (auto split: option.splits)
  show ?case
  proof (cases "\<not> in_string s \<and> js_space c")
    case True
    then have "lag t s1" using space_step [OF st] Cons.prems(2) by (auto simp: lag_def)
    moreover have "in_string s1 = False" "(sc_step s1 = InStringEsc) = False"
      using string_flags_out [OF st] True js_space_not by auto
    moreover have "inStr = False" "esc = False" using True Cons.prems(3,4) by auto
    moreover have "json_loop False False (c # cs) = json_loop False False cs"
      using True js_space_not(2) [of c] by (simp add: js_space_chars)
    ultimately show ?thesis using Cons.IH [OF r, of t False False] by simp
  next
    case False
    then obtain t1 where t1: "scan_step t c = Some t1" "lag t1 s1" using lag_step [OF Cons.prems(2) st] by blast
    have "json_loop inStr esc (c # cs) = c # json_loop (in_string s1) (sc_step s1 = InStringEsc) cs"
    proof (cases "in_string s")
      case True
      then show ?thesis using string_flags_in [OF st True] Cons.prems(3,4) by simp
    next
      case out: False
      then have f: "esc = False" "inStr = False" using Cons.prems(3,4) by auto
      have "c \<notin> set [CHR '' '', CHR 0x09, CHR 0x0A, CHR 0x0D]" using out False by (simp only: js_space_chars) blast
      then show ?thesis using string_flags_out [OF st out] by (simp add: f)
    qed
    with Cons.IH [OF r t1(2) refl refl] t1(1) show ?thesis by simp
  qed
qed simp

lemma lag_eof:
  assumes "lag t s" and "scan_eof s"
  shows "scan_eof t"
proof (cases "s = t")
  case False
  with assms(1) have s: "s = settle t" "value_end (sc_step t)" by (auto simp: lag_def settle_def split: if_splits)
  have sp: "js_space CHR '' ''" by (simp add: js_space_def)
  have step: "scan_step t (CHR '' '') = Some (settle t)"
    using s(2) by (cases "sc_step t") (simp_all add: scan_step_def state0_def endValue_space [OF sp] settle_def is_digit_iff)
  have "scan_step (settle t) (CHR '' '') = Some (settle t)"
    using s(2) by (simp add: settle_def scan_step_def stateEndTop_def endValue_space [OF sp] sp)
  with assms(2) s(1) step show ?thesis by (simp add: scan_eof_def)
qed (use assms(2) in simp)

lemma json_loop_length: "length (json_loop a b cs) \<le> length cs"
  by (induction a b cs rule: json_loop.induct) auto

lemma json_loop_idem: "json_loop a b (json_loop a b cs) = json_loop a b cs"
  by (induction a b cs rule: json_loop.induct) auto

subsection \<open>Lemmas: lines kept by the line-based compressors\<close>

definition write_lines :: "string list \<Rightarrow> string" where
  "write_lines ls = concat (map (\<lambda>l. l @ [nl]) ls)"

lemma write_lines_simps [simp]:
  "write_lines [] = []" "write_lines (xs @ ys) = write_lines xs @ write_lines ys" "write_lines [l] = l @ [nl]"
  by (simp_all add: write_lines_def)

lemma search_loop_kept:
  assumes "cnt \<le> maxSearchResults"
  shows "\<exists>kept. search_loop ls cnt b = b @ write_lines kept \<and> subseq kept ls
     \<and> length (filter reSearch kept) \<le> maxSearchResults - cnt"
  using assms
proof (induction ls arbitrary: cnt b)
  case (Cons l ls)
  have skip: ?case if "search_loop (l # ls) cnt b = search_loop ls cnt b"
    using Cons.IH [OF Cons.prems, of b] that by (metis list_emb_Cons)
  have keep: ?case if "search_loop (l # ls) cnt b = search_loop ls cnt (b @ l @ [nl])" and "\<not> reSearch l"
  proof -
    obtain kept where k: "search_loop ls cnt (b @ l @ [nl]) = (b @ l @ [nl]) @ write_lines kept" "subseq kept ls"
      "length (filter reSearch kept) \<le> maxSearchResults - cnt" using Cons.IH [OF Cons.prems] by metis
    then show ?thesis using that by (intro exI [of _ "l # kept"]) (simp add: write_lines_def)
  qed
  show ?case
  proof (cases "TrimSpace l = [] \<or> HasPrefix (TrimSpace l) ''---'' \<or> HasPrefix (TrimSpace l) ''===''")
    case True
    then show ?thesis by (intro skip) auto
  next
    case False
    show ?thesis
    proof (cases "reSearch l \<and> cnt < maxSearchResults")
      case True
      then obtain kept where k: "search_loop ls (Suc cnt) (b @ l @ [nl]) = (b @ l @ [nl]) @ write_lines kept"
        "subseq kept ls" "length (filter reSearch kept) \<le> maxSearchResults - Suc cnt"
        using Cons.IH [of "Suc cnt" "b @ l @ [nl]"] by auto
      with True False show ?thesis by (intro exI [of _ "l # kept"]) (auto simp: write_lines_def)
    next
      case no: False
      then show ?thesis using False skip keep by (cases "reSearch l") (auto split: if_splits)
    qed
  qed
qed (auto intro!: exI [of _ "[]"])

lemma show_nat_Suc: "show_nat (Suc k) = (if Suc k < 10 then [] else show_nat (Suc k div 10)) @ [digit_char (Suc k mod 10)]"
  by (subst show_nat.simps) simp

lemma itoa_loop_show:
  "0 < n \<Longrightarrow> length (show_nat n) \<le> i \<Longrightarrow> itoa_loop n i buf = Some (i - length (show_nat n), show_nat n @ buf)"
proof (induction n i buf rule: itoa_loop.induct)
  case (2 k i buf)
  have i: "i \<noteq> 0" using 2(3) by (auto simp: show_nat_Suc)
  show ?case
  proof (cases "Suc k < 10")
    case True
    with i show ?thesis by (simp add: show_nat_Suc)
  next
    case False
    then have "0 < Suc k div 10" by simp
    moreover have "length (show_nat (Suc k div 10)) \<le> i - 1" using 2(3) False by (simp add: show_nat_Suc)
    ultimately have "itoa_loop (Suc k div 10) (i - 1) (digit_char (Suc k mod 10) # buf) =
      Some (i - 1 - length (show_nat (Suc k div 10)), show_nat (Suc k div 10) @ digit_char (Suc k mod 10) # buf)"
      using 2(1) [OF i] by blast
    with i False show ?thesis by (simp add: show_nat_Suc)
  qed
qed simp

lemma show_nat_length: "n < 10 ^ d \<Longrightarrow> 0 < d \<Longrightarrow> length (show_nat n) \<le> d"
proof (induction d arbitrary: n)
  case (Suc d)
  show ?case
  proof (cases "n < 10")
    case True
    then show ?thesis by (subst show_nat.simps) simp
  next
    case False
    then have "d \<noteq> 0" using Suc.prems(1) by (cases d) auto
    moreover have "n div 10 < 10 ^ d" using Suc.prems(1) by (simp add: less_mult_imp_div_less)
    ultimately have "length (show_nat (n div 10)) \<le> d" using Suc.IH by simp
    with False show ?thesis by (subst show_nat.simps) simp
  qed
qed simp

lemma itoa_show:
  assumes "\<bar>n\<bar> < 10 ^ 11"
  shows "itoa n = Some (show_int n)"
proof (cases "n = 0")
  case True
  have "digit_char 0 = CHR ''0''" by code_simp
  with True show ?thesis by (simp add: itoa_def show_int_def show_nat.simps)
next
  case False
  have l: "length (show_nat (nat \<bar>n\<bar>)) \<le> 11" using assms by (intro show_nat_length) auto
  have "itoa_loop (nat \<bar>n\<bar>) 12 [] = Some (12 - length (show_nat (nat \<bar>n\<bar>)), show_nat (nat \<bar>n\<bar>) @ [])"
    using False l by (intro itoa_loop_show) auto
  with False l show ?thesis by (auto simp: itoa_def show_int_def)
qed

text \<open>What \<open>compressGitDiff\<close> writes: the first 50 hunk headers, one notice, and every other line.\<close>

fun diff_spec :: "string \<Rightarrow> string list \<Rightarrow> nat \<Rightarrow> string list" where
  "diff_spec notice [] hc = []"
| "diff_spec notice (l # ls) hc =
     (if reHunkHeader l then
        (if hc < maxHunks then l # diff_spec notice ls (Suc hc)
         else if hc = maxHunks then notice # diff_spec notice ls (Suc hc)
         else diff_spec notice ls (Suc hc))
      else l # diff_spec notice ls hc)"

definition hunk_notice :: "nat \<Rightarrow> string" where
  "hunk_notice nlines = ''... (+'' @ show_int (int nlines - int maxHunks) @ '' more hunks truncated)''"

lemma diff_loop_spec:
  assumes "nlines < 10 ^ 11"
  shows "diff_loop nlines ls hc b = Some (b @ write_lines (diff_spec (hunk_notice nlines) ls hc))"
proof -
  have i: "itoa (int nlines - int maxHunks) = Some (show_int (int nlines - int maxHunks))"
    using assms by (intro itoa_show) (auto simp: maxHunks_def)
  show ?thesis
    by (induction ls arbitrary: hc b) (simp_all add: i hunk_notice_def write_lines_def Let_def)
qed

lemma diff_spec_bodies:
  "\<not> reHunkHeader notice \<Longrightarrow> filter (\<lambda>l. \<not> reHunkHeader l \<and> l \<noteq> notice) (diff_spec notice ls hc) =
     filter (\<lambda>l. \<not> reHunkHeader l \<and> l \<noteq> notice) ls"
  by (induction ls arbitrary: hc) auto

lemma diff_spec_headers:
  "\<not> reHunkHeader notice \<Longrightarrow> filter reHunkHeader (diff_spec notice ls hc) = take (maxHunks - hc) (filter reHunkHeader ls)"
proof (induction ls arbitrary: hc)
  case (Cons l ls)
  then show ?case by (auto simp: take_Cons' Suc_diff_le not_less Suc_diff_Suc)
qed simp

lemma notice_no_header: "\<not> reHunkHeader (hunk_notice n)"
  by (simp add: reHunkHeader_def hunk_notice_def m_lit_def)

subsection \<open>Properties\<close>



text \<open>Compressing search results only drops lines and keeps at most ten numbered results: the
  result is the text of a subsequence of the input lines (less trailing newlines) that has at most
  ten lines starting with a number and a dot.\<close>

theorem search_results_bounded:
  "\<exists>kept. compressSearchResults content = TrimRight (write_lines kept) [nl]
     \<and> subseq kept (split_lines content) \<and> length (filter reSearch kept) \<le> 10"
  using search_loop_kept [of 0 "split_lines content" "[]"]
  by (auto simp: compressSearchResults_def maxSearchResults_def)

text \<open>Compressing a diff truncates hunk headers but not hunks: with fewer than 10^11 lines it
  succeeds and writes the first 50 hunk headers and every line that is not a hunk header, so the body
  of each dropped hunk stays in the text; the notice counts lines, not hunks.\<close>

theorem diff_keeps_hunk_bodies:
  assumes "length (split_lines content) < 10 ^ 11"
  shows "\<exists>out. compressGitDiff content = Some (TrimRight (write_lines out) [nl])
    \<and> filter reHunkHeader out = take 50 (filter reHunkHeader (split_lines content))
    \<and> (let n = hunk_notice (length (split_lines content)) in
        filter (\<lambda>l. \<not> reHunkHeader l \<and> l \<noteq> n) out = filter (\<lambda>l. \<not> reHunkHeader l \<and> l \<noteq> n) (split_lines content))"
  using assms
  by (intro exI [of _ "diff_spec (hunk_notice (length (split_lines content))) (split_lines content) 0"])
     (simp add: compressGitDiff_def Let_def diff_loop_spec diff_spec_headers diff_spec_bodies notice_no_header
       maxHunks_def)

theorem diff_keeps_hunk_bodies_witness:
  "\<exists>out. compressGitDiff ''@@ -1,2 +1,2 @@'' = Some (TrimRight (write_lines out) [nl])"
proof -
  have "length (split_lines ''@@ -1,2 +1,2 @@'') = 1" by code_simp
  then have "length (split_lines ''@@ -1,2 +1,2 @@'') < 10 ^ 11" by simp
  from diff_keeps_hunk_bodies [OF this] show ?thesis by blast
qed

end
