(* ===== verification/UrlValidator.thy ===== *)
theory UrlValidator
  imports Url
begin

section \<open>Base URL validation (protocol/url_validator.go)\<close>

text \<open>
  \<open>ValidateBaseURL\<close> refuses a URL that is not http(s), has no host, or names a private
  address. The literal-address parser of the standard library (\<open>net.ParseIP\<close>, that is
  \<open>netip.ParseAddr\<close> without zones) and the address predicates are modelled; an address is its
  sixteen bytes, an IPv4 address being mapped below ::ffff:0:0/96 as \<open>As16\<close> does.
\<close>

type_synonym ip = "nat list"

subsection \<open>net.ParseIP\<close>

definition v4_field :: "string \<Rightarrow> nat option" where
  "v4_field s = (if s \<noteq> [] \<and> list_all is_digit s \<and> (hd s = CHR ''0'' \<longrightarrow> length s = 1) \<and> read_nat s \<le> 255
     then Some (read_nat s) else None)"

definition parseIPv4 :: "string \<Rightarrow> nat list option" where
  "parseIPv4 s = (case SplitChar CHR ''.'' s of
     [a, b, c, d] \<Rightarrow> do { w \<leftarrow> v4_field a; x \<leftarrow> v4_field b; y \<leftarrow> v4_field c; z \<leftarrow> v4_field d; Some [w, x, y, z] }
   | _ \<Rightarrow> None)"

definition hex_fields :: "string \<Rightarrow> nat" where
  "hex_fields s = foldl (\<lambda>n c. 16 * n + unhex c) 0 s"

text \<open>The main loop of \<open>parseIPv6\<close>: the bytes stored so far, the index of the ellipsis, and the rest
  of the text; the fuel bounds the eight fields.\<close>

fun v6_loop :: "nat \<Rightarrow> nat list \<Rightarrow> nat option \<Rightarrow> string \<Rightarrow> (nat list \<times> nat option \<times> string) option" where
  "v6_loop 0 bytes ell s = Some (bytes, ell, s)"
| "v6_loop (Suc n) bytes ell s =
     (let h = takeWhile is_hex s; rest = dropWhile is_hex s; i = length bytes in
      if length h > 4 then None
      else if h = [] then None
      else if rest \<noteq> [] \<and> hd rest = CHR ''.'' then
        (if ell = None \<and> i \<noteq> 12 then None
         else if i + 4 > 16 then None
         else case parseIPv4 s of None \<Rightarrow> None | Some q \<Rightarrow> Some (bytes @ q, ell, []))
      else
        let v = hex_fields h; bytes1 = bytes @ [v div 256, v mod 256] in
        case rest of
          [] \<Rightarrow> Some (bytes1, ell, [])
        | c # t \<Rightarrow>
            if c \<noteq> CHR '':'' then None
            else (case t of
              [] \<Rightarrow> None
            | d # u \<Rightarrow>
                if d = CHR '':'' then
                  (if ell \<noteq> None then None
                   else if u = [] then Some (bytes1, Some (length bytes1), [])
                   else v6_loop n bytes1 (Some (length bytes1)) u)
                else v6_loop n bytes1 ell t))"

definition parseIPv6 :: "string \<Rightarrow> ip option" where
  "parseIPv6 s =
     (if CHR ''%'' \<in> set s then None
      else
        let lead = HasPrefix s ''::''; s1 = (if lead then drop 2 s else s) in
        if lead \<and> s1 = [] then Some (replicate 16 0)
        else case v6_loop 8 [] (if lead then Some 0 else None) s1 of
            None \<Rightarrow> None
          | Some (bytes, ell, rest) \<Rightarrow>
              if rest \<noteq> [] then None
              else if length bytes < 16 then
                (case ell of
                   None \<Rightarrow> None
                 | Some e \<Rightarrow> Some (take e bytes @ replicate (16 - length bytes) 0 @ drop e bytes))
              else if ell \<noteq> None then None
              else Some bytes)"

definition v4_mapped :: "nat list \<Rightarrow> ip" where
  "v4_mapped q = replicate 10 0 @ [255, 255] @ q"

definition ParseIP :: "string \<Rightarrow> ip option" where
  "ParseIP s = (case find (\<lambda>c. c \<in> {CHR ''.'', CHR '':'', CHR ''%''}) s of
     Some c \<Rightarrow>
       if c = CHR ''.'' then map_option v4_mapped (parseIPv4 s)
       else if c = CHR '':'' then parseIPv6 s else None
   | None \<Rightarrow> None)"

subsection \<open>net.IP predicates\<close>

definition To4 :: "ip \<Rightarrow> nat list option" where
  "To4 ip = (if take 12 ip = replicate 10 0 @ [255, 255] then Some (drop 12 ip) else None)"

definition ip_IsLoopback :: "ip \<Rightarrow> bool" where
  "ip_IsLoopback ip = (case To4 ip of Some q \<Rightarrow> q ! 0 = 127 | None \<Rightarrow> ip = replicate 15 0 @ [1])"

definition ip_IsUnspecified :: "ip \<Rightarrow> bool" where
  "ip_IsUnspecified ip = (ip = v4_mapped [0, 0, 0, 0] \<or> ip = replicate 16 0)"

definition ip_IsLinkLocalUnicast :: "ip \<Rightarrow> bool" where
  "ip_IsLinkLocalUnicast ip = (case To4 ip of
     Some q \<Rightarrow> q ! 0 = 169 \<and> q ! 1 = 254
   | None \<Rightarrow> ip ! 0 = 254 \<and> ip ! 1 div 64 = 2)"

definition ip_IsLinkLocalMulticast :: "ip \<Rightarrow> bool" where
  "ip_IsLinkLocalMulticast ip = (case To4 ip of
     Some q \<Rightarrow> q ! 0 = 224 \<and> q ! 1 = 0 \<and> q ! 2 = 0
   | None \<Rightarrow> ip ! 0 = 255 \<and> ip ! 1 mod 16 = 2)"

definition ip_value :: "nat list \<Rightarrow> nat" where
  "ip_value bs = foldl (\<lambda>n b. 256 * n + b) 0 bs"

text \<open>\<open>cidr.Contains(ip)\<close> for a network given by its bytes and prefix length.\<close>

definition cidr_Contains :: "nat list \<times> nat \<Rightarrow> ip \<Rightarrow> bool" where
  "cidr_Contains net ip =
     (let x = (case To4 ip of Some q \<Rightarrow> q | None \<Rightarrow> ip); bits = 8 * length (fst net) - snd net
      in length x = length (fst net) \<and> ip_value x div 2 ^ bits = ip_value (fst net) div 2 ^ bits)"

definition privateRanges :: "(nat list \<times> nat) list" where
  "privateRanges =
     [([127, 0, 0, 0], 8), ([10, 0, 0, 0], 8), ([172, 16, 0, 0], 12), ([192, 168, 0, 0], 16),
      ([169, 254, 0, 0], 16), (replicate 15 0 @ [1], 128), (252 # replicate 15 0, 7),
      ([254, 128] @ replicate 14 0, 10)]"

definition isPrivateIP :: "ip \<Rightarrow> bool" where
  "isPrivateIP ip =
     (ip_IsLoopback ip \<or> ip_IsUnspecified ip \<or> ip_IsLinkLocalUnicast ip \<or> ip_IsLinkLocalMulticast ip
      \<or> (\<exists>r \<in> set privateRanges. cidr_Contains r ip))"

subsection \<open>Validation\<close>

definition privateHosts :: "string list" where
  "privateHosts = [''localhost'', ''127.0.0.1'', ''0.0.0.0'', ''::1'', ''0.0.0.0'', ''169.254.0.1'']"

text \<open>The second label read as a number up to its first non-digit, in 64-bit arithmetic.\<close>

definition second_octet :: "string \<Rightarrow> int" where
  "second_octet part = foldl (\<lambda>n c. wrap64 (wrap64 (n * 10) + int (digit_val c))) 0 (takeWhile is_digit part)"

definition isPrivateHost :: "string \<Rightarrow> bool" where
  "isPrivateHost host =
     (let ip = (case ParseIP host of
           Some i \<Rightarrow> Some i
         | None \<Rightarrow> if HasPrefix host ''['' \<and> HasSuffix host '']'' \<and> 2 \<le> length host then ParseIP (butlast (tl host)) else None)
      in case ip of
          Some i \<Rightarrow> isPrivateIP i
        | None \<Rightarrow>
            let lower = ToLower host in
            lower \<in> set privateHosts
            \<or> HasSuffix lower ''.local'' \<or> HasSuffix lower ''.localhost''
            \<or> HasPrefix lower ''10.'' \<or> HasPrefix lower ''192.168.''
            \<or> (HasPrefix lower ''172.'' \<and>
                (case SplitChar CHR ''.'' lower of
                   _ # p # _ \<Rightarrow> 16 \<le> second_octet p \<and> second_octet p \<le> 31
                 | _ \<Rightarrow> False)))"

datatype url_error = UrlParseError | UnsupportedScheme string | MissingHost | PrivateBlocked

text \<open>The text of an error; \<open>parse_text\<close> is the text of an error of \<open>url.Parse\<close>.\<close>

definition url_reason :: "(string \<Rightarrow> string) \<Rightarrow> string \<Rightarrow> url_error \<Rightarrow> string" where
  "url_reason parse_text rawURL e = (case e of
     UrlParseError \<Rightarrow> ''parse error: '' @ parse_text rawURL
   | UnsupportedScheme sch \<Rightarrow> ''unsupported scheme: '' @ sch
   | MissingHost \<Rightarrow> ''missing host''
   | PrivateBlocked \<Rightarrow> ''private/internal URL blocked (set ALLOW_PRIVATE_URLS=true to override)'')"

definition URLValidationError_Error :: "string \<Rightarrow> string \<Rightarrow> string" where
  "URLValidationError_Error url reason =
     (if url \<noteq> [] \<and> reason \<noteq> [] then ''invalid URL '' @ url @ '': '' @ reason
      else if reason \<noteq> [] then reason
      else ''invalid URL: '' @ url)"

text \<open>\<open>allowPrivate\<close> is \<open>ALLOW_PRIVATE_URLS=true\<close>; the result is the error, if any.\<close>

definition ValidateBaseURL :: "bool \<Rightarrow> string \<Rightarrow> url_error option" where
  "ValidateBaseURL allowPrivate rawURL =
     (if rawURL = [] then None
      else case url_parse rawURL of
          None \<Rightarrow> Some UrlParseError
        | Some u \<Rightarrow>
            let scheme = ToLower (u_Scheme u) in
            if scheme \<noteq> ''http'' \<and> scheme \<noteq> ''https'' then Some (UnsupportedScheme (u_Scheme u))
            else if url_Hostname u = [] then Some MissingHost
            else if \<not> allowPrivate \<and> isPrivateHost (url_Hostname u) then Some PrivateBlocked
            else None)"

definition proxyVars :: "string list" where
  "proxyVars = [''HTTP_PROXY'', ''HTTPS_PROXY'', ''http_proxy'', ''https_proxy'', ''ALL_PROXY'', ''all_proxy'',
     ''NO_PROXY'', ''no_proxy'']"

text \<open>The first variable whose value has no proxy scheme, if any; \<open>getenv\<close> is the environment.\<close>

definition ValidateProxyEnv :: "(string \<Rightarrow> string) \<Rightarrow> (string \<times> string) option" where
  "ValidateProxyEnv getenv =
     map_option (\<lambda>key. (key, TrimSpace (getenv key)))
       (find (\<lambda>key. getenv key \<noteq> [] \<and>
          (\<forall>p \<in> set [''http://'', ''https://'', ''socks5://'', ''socks5h://''].
             \<not> HasPrefix (TrimSpace (getenv key)) p)) proxyVars)"

subsection \<open>Lemmas: dotted addresses\<close>

definition dotted :: "nat \<Rightarrow> nat \<Rightarrow> nat \<Rightarrow> nat \<Rightarrow> string" where
  "dotted a b c d = Join (map show_nat [a, b, c, d]) ''.''"

lemma show_nat_lead: "0 < n \<Longrightarrow> hd (show_nat n) \<noteq> CHR ''0''"
proof (induction n rule: show_nat.induct)
  case (1 n)
  show ?case
  proof (cases "n < 10")
    case True
    have "digit_val (digit_char n) = n" using True by simp
    moreover have "digit_val CHR ''0'' = 0" by code_simp
    ultimately have "digit_char n \<noteq> CHR ''0''" using 1(2) by (metis not_gr_zero)
    with True show ?thesis by (subst show_nat.simps) simp
  next
    case False
    then have "hd (show_nat (n div 10)) \<noteq> CHR ''0''" using 1 by simp
    with False show ?thesis by (subst show_nat.simps) simp
  qed
qed

lemma v4_field_show: "n \<le> 255 \<Longrightarrow> v4_field (show_nat n) = Some n"
proof -
  assume n: "n \<le> 255"
  have "list_all is_digit (show_nat n)" using show_nat_digits by (auto simp: list_all_iff)
  moreover have "hd (show_nat n) = CHR ''0'' \<Longrightarrow> length (show_nat n) = 1"
    using show_nat_lead [of n] by (cases "n = 0") (auto simp: show_nat.simps)
  ultimately show ?thesis using n by (simp add: v4_field_def)
qed

lemma show_nat_plain: "x \<in> set (show_nat n) \<Longrightarrow> x \<notin> {CHR ''.'', CHR '':'', CHR ''%''}"
  by (drule show_nat_digits) (auto simp: is_digit_iff)

lemma parseIPv4_dotted:
  assumes "a \<le> 255" and "b \<le> 255" and "c \<le> 255" and "d \<le> 255"
  shows "parseIPv4 (dotted a b c d) = Some [a, b, c, d]"
proof -
  have "SplitChar CHR ''.'' (dotted a b c d) = map show_nat [a, b, c, d]"
    unfolding dotted_def by (rule SplitChar_Join) (auto dest: show_nat_plain)
  with assms show ?thesis by (simp add: parseIPv4_def v4_field_show)
qed

lemma find_append_none: "(\<forall>x \<in> set xs. \<not> P x) \<Longrightarrow> find P (xs @ ys) = find P ys"
  by (induction xs) auto

lemma ParseIP_dotted:
  assumes "a \<le> 255" and "b \<le> 255" and "c \<le> 255" and "d \<le> 255"
  shows "ParseIP (dotted a b c d) = Some (v4_mapped [a, b, c, d])"
proof -
  let ?P = "\<lambda>c. c \<in> {CHR ''.'', CHR '':'', CHR ''%''}"
  have "find ?P (dotted a b c d) = Some CHR ''.''"
    unfolding dotted_def using show_nat_plain [of _ a]
    by (simp only: list.map Join.simps append_assoc) (subst find_append_none, auto)
  with assms show ?thesis by (simp add: ParseIP_def parseIPv4_dotted)
qed

text \<open>The addresses that must not be contacted, written as ranges.\<close>

definition private_v4 :: "nat \<Rightarrow> nat \<Rightarrow> nat \<Rightarrow> nat \<Rightarrow> bool" where
  "private_v4 a b c d \<longleftrightarrow>
     a = 127 \<or> a = 10 \<or> (a = 172 \<and> 16 \<le> b \<and> b \<le> 31) \<or> (a = 192 \<and> b = 168) \<or> (a = 169 \<and> b = 254)
     \<or> (a = 0 \<and> b = 0 \<and> c = 0 \<and> d = 0) \<or> (a = 224 \<and> b = 0 \<and> c = 0)"

lemma To4_mapped [simp]: "To4 (v4_mapped q) = Some q"
  by (simp add: To4_def v4_mapped_def numeral_eq_Suc)

lemma v4_prefix8: "b < 256 \<Longrightarrow> c < 256 \<Longrightarrow> d < 256 \<Longrightarrow> ip_value [a, b, c, d] div 16777216 = a"
  by (simp add: ip_value_def)

lemma v4_prefix16: "c < 256 \<Longrightarrow> d < 256 \<Longrightarrow> ip_value [a, b, c, d] div 65536 = 256 * a + b"
  by (simp add: ip_value_def)

lemma v4_prefix12: "c < 256 \<Longrightarrow> d < 256 \<Longrightarrow> ip_value [a, b, c, d] div 1048576 = 16 * a + b div 16"
proof -
  assume "c < 256" "d < 256"
  then have "ip_value [a, b, c, d] div 65536 div 16 = (256 * a + b) div 16" by (simp only: v4_prefix16)
  moreover have "ip_value [a, b, c, d] div 1048576 = ip_value [a, b, c, d] div 65536 div 16"
    by (simp add: div_mult2_eq [symmetric])
  ultimately show ?thesis by simp
qed

lemma ranges_v4:
  assumes "a < 256" and "b < 256" and "c < 256" and "d < 256"
  shows "(\<exists>r \<in> set privateRanges. cidr_Contains r (v4_mapped [a, b, c, d])) \<longleftrightarrow>
    a = 127 \<or> a = 10 \<or> 16 * a + b div 16 = 2753 \<or> 256 * a + b = 49320 \<or> 256 * a + b = 43518"
  using assms
  by (simp add: privateRanges_def cidr_Contains_def Let_def v4_prefix8 v4_prefix12 v4_prefix16)

lemma isPrivateIP_v4:
  assumes "a < 256" and "b < 256" and "c < 256" and "d < 256"
  shows "isPrivateIP (v4_mapped [a, b, c, d]) = private_v4 a b c d"
proof -
  define q where "q = b div 16"
  have q: "q < 16" "q = 1 \<longleftrightarrow> 16 \<le> b \<and> b \<le> 31" using assms(2) by (auto simp: q_def)
  have r1: "16 * a + b div 16 = 2753 \<longleftrightarrow> a = 172 \<and> 16 \<le> b \<and> b \<le> 31"
    unfolding q_def [symmetric] q(2) [symmetric] using q(1) by presburger
  have r2: "256 * a + b = 49320 \<longleftrightarrow> a = 192 \<and> b = 168" using assms(2) by presburger
  have r3: "256 * a + b = 43518 \<longleftrightarrow> a = 169 \<and> b = 254" using assms(2) by presburger
  have u: "ip_IsUnspecified (v4_mapped [a, b, c, d]) \<longleftrightarrow> a = 0 \<and> b = 0 \<and> c = 0 \<and> d = 0"
    by (simp add: ip_IsUnspecified_def v4_mapped_def numeral_eq_Suc)
  show ?thesis
    unfolding isPrivateIP_def ranges_v4 [OF assms] r1 r2 r3 u
    by (auto simp: ip_IsLoopback_def ip_IsLinkLocalUnicast_def ip_IsLinkLocalMulticast_def private_v4_def)
qed

subsection \<open>Properties\<close>

text \<open>The address check is exact on IPv4 literals: a dotted address is private iff it lies in
  127/8, 10/8, 172.16/12, 192.168/16, 169.254/16 or 224.0.0/24 or is 0.0.0.0, and the same holds for
  its IPv4-mapped IPv6 form, so that form is no way around the check.\<close>

theorem private_v4_exact:
  assumes "a < 256" and "b < 256" and "c < 256" and "d < 256"
  shows "isPrivateHost (dotted a b c d) = private_v4 a b c d
    \<and> (\<forall>host. ParseIP host = Some (v4_mapped [a, b, c, d]) \<longrightarrow> isPrivateHost host = private_v4 a b c d)"
  using assms by (simp add: isPrivateHost_def ParseIP_dotted isPrivateIP_v4)

theorem private_v4_exact_witness:
  "isPrivateHost (dotted 10 1 2 3) \<and> \<not> isPrivateHost (dotted 8 8 8 8) \<and> isPrivateHost ''::ffff:10.1.2.3''"
proof -
  have f: "v6_loop (Suc n) [] (Some 0) ''ffff:10.1.2.3'' = v6_loop n [255, 255] (Some 0) ''10.1.2.3''" for n
    by (simp add: Let_def is_hex_def is_digit_iff less_eq_char_def hex_fields_def unhex_def)
  have q: "parseIPv4 ''10.1.2.3'' = Some [10, 1, 2, 3]" by code_simp
  have g: "v6_loop (Suc n) [255, 255] (Some 0) ''10.1.2.3'' = Some ([255, 255, 10, 1, 2, 3], Some 0, [])" for n
    by (simp add: Let_def is_hex_def is_digit_iff less_eq_char_def q)
  have "v6_loop 8 [] (Some 0) ''ffff:10.1.2.3'' = Some ([255, 255, 10, 1, 2, 3], Some 0, [])"
    using f [of 7] g [of 6] by (simp del: v6_loop.simps)
  then have m: "ParseIP ''::ffff:10.1.2.3'' = Some (v4_mapped [10, 1, 2, 3])"
    by (simp add: ParseIP_def parseIPv6_def v4_mapped_def)
  have "isPrivateHost (dotted 10 1 2 3) = private_v4 10 1 2 3
    \<and> (\<forall>host. ParseIP host = Some (v4_mapped [10, 1, 2, 3]) \<longrightarrow> isPrivateHost host = private_v4 10 1 2 3)"
    "isPrivateHost (dotted 8 8 8 8) = private_v4 8 8 8 8"
    using private_v4_exact [of 10 1 2 3] private_v4_exact [of 8 8 8 8] by simp_all
  with m show ?thesis by (simp add: private_v4_def)
qed



text \<open>The proxy check demands a URL of every variable, although NO_PROXY holds a list of hosts.\<close>

theorem no_proxy_list_rejected:
  "ValidateProxyEnv (\<lambda>k. if k = ''NO_PROXY'' then ''localhost,127.0.0.1'' else []) =
     Some (''NO_PROXY'', ''localhost,127.0.0.1'')"
  by code_simp

end
