(* ===== verification/Text.thy ===== *)
theory Text
  imports Prelude
begin

section \<open>Text: UTF-8, fields, substring splitting\<close>

text \<open>
  The parts of the packages strings, unicode/utf8 and fmt that work on runes or on substrings.
  A Go string is a byte string; a conversion to runes decodes UTF-8.
\<close>

subsection \<open>Runes\<close>

text \<open>Iteration over a string decodes UTF-8; a byte that starts no valid sequence is U+FFFD.\<close>

definition cont :: "char \<Rightarrow> bool" where "cont c = (CHR 0x80 \<le> c \<and> c \<le> CHR 0xBF)"

definition rune3 :: "char \<Rightarrow> char \<Rightarrow> char \<Rightarrow> nat option" where
  "rune3 a b c =
     (if CHR 0xE0 \<le> a \<and> a \<le> CHR 0xEF \<and> cont b \<and> cont c
         \<and> (a = CHR 0xE0 \<longrightarrow> CHR 0xA0 \<le> b) \<and> (a = CHR 0xED \<longrightarrow> b \<le> CHR 0x9F)
      then Some ((of_char a - 224) * 4096 + (of_char b - 128) * 64 + (of_char c - 128)) else None)"

definition rune2 :: "char \<Rightarrow> char \<Rightarrow> nat option" where
  "rune2 a b = (if CHR 0xC2 \<le> a \<and> a \<le> CHR 0xDF \<and> cont b
     then Some ((of_char a - 192) * 64 + (of_char b - 128)) else None)"

definition rune4 :: "char \<Rightarrow> char \<Rightarrow> char \<Rightarrow> char \<Rightarrow> nat option" where
  "rune4 a b c d =
     (if CHR 0xF0 \<le> a \<and> a \<le> CHR 0xF4 \<and> cont b \<and> cont c \<and> cont d
         \<and> (a = CHR 0xF0 \<longrightarrow> CHR 0x90 \<le> b) \<and> (a = CHR 0xF4 \<longrightarrow> b \<le> CHR 0x8F)
      then Some ((of_char a - 240) * 262144 + (of_char b - 128) * 4096 + (of_char c - 128) * 64 + (of_char d - 128))
      else None)"

definition decode_rune :: "char \<Rightarrow> string \<Rightarrow> nat \<times> string" where
  "decode_rune a s =
     (if a < CHR 0x80 then (of_char a, s)
      else case (case s of b # t \<Rightarrow> map_option (\<lambda>r. (r, t)) (rune2 a b) | [] \<Rightarrow> None) of
        Some x \<Rightarrow> x
      | None \<Rightarrow>
      (case (case s of b # c # t \<Rightarrow> map_option (\<lambda>r. (r, t)) (rune3 a b c) | _ \<Rightarrow> None) of
        Some x \<Rightarrow> x
      | None \<Rightarrow>
      (case (case s of b # c # d # t \<Rightarrow> map_option (\<lambda>r. (r, t)) (rune4 a b c d) | _ \<Rightarrow> None) of
        Some x \<Rightarrow> x
      | None \<Rightarrow> (65533, s))))"

lemma decode_rune_length: "length (snd (decode_rune a s)) \<le> length s"
  by (auto simp: decode_rune_def split: option.splits list.splits if_splits)

function runes :: "string \<Rightarrow> nat list" where
  "runes [] = []"
| "runes (a # s) = (case decode_rune a s of (r, t) \<Rightarrow> r # runes t)"
  by pat_completeness auto
termination
  by (relation "measure length") (simp, metis decode_rune_length in_measure le_imp_less_Suc length_Cons snd_conv)

lemma rune2_small: "rune2 a b = Some r \<Longrightarrow> r < 2048"
  by (auto simp: rune2_def cont_def less_eq_char_def split: if_splits)

lemma rune4_large: "rune4 a b c d = Some r \<Longrightarrow> 65536 \<le> r"
proof -
  assume "rune4 a b c d = Some r"
  then have r: "r = (of_char a - 240) * 262144 + (of_char b - 128) * 4096 + (of_char c - 128) * 64 + (of_char d - 128)"
    and a: "240 \<le> (of_char a :: nat)" and b: "a = CHR 0xF0 \<longrightarrow> 144 \<le> (of_char b :: nat)"
    by (auto simp: rune4_def less_eq_char_def split: if_splits)
  show "65536 \<le> r"
  proof (cases "a = CHR 0xF0")
    case True
    with b r show ?thesis by simp
  next
    case False
    have "(of_char a :: nat) \<noteq> 240"
    proof
      assume "(of_char a :: nat) = 240"
      then have "(of_char a :: nat) = of_char CHR 0xF0" by simp
      with False show False by (simp only: of_char_eq_iff)
    qed
    with a have "1 \<le> (of_char a :: nat) - 240" by simp
    then show ?thesis using r by linarith
  qed
qed

text \<open>\<open>string(rune)\<close>; a rune that is not a Unicode scalar value is written as U+FFFD.\<close>

definition encode_rune :: "nat \<Rightarrow> string" where
  "encode_rune r =
     (if r < 128 then [char_of r]
      else if r < 2048 then [char_of (192 + r div 64), char_of (128 + r mod 64)]
      else if r \<ge> 1114112 \<or> (55296 \<le> r \<and> r \<le> 57343) then [CHR 0xEF, CHR 0xBF, CHR 0xBD]
      else if r < 65536 then [char_of (224 + r div 4096), char_of (128 + r div 64 mod 64), char_of (128 + r mod 64)]
      else [char_of (240 + r div 262144), char_of (128 + r div 4096 mod 64), char_of (128 + r div 64 mod 64), char_of (128 + r mod 64)])"

text \<open>The byte sequences of the runes of a string (\<open>strings.Split(s, "")\<close>).\<close>

function explode :: "string \<Rightarrow> string list" where
  "explode [] = []"
| "explode (a # s) = (case decode_rune a s of (r, t) \<Rightarrow> take (Suc (length s) - length t) (a # s) # explode t)"
  by pat_completeness auto
termination
  by (relation "measure length") (simp, metis decode_rune_length in_measure le_imp_less_Suc length_Cons snd_conv)

lemma decode_rune_suffix: "\<exists>u. s = u @ snd (decode_rune a s)"
  by (auto simp: decode_rune_def split: option.splits list.splits if_splits)

lemma explode_concat: "concat (explode s) = s"
proof (induction s rule: explode.induct)
  case (2 a s)
  obtain r t where d: "decode_rune a s = (r, t)" by fastforce
  then obtain u where u: "s = u @ t" using decode_rune_suffix [of s a] by auto
  then have "take (Suc (length s) - length t) (a # s) = a # u" by simp
  moreover have "concat (explode t) = t" using 2 d by simp
  ultimately show ?case using d u by simp
qed simp

lemma length_explode: "length (explode s) = length (runes s)"
  by (induction s rule: explode.induct) (auto split: prod.splits)

lemma explode_nonempty: "w \<in> set (explode s) \<Longrightarrow> w \<noteq> []"
proof (induction s rule: explode.induct)
  case (2 a s)
  obtain r t where d: "decode_rune a s = (r, t)" by fastforce
  moreover have "length t \<le> length s" using decode_rune_length [of a s] d by simp
  ultimately show ?case using 2 by (auto simp: Suc_diff_le)
qed simp

subsection \<open>Fields\<close>

text \<open>The number of bytes of the white space that starts a string, 0 if none does.\<close>

fun space_width :: "string \<Rightarrow> nat" where
  "space_width [] = 0"
| "space_width [a] = (if ascii_space a then 1 else 0)"
| "space_width [a, b] = (if ascii_space a then 1 else if space2 a b then 2 else 0)"
| "space_width (a # b # c # s) = (if ascii_space a then 1 else if space2 a b then 2 else if space3 a b c then 3 else 0)"

definition flush_word :: "string \<Rightarrow> string list" where
  "flush_word cur = (if cur = [] then [] else [rev cur])"

function fields_loop :: "string \<Rightarrow> string \<Rightarrow> string list" where
  "fields_loop cur [] = flush_word cur"
| "fields_loop cur (c # s) =
     (if space_width (c # s) = 0 then fields_loop (c # cur) s
      else flush_word cur @ fields_loop [] (drop (space_width (c # s)) (c # s)))"
  by pat_completeness auto
termination
  by (relation "measure (\<lambda>(cur, s). length s)") auto

definition Fields :: "string \<Rightarrow> string list" where "Fields s = fields_loop [] s"

lemma fields_loop_nonempty: "w \<in> set (fields_loop cur s) \<Longrightarrow> w \<noteq> []"
  by (induction cur s rule: fields_loop.induct) (auto simp: flush_word_def split: if_splits)

lemma Fields_nonempty: "w \<in> set (Fields s) \<Longrightarrow> w \<noteq> []"
  using fields_loop_nonempty by (simp add: Fields_def)

subsection \<open>Substrings\<close>

text \<open>\<open>strings.Split\<close> with a non-empty separator; \<open>strings.Count\<close> and \<open>strings.ReplaceAll\<close>, which
  treat an empty pattern as occurring around every rune.\<close>

function SplitStr :: "string \<Rightarrow> string \<Rightarrow> string list" where
  "SplitStr s sep = (if sep = [] then explode s
     else case Index s sep of None \<Rightarrow> [s] | Some i \<Rightarrow> take i s # SplitStr (drop (i + length sep) s) sep)"
  by pat_completeness auto
termination
  by (relation "measure (\<lambda>(s, sep). length s)") (auto dest!: Index_length simp flip: length_greater_0_conv)

declare SplitStr.simps [simp del]

definition Count_str :: "string \<Rightarrow> string \<Rightarrow> nat" where
  "Count_str s sub = (if sub = [] then length (runes s) + 1 else length (SplitStr s sub) - 1)"

definition ReplaceAll :: "string \<Rightarrow> string \<Rightarrow> string \<Rightarrow> string" where
  "ReplaceAll s old new =
     (if old = [] then new @ concat (map (\<lambda>w. w @ new) (explode s)) else Join (SplitStr s old) new)"

lemma SplitStr_nonempty: "sep \<noteq> [] \<Longrightarrow> SplitStr s sep \<noteq> []"
  by (subst SplitStr.simps) (simp split: option.splits)

lemma Join_SplitStr: "sep \<noteq> [] \<Longrightarrow> Join (SplitStr s sep) sep = s"
proof (induction s sep rule: SplitStr.induct)
  case (1 s sep)
  show ?case
  proof (cases "Index s sep")
    case None
    with 1 show ?thesis by (subst SplitStr.simps) simp
  next
    case (Some i)
    let ?rest = "drop (i + length sep) s"
    have "Join (SplitStr s sep) sep = take i s @ sep @ Join (SplitStr ?rest sep) sep"
      using Some 1(2) SplitStr_nonempty [of sep ?rest] by (subst SplitStr.simps) (simp add: Join_Cons_nonempty)
    also have "\<dots> = s" using 1 Some Index_Some_split [of s sep i] by simp
    finally show ?thesis .
  qed
qed

lemma SplitStr_none: "\<not> Contains s sep \<Longrightarrow> sep \<noteq> [] \<Longrightarrow> SplitStr s sep = [s]"
  by (subst SplitStr.simps) (simp add: Contains_def)

lemma Count_str_zero: "sub \<noteq> [] \<Longrightarrow> Count_str s sub = 0 \<longleftrightarrow> \<not> Contains s sub"
  by (subst Count_str_def, subst SplitStr.simps) (auto simp: Contains_def SplitStr_nonempty split: option.splits)

lemma length_Join: "xs \<noteq> [] \<Longrightarrow> length (Join xs sep) = sum_list (map length xs) + (length xs - 1) * length sep"
proof (induction xs)
  case (Cons x xs)
  then show ?case by (cases xs) (simp_all add: algebra_simps)
qed simp

lemma length_ReplaceAll:
  assumes "old \<noteq> []"
  shows "length (ReplaceAll s old new) + Count_str s old * length old = length s + Count_str s old * length new"
proof -
  have n: "SplitStr s old \<noteq> []" by (rule SplitStr_nonempty [OF assms])
  have "length s = sum_list (map length (SplitStr s old)) + Count_str s old * length old"
    using Join_SplitStr [OF assms, of s] length_Join [OF n, of old] assms by (simp add: Count_str_def)
  with length_Join [OF n, of new] assms show ?thesis by (simp add: ReplaceAll_def Count_str_def)
qed

lemma ReplaceAll_self: "old \<noteq> [] \<Longrightarrow> ReplaceAll s old old = s"
  by (simp add: ReplaceAll_def Join_SplitStr)

subsection \<open>Last occurrences\<close>

text \<open>\<open>strings.LastIndex\<close> for one byte and \<open>strings.LastIndexAny\<close> for a set of ASCII bytes.\<close>

definition last_index :: "(char \<Rightarrow> bool) \<Rightarrow> string \<Rightarrow> nat option" where
  "last_index P s = (if \<exists>c \<in> set s. P c then Some (length s - Suc (length (takeWhile (\<lambda>c. \<not> P c) (rev s)))) else None)"

lemma last_index_split:
  assumes "last_index P s = Some i"
  shows "i < length s \<and> P (s ! i) \<and> (\<forall>c \<in> set (drop (Suc i) s). \<not> P c)"
proof -
  obtain c where c: "c \<in> set s" "P c" using assms by (auto simp: last_index_def split: if_splits)
  define k where "k = length (takeWhile (\<lambda>c. \<not> P c) (rev s))"
  have k: "k < length s"
  proof (rule ccontr)
    assume "\<not> k < length s"
    then have "length (rev s) \<le> k" by simp
    moreover have "takeWhile (\<lambda>c. \<not> P c) (rev s) = take k (rev s)" unfolding k_def by (rule takeWhile_eq_take)
    ultimately have "takeWhile (\<lambda>c. \<not> P c) (rev s) = rev s" by (simp only: take_all)
    then show False using c by (simp only: takeWhile_eq_all_conv) simp
  qed
  have i: "i = length s - Suc k" using assms c by (auto simp: last_index_def k_def split: if_splits)
  have "P (rev s ! k)" using nth_length_takeWhile [of "\<lambda>c. \<not> P c" "rev s"] k by (simp add: k_def)
  moreover have "drop (Suc i) s = rev (takeWhile (\<lambda>c. \<not> P c) (rev s))"
  proof -
    have "takeWhile (\<lambda>c. \<not> P c) (rev s) = take k (rev s)" unfolding k_def by (rule takeWhile_eq_take)
    then show ?thesis using k i by (simp add: rev_take Suc_diff_Suc)
  qed
  ultimately show ?thesis using k i by (auto simp: rev_nth dest: set_takeWhileD)
qed

subsection \<open>Encoding and decoding\<close>

definition scalar :: "nat \<Rightarrow> bool" where
  "scalar r \<longleftrightarrow> r < 1114112 \<and> \<not> (55296 \<le> r \<and> r \<le> 57343)"

definition byte :: "nat \<Rightarrow> char" where "byte n = char_of n"

lemma of_byte [simp]: "n < 256 \<Longrightarrow> (of_char (byte n) :: nat) = n"
  by (simp add: byte_def)

lemmas byte_order = less_eq_char_def less_char_def

lemma char_eq_nat: "c = d \<longleftrightarrow> (of_char c :: nat) = of_char d"
  by simp

lemma cont_byte: "n < 64 \<Longrightarrow> cont (byte (128 + n))"
  by (simp add: cont_def byte_order)

lemma base64_2: "(r div 64) * 64 + r mod 64 = (r::nat)" by simp

lemma base64_3: "(r div 4096) * 4096 + (r div 64 mod 64) * 64 + r mod 64 = (r::nat)"
proof -
  have "r div 4096 = r div 64 div 64" by (simp flip: div_mult2_eq)
  moreover have "r div 64 = (r div 64 div 64) * 64 + r div 64 mod 64" by simp
  ultimately show ?thesis using base64_2 [of r] by linarith
qed

lemma base64_4: "(r div 262144) * 262144 + (r div 4096 mod 64) * 4096 + (r div 64 mod 64) * 64 + r mod 64 = (r::nat)"
proof -
  have "r div 262144 = r div 4096 div 64" by (simp flip: div_mult2_eq)
  moreover have "r div 4096 = (r div 4096 div 64) * 64 + r div 4096 mod 64" by simp
  ultimately show ?thesis using base64_3 [of r] by linarith
qed

lemma decode_encode1: "r < 128 \<Longrightarrow> decode_rune (byte r) s = (r, s)"
  by (simp add: decode_rune_def byte_order)

lemma decode_encode2:
  assumes "128 \<le> r" and "r < 2048"
  shows "decode_rune (byte (192 + r div 64)) (byte (128 + r mod 64) # s) = (r, s)"
proof -
  have b: "r div 64 < 32" "2 \<le> r div 64" "r mod 64 < 64" using assms by auto
  have "rune2 (byte (192 + r div 64)) (byte (128 + r mod 64)) = Some r"
    using b cont_byte [of "r mod 64"] by (simp add: rune2_def byte_order)
  moreover have "\<not> byte (192 + r div 64) < CHR 0x80" using b by (simp add: byte_order)
  ultimately show ?thesis by (simp add: decode_rune_def)
qed

lemma decode_encode3:
  assumes "2048 \<le> r" and "r < 65536" and "\<not> (55296 \<le> r \<and> r \<le> 57343)"
  shows "decode_rune (byte (224 + r div 4096)) (byte (128 + r div 64 mod 64) # byte (128 + r mod 64) # s) = (r, s)"
proof -
  let ?h = "r div 4096" and ?m = "r div 64 mod 64" and ?l = "r mod 64"
  have b: "?h < 16" "?m < 64" "?l < 64" using assms by auto
  have v: "?h * 4096 + ?m * 64 + ?l = r" by (rule base64_3)
  have e: "?h = 0 \<Longrightarrow> 32 \<le> ?m" "?h = 13 \<Longrightarrow> ?m \<le> 31" using v b assms by linarith+
  have o: "(of_char (byte (128 + ?m)) :: nat) = 128 + ?m" "(of_char (byte (128 + ?l)) :: nat) = 128 + ?l"
    "(of_char (byte (224 + ?h)) :: nat) = 224 + ?h" using b by (intro of_byte; linarith)+
  have "rune3 (byte (224 + ?h)) (byte (128 + ?m)) (byte (128 + ?l)) = Some r"
    using b v e o cont_byte [of ?m] cont_byte [of ?l]
    by (simp add: rune3_def byte_order char_eq_nat del: of_char_eq_iff)
  moreover have "rune2 (byte (224 + ?h)) c = None" "\<not> byte (224 + ?h) < CHR 0x80" for c
    using b by (simp_all add: rune2_def byte_order)
  ultimately show ?thesis by (simp add: decode_rune_def)
qed

lemma decode_encode4:
  assumes "65536 \<le> r" and "r < 1114112"
  shows "decode_rune (byte (240 + r div 262144)) (byte (128 + r div 4096 mod 64) # byte (128 + r div 64 mod 64) # byte (128 + r mod 64) # s) = (r, s)"
proof -
  let ?t = "r div 262144" and ?h = "r div 4096 mod 64" and ?m = "r div 64 mod 64" and ?l = "r mod 64"
  have b: "?t < 5" "?h < 64" "?m < 64" "?l < 64" using assms by auto
  have v: "?t * 262144 + ?h * 4096 + ?m * 64 + ?l = r" by (rule base64_4)
  have e: "?t = 0 \<Longrightarrow> 16 \<le> ?h" "?t = 4 \<Longrightarrow> ?h \<le> 15" using v b assms by linarith+
  have o: "(of_char (byte (128 + ?h)) :: nat) = 128 + ?h" "(of_char (byte (128 + ?m)) :: nat) = 128 + ?m"
    "(of_char (byte (128 + ?l)) :: nat) = 128 + ?l" "(of_char (byte (240 + ?t)) :: nat) = 240 + ?t"
    using b by (intro of_byte; linarith)+
  have "rune4 (byte (240 + ?t)) (byte (128 + ?h)) (byte (128 + ?m)) (byte (128 + ?l)) = Some r"
    using b v e o cont_byte [of ?h] cont_byte [of ?m] cont_byte [of ?l]
    by (simp add: rune4_def byte_order char_eq_nat del: of_char_eq_iff)
  moreover have "rune2 (byte (240 + ?t)) c = None" "rune3 (byte (240 + ?t)) c d = None" "\<not> byte (240 + ?t) < CHR 0x80" for c d
    using b by (simp_all add: rune2_def rune3_def byte_order)
  ultimately show ?thesis by (simp add: decode_rune_def)
qed

lemma runes_encode: "scalar r \<Longrightarrow> runes (encode_rune r @ s) = r # runes s"
  by (auto simp: scalar_def encode_rune_def decode_encode1 decode_encode2 decode_encode3 decode_encode4
      simp flip: byte_def)

lemma runes_encode_all: "list_all scalar rs \<Longrightarrow> runes (concat (map encode_rune rs) @ s) = rs @ runes s"
  by (induction rs) (auto simp: runes_encode)

lemma of_char_byte: "(of_char c :: nat) < 256" by simp

lemma rune2_scalar: "rune2 a b = Some r \<Longrightarrow> scalar r"
  using rune2_small by (fastforce simp: scalar_def)

lemma rune3_scalar: "rune3 a b c = Some r \<Longrightarrow> scalar r"
proof -
  assume "rune3 a b c = Some r"
  then have r: "r = (of_char a - 224) * 4096 + (of_char b - 128) * 64 + (of_char c - 128)"
    and a: "224 \<le> (of_char a :: nat)" "(of_char a :: nat) \<le> 239"
    and b: "128 \<le> (of_char b :: nat)" "(of_char b :: nat) \<le> 191" "128 \<le> (of_char c :: nat)" "(of_char c :: nat) \<le> 191"
    and s: "(of_char a :: nat) = 237 \<Longrightarrow> (of_char b :: nat) \<le> 159"
    by (auto simp: rune3_def cont_def byte_order char_eq_nat simp del: of_char_eq_iff split: if_splits)
  define x y z where "x = (of_char a :: nat)" and "y = (of_char b :: nat)" and "z = (of_char c :: nat)"
  have "r < 65536" using r a b unfolding x_def [symmetric] y_def [symmetric] z_def [symmetric] by linarith
  moreover have "\<not> (55296 \<le> r \<and> r \<le> 57343)"
    using r a b s unfolding x_def [symmetric] y_def [symmetric] z_def [symmetric]
    by (cases "x = 237"; cases "x < 237") linarith+
  ultimately show ?thesis by (simp add: scalar_def)
qed

lemma rune4_scalar: "rune4 a b c d = Some r \<Longrightarrow> scalar r"
proof -
  assume h: "rune4 a b c d = Some r"
  then have r: "r = (of_char a - 240) * 262144 + (of_char b - 128) * 4096 + (of_char c - 128) * 64 + (of_char d - 128)"
    and a: "240 \<le> (of_char a :: nat)" "(of_char a :: nat) \<le> 244"
    and b: "(of_char b :: nat) \<le> 191" "(of_char c :: nat) \<le> 191" "(of_char d :: nat) \<le> 191"
    and s: "(of_char a :: nat) = 244 \<Longrightarrow> (of_char b :: nat) \<le> 143"
    by (auto simp: rune4_def cont_def byte_order char_eq_nat simp del: of_char_eq_iff split: if_splits)
  have "r < 1114112"
  proof (cases "(of_char a :: nat) = 244")
    case True
    with r b s show ?thesis by linarith
  next
    case False
    with a have "(of_char a :: nat) - 240 \<le> 3" by linarith
    with r b show ?thesis by linarith
  qed
  with rune4_large [OF h] show ?thesis by (simp add: scalar_def)
qed

lemma decode_scalar: "decode_rune a s = (r, t) \<Longrightarrow> scalar r"
  by (auto simp: decode_rune_def scalar_def [of 65533] byte_order
      split: if_splits option.splits list.splits dest: rune2_scalar rune3_scalar rune4_scalar) (auto simp: scalar_def)

lemma runes_scalar: "list_all scalar (runes s)"
  by (induction s rule: runes.induct) (auto split: prod.splits dest: decode_scalar)

lemma runes_ascii: "list_all (\<lambda>c. c < CHR 0x80) s \<Longrightarrow> runes s = map of_char s"
  by (induction s) (auto simp: decode_rune_def)

subsection \<open>Lower case and literals beyond ASCII\<close>

text \<open>\<open>strings.ToLower\<close>: byte by byte for an ASCII string, rune by rune otherwise, which also replaces invalid
  bytes by U+FFFD. The case tables of package unicode beyond ASCII are the argument \<open>low\<close>.\<close>

definition lower_rune :: "(nat \<Rightarrow> nat) \<Rightarrow> nat \<Rightarrow> nat" where
  "lower_rune low r = (if r < 0x80 then (if 65 \<le> r \<and> r \<le> 90 then r + 32 else r) else low r)"

definition ToLower_utf8 :: "(nat \<Rightarrow> nat) \<Rightarrow> string \<Rightarrow> string" where
  "ToLower_utf8 low s =
     (if list_all (\<lambda>c. c < CHR 0x80) s then ToLower s
      else concat (map (encode_rune \<circ> lower_rune low) (runes s)))"

definition utf8 :: "nat list \<Rightarrow> string" where
  "utf8 rs = concat (map encode_rune rs)"

lemma char_of_lit: "of_char c = (n :: nat) \<Longrightarrow> char_of n = c"
  by auto

end
