(* ===== verification/Wire.thy ===== *)
theory Wire
  imports Chain Normalize Vendor Compress Text "HOL-Library.AList"
begin

section \<open>The request body (protocol/openai.go: buildBody; schema_canonicalize.go)\<close>

text \<open>
  A request is turned into the JSON object of the chat-completions API: messages are normalized and
  the recent ones compressed, tools are sorted and their schemas put into a canonical form. The
  JSON codec of values (\<open>json.Unmarshal\<close> into \<open>any\<close> and \<open>json.Marshal\<close>) is an argument; the
  theorems hold for every codec.
\<close>

record json_codec =
  jc_unmarshal :: "string \<Rightarrow> gany option"
  jc_marshal :: "gany \<Rightarrow> string"

subsection \<open>The token estimate\<close>

definition is_cjk :: "nat \<Rightarrow> bool" where
  "is_cjk r = ((19968 \<le> r \<and> r \<le> 40959) \<or> (13312 \<le> r \<and> r \<le> 19903) \<or> (11904 \<le> r \<and> r \<le> 12287))"

definition message_tokens :: "string \<Rightarrow> int" where
  "message_tokens content =
     (let cjk = int (length (filter is_cjk (runes content))); ascii = int (length content) - cjk
      in go_div ascii 4 + cjk * 2)"

definition estimateTokens :: "Request \<Rightarrow> int" where
  "estimateTokens req = sum_list (map (\<lambda>m. message_tokens (m_Content m)) (rq_Messages req))"

subsection \<open>Messages\<close>

fun live_loop :: "Message list \<Rightarrow> nat \<Rightarrow> nat" where
  "live_loop msgs 0 = 0"
| "live_loop msgs (Suc i) = (if m_Role (msgs ! i) = RoleUser then i else live_loop msgs i)"

definition findLiveZoneStart :: "Message list \<Rightarrow> nat" where
  "findLiveZoneStart msgs = live_loop msgs (length msgs)"

text \<open>The two hash functions and what the compression cache holds.\<close>

record wire_env =
  we_sha :: "string \<Rightarrow> string"
  we_key :: "string \<Rightarrow> ContentType \<Rightarrow> string"
  we_lru :: "string \<rightharpoonup> string"

definition wire_content ::
  "wire_env \<Rightarrow> ContentPredictor \<Rightarrow> bool \<Rightarrow> Message \<Rightarrow> (ContentPredictor \<times> gany) option" where
  "wire_content w p live m =
     (if m_MultiContent m \<noteq> [] then Some (p, GArr (map GObj (m_MultiContent m)))
      else if live \<and> (m_Role m = RoleTool \<or> m_Role m = RoleUser) \<and> length (m_Content m) > 512 then
        (case Predict (we_sha w) p (m_Content m) of (p1, ct) \<Rightarrow>
           map_option (\<lambda>c. (p1, GStr c)) (CachedCompressContent (we_key w) (we_lru w) (m_Content m) ct))
      else Some (p, GStr (m_Content m)))"

definition wire_call :: "ToolCall \<Rightarrow> gany" where
  "wire_call tc = GObj [(''id'', GStr (tc_ID tc)), (''type'', GStr ''function''),
     (''function'', GObj [(''name'', GStr (tc_Name tc)), (''arguments'', GStr (tc_Arguments tc))])]"

definition wire_fields :: "Vendor \<Rightarrow> Message \<Rightarrow> gany \<Rightarrow> (string \<times> gany) list" where
  "wire_fields v m content =
     [(''role'', GStr (m_Role m)), (''content'', content)]
     @ (if m_ToolCalls m \<noteq> [] then
          (''tool_calls'', GArr (map wire_call (m_ToolCalls m)))
          # (if v = VendorDeepSeek then [(''reasoning_content'', GStr (m_ReasoningContent m))] else [])
        else [])
     @ (if m_ToolCallID m \<noteq> [] then [(''tool_call_id'', GStr (m_ToolCallID m))] else [])
     @ (if m_Name m \<noteq> [] then [(''name'', GStr (m_Name m))] else [])"

fun wire_loop ::
  "wire_env \<Rightarrow> Vendor \<Rightarrow> nat \<Rightarrow> nat \<Rightarrow> ContentPredictor \<Rightarrow> Message list \<Rightarrow> (ContentPredictor \<times> gany list) option" where
  "wire_loop w v liveIdx i p [] = Some (p, [])"
| "wire_loop w v liveIdx i p (m # ms) = (case wire_content w p (i \<ge> liveIdx) m of
     None \<Rightarrow> None
   | Some (p1, c) \<Rightarrow> map_option (\<lambda>(p2, out). (p2, GObj (wire_fields v m c) # out)) (wire_loop w v liveIdx (Suc i) p1 ms))"

definition toWireMessages ::
  "wire_env \<Rightarrow> Vendor \<Rightarrow> ContentPredictor \<Rightarrow> Message list \<Rightarrow> (ContentPredictor \<times> gany list) option" where
  "toWireMessages w v p msgs = wire_loop w v (findLiveZoneStart msgs) 0 p msgs"

subsection \<open>Tools\<close>

definition obj_get :: "(string \<times> gany) list \<Rightarrow> string \<Rightarrow> gany" where
  "obj_get obj k = (case map_of obj k of Some v \<Rightarrow> v | None \<Rightarrow> GNil)"

definition defaultSchema :: "json_codec \<Rightarrow> string" where
  "defaultSchema jc = jc_marshal jc (GObj [(''type'', GStr ''object''), (''properties'', GObj [])])"

definition complete_schema :: "(string \<times> gany) list \<Rightarrow> (string \<times> gany) list" where
  "complete_schema obj =
     (let o1 = (if obj_get obj ''type'' = GNil then AList.update ''type'' (GStr ''object'') obj else obj)
      in if obj_get o1 ''properties'' = GNil then AList.update ''properties'' (GObj []) o1 else o1)"

definition CanonicalizeSchema :: "json_codec \<Rightarrow> string \<Rightarrow> string" where
  "CanonicalizeSchema jc params =
     (if params = [] then defaultSchema jc
      else case jc_unmarshal jc params of
          Some (GObj obj) \<Rightarrow> jc_marshal jc (GObj (complete_schema obj))
        | _ \<Rightarrow> defaultSchema jc)"

lemma size_obj_member:
  assumes "(k, v) \<in> set obj"
  shows "size v < Suc (size_list (size_prod (\<lambda>_. 0) size) obj)"
proof -
  have "size_prod (\<lambda>_. 0) size (k, v) < Suc (size_list (size_prod (\<lambda>_. 0) size) obj)"
    using size_list_estimation' [OF assms, of "size_prod (\<lambda>_. 0) size (k, v)" "size_prod (\<lambda>_. 0) size"] by simp
  then show ?thesis by simp
qed

function sortKeysRecursive :: "json_codec \<Rightarrow> gany \<Rightarrow> string" where
  "sortKeysRecursive jc (GObj obj) =
     ''{'' @ Join (map (\<lambda>(k, v). jc_marshal jc (GStr k) @ '':'' @ sortKeysRecursive jc v) (sort_key fst obj)) '','' @ ''}''"
| "sortKeysRecursive jc (GArr vs) = ''['' @ Join (map (sortKeysRecursive jc) vs) '','' @ '']''"
| "sortKeysRecursive jc GNil = jc_marshal jc GNil"
| "sortKeysRecursive jc (GBool b) = jc_marshal jc (GBool b)"
| "sortKeysRecursive jc (GNum n) = jc_marshal jc (GNum n)"
| "sortKeysRecursive jc (GInt n) = jc_marshal jc (GInt n)"
| "sortKeysRecursive jc (GRaw s) = jc_marshal jc (GRaw s)"
| "sortKeysRecursive jc (GStr s) = jc_marshal jc (GStr s)"
  by pat_completeness auto

termination
  by (relation "measure (\<lambda>(jc, v). size v)") (auto dest: size_obj_member simp: less_Suc_eq_le size_list_estimation')

definition sortSchemaKeys :: "json_codec \<Rightarrow> string \<Rightarrow> string" where
  "sortSchemaKeys jc raw = (case jc_unmarshal jc raw of None \<Rightarrow> raw | Some v \<Rightarrow> sortKeysRecursive jc v)"

definition sanitizeTool :: "ToolSchema \<Rightarrow> ToolSchema" where
  "sanitizeTool t =
     (let t1 = (if TrimSpace (ts_Name t) = [] then t\<lparr>ts_Name := ''unnamed_tool''\<rparr> else t)
      in if TrimSpace (ts_Description t1) = [] then t1\<lparr>ts_Description := ''user-defined tool''\<rparr> else t1)"

definition wire_tool :: "json_codec \<Rightarrow> ToolSchema \<Rightarrow> gany" where
  "wire_tool jc t0 =
     (let t = sanitizeTool t0; params = sortSchemaKeys jc (CanonicalizeSchema jc (ts_Parameters t))
      in GObj [(''type'', GStr ''function''),
               (''function'', GObj [(''name'', GStr (ts_Name t)), (''description'', GStr (ts_Description t)),
                  (''parameters'', GRaw params)])])"

definition toWireTools :: "json_codec \<Rightarrow> ToolSchema list \<Rightarrow> gany list" where
  "toWireTools jc tools = map (wire_tool jc) (sort_key ts_Name tools)"

subsection \<open>The body\<close>

text \<open>\<open>json.Marshal\<close> fails on a NaN or infinite number (exponent bits all set); the body is then
  \<open>{}\<close>, the empty object. The optional numbers are the only floats the program puts in.\<close>

definition float_finite :: "64 word \<Rightarrow> bool" where
  "float_finite f = (take_bit 11 (drop_bit 52 f) \<noteq> 2047)"

definition buildBody ::
  "json_codec \<Rightarrow> wire_env \<Rightarrow> Vendor \<Rightarrow> reasoningPolicy \<Rightarrow> string \<Rightarrow> string \<Rightarrow> string \<Rightarrow> ContentPredictor \<Rightarrow> Request \<Rightarrow> bool \<Rightarrow>
   (ContentPredictor \<times> (string \<rightharpoonup> gany)) option" where
  "buildBody jc w v policy effort thinkingType model p req stream =
     (case toWireMessages w v p (NormalizeMessages (rq_Messages req)) of
        None \<Rightarrow> None
      | Some (p1, msgs) \<Rightarrow>
          let m = Map.empty(''model'' \<mapsto> GStr model, ''messages'' \<mapsto> GArr msgs, ''stream'' \<mapsto> GBool stream);
              m = (if stream then m(''stream_options'' \<mapsto> GObj [(''include_usage'', GBool True)]) else m);
              m = (if rq_Tools req \<noteq> [] then m(''tools'' \<mapsto> GArr (toWireTools jc (rq_Tools req))) else m);
              m = (case rq_Temperature req of Some t \<Rightarrow> m(''temperature'' \<mapsto> GNum t) | None \<Rightarrow> m);
              m = (case rq_TopP req of Some t \<Rightarrow> m(''top_p'' \<mapsto> GNum t) | None \<Rightarrow> m);
              m = (case rq_MaxTokens req of Some t \<Rightarrow> m(''max_tokens'' \<mapsto> GInt t) | None \<Rightarrow> m);
              m = (if rq_Stop req \<noteq> [] then m(''stop'' \<mapsto> GArr (map GStr (rq_Stop req))) else m);
              m = buildThinkingFields m v policy effort thinkingType
          in Some (p1, if pred_option float_finite (rq_Temperature req) \<and> pred_option float_finite (rq_TopP req)
                       then m else Map.empty))"

subsection \<open>Lemmas\<close>

lemma cjk_three_bytes: "decode_rune a s = (r, t) \<Longrightarrow> is_cjk r \<Longrightarrow> Suc (Suc (length t)) = length s"
proof -
  assume d: "decode_rune a s = (r, t)" and c: "is_cjk r"
  have "11904 \<le> r" "r < 65536" "r \<noteq> 65533" using c by (auto simp: is_cjk_def)
  moreover have "a < CHR 0x80 \<Longrightarrow> (of_char a :: nat) < 128" by (simp add: less_char_def)
  ultimately show ?thesis
    using d by (auto simp: decode_rune_def split: if_splits option.splits list.splits dest: rune2_small rune4_large)
qed

lemma cjk_bytes: "3 * length (filter is_cjk (runes s)) \<le> length s"
proof (induction s rule: runes.induct)
  case (2 a s)
  obtain r t where d: "decode_rune a s = (r, t)" by fastforce
  have IH: "3 * length (filter is_cjk (runes t)) \<le> length t" using 2 d by simp
  have "length t \<le> length s" using decode_rune_length [of a s] d by simp
  with d IH cjk_three_bytes [OF d] show ?case by auto
qed simp

lemma message_tokens_bounds:
  "int (length content) div 4 \<le> message_tokens content \<and> message_tokens content \<le> int (length content)"
proof -
  define n where "n = length (filter is_cjk (runes content))"
  have n: "3 * n \<le> length content" unfolding n_def by (rule cjk_bytes)
  have "message_tokens content = (int (length content) - int n) div 4 + int n * 2"
    using n by (simp add: message_tokens_def Let_def n_def [symmetric] go_div_nonneg)
  then show ?thesis using n by linarith
qed

lemma estimateTokens_nonneg: "0 \<le> estimateTokens req"
proof -
  have "0 \<le> message_tokens (m_Content m)" for m
    using message_tokens_bounds [of "m_Content m"] by (meson div_int_pos_iff of_nat_0_le_iff order_trans zero_le_numeral)
  then show ?thesis unfolding estimateTokens_def by (intro sum_list_nonneg) auto
qed

lemma live_loop_spec:
  "live_loop msgs n \<le> n \<and> (\<forall>j. live_loop msgs n < j \<and> j < n \<longrightarrow> m_Role (msgs ! j) \<noteq> RoleUser)"
  by (induction n) (auto simp: less_Suc_eq)

lemma wire_content_old:
  "wire_content w p False m = Some (p1, c) \<Longrightarrow> m_MultiContent m = [] \<Longrightarrow> c = GStr (m_Content m) \<and> p1 = p"
  by (auto simp: wire_content_def)

lemma wire_loop_items:
  "wire_loop w v k i p ms = Some (p', out) \<Longrightarrow> length out = length ms
     \<and> (\<forall>j < length ms. \<exists>c. out ! j = GObj (wire_fields v (ms ! j) c)
          \<and> (i + j < k \<and> m_MultiContent (ms ! j) = [] \<longrightarrow> c = GStr (m_Content (ms ! j))))"
proof (induction ms arbitrary: i p out)
  case (Cons m ms)
  from Cons.prems obtain p1 c out1 where
    c: "wire_content w p (k \<le> i) m = Some (p1, c)" and l: "wire_loop w v k (Suc i) p1 ms = Some (p', out1)"
      and o: "out = GObj (wire_fields v m c) # out1" by (auto split: option.splits)
  have "i < k \<and> m_MultiContent m = [] \<longrightarrow> c = GStr (m_Content m)"
    using c wire_content_old by auto
  with Cons.IH [OF l] o show ?case by (auto simp: nth_Cons less_Suc_eq_0_disj split: nat.splits)
qed simp

subsection \<open>Properties\<close>



text \<open>Serializing a conversation keeps every message, in order, with its role, tool calls and
  identifiers; and no message before the last user message is ever compressed: its text is sent
  verbatim.\<close>

theorem wire_messages_verbatim:
  assumes "toWireMessages w v p msgs = Some (p', out)"
  shows "length out = length msgs
    \<and> (\<forall>j < length msgs. \<exists>c. out ! j = GObj (wire_fields v (msgs ! j) c)
         \<and> (m_MultiContent (msgs ! j) = [] \<and> (\<exists>k. j < k \<and> k < length msgs \<and> m_Role (msgs ! k) = RoleUser)
              \<longrightarrow> c = GStr (m_Content (msgs ! j))))"
proof -
  have "j < findLiveZoneStart msgs"
    if "j < k" "k < length msgs" "m_Role (msgs ! k) = RoleUser" for j k
  proof (rule ccontr)
    assume "\<not> j < findLiveZoneStart msgs"
    then have "live_loop msgs (length msgs) < k" using that(1) by (simp add: findLiveZoneStart_def)
    with live_loop_spec [of msgs "length msgs"] that(2,3) show False by blast
  qed
  note old = this
  note items = wire_loop_items [OF assms [unfolded toWireMessages_def]]
  show ?thesis
  proof (intro conjI allI impI)
    show "length out = length msgs" using items by blast
  next
    fix j assume "j < length msgs"
    then obtain c where c: "out ! j = GObj (wire_fields v (msgs ! j) c)"
      "j < findLiveZoneStart msgs \<and> m_MultiContent (msgs ! j) = [] \<longrightarrow> c = GStr (m_Content (msgs ! j))"
      using items by auto
    with old show "\<exists>c. out ! j = GObj (wire_fields v (msgs ! j) c)
         \<and> (m_MultiContent (msgs ! j) = [] \<and> (\<exists>k. j < k \<and> k < length msgs \<and> m_Role (msgs ! k) = RoleUser)
              \<longrightarrow> c = GStr (m_Content (msgs ! j)))"
      by (intro exI [of _ c]) blast
  qed
qed

theorem wire_messages_verbatim_witness:
  "\<exists>p' out c. toWireMessages \<lparr>we_sha = id, we_key = (\<lambda>s _. s), we_lru = Map.empty\<rparr> VendorQwen (NewContentPredictor True)
      [zero_Message\<lparr>m_Role := RoleTool, m_Content := ''old''\<rparr>, zero_Message\<lparr>m_Role := RoleUser\<rparr>] = Some (p', out)
    \<and> out ! 0 = GObj (wire_fields VendorQwen (zero_Message\<lparr>m_Role := RoleTool, m_Content := ''old''\<rparr>) c) \<and> c = GStr ''old''"
proof -
  let ?w = "\<lparr>we_sha = id, we_key = (\<lambda>s _. s), we_lru = Map.empty\<rparr>"
  let ?m = "zero_Message\<lparr>m_Role := RoleTool, m_Content := ''old''\<rparr>"
  let ?ms = "[?m, zero_Message\<lparr>m_Role := RoleUser\<rparr>]"
  obtain p' out where e: "toWireMessages ?w VendorQwen (NewContentPredictor True) ?ms = Some (p', out)"
    by (simp add: toWireMessages_def wire_content_def zero_Message_def)
  have "\<forall>j < length ?ms. \<exists>c. out ! j = GObj (wire_fields VendorQwen (?ms ! j) c)
         \<and> (m_MultiContent (?ms ! j) = [] \<and> (\<exists>k. j < k \<and> k < length ?ms \<and> m_Role (?ms ! k) = RoleUser)
              \<longrightarrow> c = GStr (m_Content (?ms ! j)))"
    using wire_messages_verbatim [OF e] by (rule conjunct2)
  from this [rule_format, of 0] obtain c where c: "out ! 0 = GObj (wire_fields VendorQwen ?m c)"
    "(\<exists>k. 0 < k \<and> k < length ?ms \<and> m_Role (?ms ! k) = RoleUser) \<longrightarrow> c = GStr ''old''"
    by (auto simp: zero_Message_def)
  have "\<exists>k. 0 < k \<and> k < length ?ms \<and> m_Role (?ms ! k) = RoleUser" by (intro exI [of _ 1]) simp
  with c e show ?thesis by blast
qed

text \<open>The token estimate used for rate limiting is bounded by the text: it is never negative, at
  least a quarter of the bytes of each message (rounded down) and at most the number of bytes.\<close>

theorem estimate_bounds:
  "sum_list (map (\<lambda>m. int (length (m_Content m)) div 4) (rq_Messages req)) \<le> estimateTokens req
   \<and> estimateTokens req \<le> sum_list (map (\<lambda>m. int (length (m_Content m))) (rq_Messages req))
   \<and> 0 \<le> estimateTokens req"
  unfolding estimateTokens_def [of req]
  using message_tokens_bounds estimateTokens_nonneg [of req]
  by (auto intro!: sum_list_mono simp: estimateTokens_def)

end
