(* ===== verification/Client.thy ===== *)
theory Client
  imports Wire Sse Retry RateLimit UrlValidator
begin

section \<open>The chat client (protocol/openai.go, failover.go)\<close>

text \<open>
  \<open>OpenAI\<close> holds the endpoint, keys, limits and failover rule of one provider. \<open>Chat\<close> sends one
  request and, on failure, tries the fallback endpoint; \<open>Stream\<close> reconnects and then applies the
  failover rule. The network, clock, context and hooks are the environment of a call: for each
  attempt a record says what they do. Every HTTP request is logged with the endpoint and key it
  uses.
\<close>

subsection \<open>Failover rule (failover.go)\<close>

record FailoverConfig =
  fo_MaxRetries :: int
  fo_ShouldFailover :: "(string \<Rightarrow> string \<Rightarrow> gerror \<Rightarrow> bool) option"
  fo_GetFailoverModel :: "(string \<Rightarrow> string \<Rightarrow> string \<times> string \<times> bool) option"

definition shouldFailover :: "FailoverConfig \<Rightarrow> string \<Rightarrow> string \<Rightarrow> gerror \<Rightarrow> bool" where
  "shouldFailover c model vendor err = (case fo_ShouldFailover c of None \<Rightarrow> True | Some f \<Rightarrow> f model vendor err)"

definition getFailoverModel :: "FailoverConfig \<Rightarrow> string \<Rightarrow> string \<Rightarrow> string \<times> string \<times> bool" where
  "getFailoverModel c model vendor = (case fo_GetFailoverModel c of None \<Rightarrow> ([], [], False) | Some f \<Rightarrow> f model vendor)"

definition maxRetries :: "FailoverConfig \<Rightarrow> nat" where
  "maxRetries c = (if fo_MaxRetries c \<le> 0 then 2 else nat (fo_MaxRetries c))"

definition defaultFailoverConfig :: FailoverConfig where
  "defaultFailoverConfig = \<lparr>fo_MaxRetries = 2, fo_ShouldFailover = Some (\<lambda>_ _ _. True),
     fo_GetFailoverModel = Some (\<lambda>_ _. ([], [], False))\<rparr>"

definition zero_FailoverConfig :: FailoverConfig where
  "zero_FailoverConfig = \<lparr>fo_MaxRetries = 0, fo_ShouldFailover = None, fo_GetFailoverModel = None\<rparr>"

definition fallback_config :: "string \<Rightarrow> string \<Rightarrow> FailoverConfig" where
  "fallback_config model url = \<lparr>fo_MaxRetries = 2, fo_ShouldFailover = Some (\<lambda>_ _ _. True),
     fo_GetFailoverModel = Some (\<lambda>_ _. (model, url, True))\<rparr>"

subsection \<open>The client\<close>

record Config =
  c_APIKey :: string
  c_APIKeys :: "string list"
  c_BaseURL :: string
  c_Model :: string
  c_StreamTimeout :: int
  c_RateLimitRPM :: int
  c_RateLimitTPM :: int
  c_ContextWarnPct :: int
  c_ContextCompressPct :: int
  c_MaxReconnect :: int
  c_HealthCheckURL :: string
  c_FallbackModel :: string
  c_FallbackBaseURL :: string

record OpenAI =
  oa_apiKey :: string
  oa_apiKeys :: "string list"
  oa_keyIndex :: nat
  oa_baseURL :: string
  oa_model :: string
  oa_name :: string
  oa_vendor :: Vendor
  oa_effort :: string
  oa_thinkingType :: string
  oa_policy :: reasoningPolicy
  oa_streamTimeout :: int
  oa_maxReconnect :: nat
  oa_rateLimiter :: RateLimiter
  oa_Telemetry :: Telemetry
  oa_lastUsage :: "Usage option"
  oa_failover :: FailoverConfig

definition completions_url :: "string \<Rightarrow> string" where
  "completions_url baseURL = TrimRight baseURL ''/'' @ ''/chat/completions''"

text \<open>The second component is the registration with the health manager: vendor and endpoint.\<close>

definition NewOpenAI :: "bool \<Rightarrow> Config \<Rightarrow> url_error + OpenAI \<times> Vendor \<times> string" where
  "NewOpenAI allowPrivate cfg =
     (let baseURL = TrimRight (c_BaseURL cfg) ''/'' in
      case ValidateBaseURL allowPrivate baseURL of
        Some e \<Rightarrow> Inl e
      | None \<Rightarrow>
          let keys = (if c_APIKeys cfg = [] \<and> c_APIKey cfg \<noteq> [] then [c_APIKey cfg] else c_APIKeys cfg);
              vendor = DetectVendor baseURL;
              healthURL = (if c_HealthCheckURL cfg = [] then defaultHealthEndpoint vendor baseURL else c_HealthCheckURL cfg)
          in Inr (\<lparr>oa_apiKey = c_APIKey cfg, oa_apiKeys = keys, oa_keyIndex = 0,
               oa_baseURL = baseURL @ ''/chat/completions'', oa_model = c_Model cfg, oa_name = c_Model cfg,
               oa_vendor = vendor, oa_effort = [], oa_thinkingType = [], oa_policy = resolveReasoningPolicy vendor,
               oa_streamTimeout = (if c_StreamTimeout cfg \<le> 0 then 120 * Second else c_StreamTimeout cfg),
               oa_maxReconnect = (if c_MaxReconnect cfg \<le> 0 then 3 else nat (c_MaxReconnect cfg)),
               oa_rateLimiter = NewRateLimiter (c_RateLimitRPM cfg) (c_RateLimitTPM cfg),
               oa_Telemetry = SetThresholds NewTelemetry (c_ContextWarnPct cfg) (c_ContextCompressPct cfg),
               oa_lastUsage = None,
               oa_failover = (if c_FallbackModel cfg \<noteq> [] \<and> c_FallbackBaseURL cfg \<noteq> []
                 then fallback_config (c_FallbackModel cfg) (c_FallbackBaseURL cfg) else zero_FailoverConfig)\<rparr>,
               vendor, healthURL))"

definition applyFailover :: "OpenAI \<Rightarrow> string \<Rightarrow> string \<Rightarrow> OpenAI" where
  "applyFailover oa model baseURL =
     oa\<lparr>oa_baseURL := completions_url baseURL, oa_model := model, oa_vendor := DetectVendor baseURL,
       oa_policy := resolveReasoningPolicy (DetectVendor baseURL)\<rparr>"

definition currentKey :: "OpenAI \<Rightarrow> string" where
  "currentKey oa = (if oa_keyIndex oa < length (oa_apiKeys oa) then oa_apiKeys oa ! oa_keyIndex oa else oa_apiKey oa)"

definition rotateKey :: "OpenAI \<Rightarrow> OpenAI \<times> bool" where
  "rotateKey oa = (if length (oa_apiKeys oa) \<le> 1 then (oa, False)
     else (oa\<lparr>oa_keyIndex := (oa_keyIndex oa + 1) mod length (oa_apiKeys oa)\<rparr>, True))"

definition idleTimeout :: "int \<Rightarrow> int" where
  "idleTimeout d = (if d \<le> 0 then 120 * Second else d)"

text \<open>What a request is sent with: endpoint, key and body.\<close>

definition buildHTTPRequest ::
  "json_codec \<Rightarrow> wire_env \<Rightarrow> ContentPredictor \<Rightarrow> OpenAI \<Rightarrow> Request \<Rightarrow>
   (ContentPredictor \<times> string \<times> string \<times> (string \<rightharpoonup> gany)) option" where
  "buildHTTPRequest jc w p oa req =
     map_option (\<lambda>(p1, body). (p1, oa_baseURL oa, currentKey oa, body))
       (buildBody jc w (oa_vendor oa) (oa_policy oa) (oa_effort oa) (oa_thinkingType oa) (oa_model oa) p req True)"

text \<open>The same for the loops below: endpoint, key, model and the request whose body is built.\<close>

type_synonym target = "string \<times> string \<times> string \<times> Request"

definition target_of :: "OpenAI \<Rightarrow> Request \<Rightarrow> target" where
  "target_of oa req = (oa_baseURL oa, currentKey oa, oa_model oa, req)"

subsection \<open>Chat\<close>

record chat_msg =
  cm_Content :: string
  cm_ReasoningContent :: string
  cm_ToolCalls :: "ToolCall list"

record chat_result =
  rb_Choices :: "chat_msg list"
  rb_Usage :: "Usage option"
  rb_Error :: "string option"

record chat_io =
  ci_newReq_err :: "gerror option"
  ci_outcome :: do_outcome
  ci_dur :: "64 word"

text \<open>The caller's context: the session ID it carries and the decoder of response bodies.\<close>

record chat_ctx =
  cx_sid :: "string option"
  cx_unmarshal :: "string \<Rightarrow> gerror + chat_result"

definition chat_outcome :: "chat_ctx \<Rightarrow> chat_io \<Rightarrow> gerror + Response" where
  "chat_outcome cx io = (case ci_newReq_err io of
     Some e \<Rightarrow> Inl e
   | None \<Rightarrow> (case ci_outcome io of
       DoErr e \<Rightarrow> Inl (ErrWrap ''request failed'' e)
     | DoResp status body _ \<Rightarrow>
         if status \<noteq> 200 then Inl (ErrMsg (''API error (status='' @ show_nat status @ ''): '' @ TrimSpace body))
         else case cx_unmarshal cx body of
             Inl e \<Rightarrow> Inl (ErrWrap ''parse response'' e)
           | Inr r \<Rightarrow> (case rb_Error r of
               Some msg \<Rightarrow> Inl (ErrMsg (''API error: '' @ msg))
             | None \<Rightarrow> (case rb_Choices r of
                 [] \<Rightarrow> Inl (ErrMsg ''API returned empty choices'')
               | m # _ \<Rightarrow> Inr \<lparr>r_Content = cm_Content m, r_ReasoningContent = cm_ReasoningContent m,
                     r_ToolCalls = cm_ToolCalls m, r_Usage = rb_Usage r, r_Warning = []\<rparr>))))"

text \<open>Returns the client, the requests that reached the network, and the result.\<close>

definition chatDirect :: "chat_ctx \<Rightarrow> chat_io \<Rightarrow> Request \<Rightarrow> OpenAI \<Rightarrow> OpenAI \<times> target list \<times> (gerror + Response)" where
  "chatDirect cx io req oa =
     (let sent = (if ci_newReq_err io = None then [target_of oa req] else []) in
      case chat_outcome cx io of
        Inl e \<Rightarrow> (oa, sent, Inl e)
      | Inr resp \<Rightarrow>
          (oa\<lparr>oa_Telemetry := fst (RecordFromContext (oa_Telemetry oa) (cx_sid cx) (oa_model oa)
                (Vendor_String (oa_vendor oa)) (ci_dur io) (r_Usage resp))\<rparr>, sent, Inr resp))"

text \<open>\<open>left\<close> counts the attempts that remain; \<open>attempt\<close> is the loop variable.\<close>

fun chat_loop ::
  "chat_ctx \<Rightarrow> (nat \<Rightarrow> chat_io) \<Rightarrow> Request \<Rightarrow> nat \<Rightarrow> nat \<Rightarrow> gerror \<Rightarrow> OpenAI \<Rightarrow> OpenAI \<times> target list \<times> (gerror + Response)" where
  "chat_loop cx io req 0 attempt lastErr oa = (oa, [], Inl lastErr)"
| "chat_loop cx io req (Suc left) attempt lastErr oa =
     (let vs = Vendor_String (oa_vendor oa) in
      case getFailoverModel (oa_failover oa) (oa_model oa) vs of (fm, fu, ok) \<Rightarrow>
      if attempt > 0 \<and> \<not> shouldFailover (oa_failover oa) (oa_model oa) vs lastErr then (oa, [], Inl lastErr)
      else if attempt > 0 \<and> \<not> ok then (oa, [], Inl lastErr)
      else
        let oa1 = (if attempt > 0 then applyFailover oa fm fu else oa) in
        case chatDirect cx (io attempt) req oa1 of (oa2, sent, r) \<Rightarrow>
          (case r of
             Inr resp \<Rightarrow> (oa2, sent, Inr resp)
           | Inl e \<Rightarrow> (case chat_loop cx io req left (Suc attempt) e oa2 of (oa3, sent3, r3) \<Rightarrow> (oa3, sent @ sent3, r3))))"

definition chatWithFailover :: "chat_ctx \<Rightarrow> (nat \<Rightarrow> chat_io) \<Rightarrow> Request \<Rightarrow> OpenAI \<Rightarrow> OpenAI \<times> target list \<times> (gerror + Response)" where
  "chatWithFailover cx io req oa = chat_loop cx io req (Suc (maxRetries (oa_failover oa))) 0 (ErrMsg []) oa"

text \<open>What the rate limiter meets: the time, whether the context ends a sleep, and the time after it.\<close>

record wait_env =
  wv_now :: int
  wv_ctx :: "gerror option"
  wv_wake :: int

definition limit :: "wait_env \<Rightarrow> Request \<Rightarrow> OpenAI \<Rightarrow> OpenAI \<times> gerror option" where
  "limit we req oa =
     (case Wait (oa_rateLimiter oa) (wv_now we) (estimateTokens req) (wv_ctx we) (wv_wake we) of (rl, r) \<Rightarrow>
        (oa\<lparr>oa_rateLimiter := rl\<rparr>, case r of Cancelled _ e \<Rightarrow> Some e | _ \<Rightarrow> None))"

definition Chat ::
  "'s LifecycleHook list \<Rightarrow> chat_ctx \<Rightarrow> wait_env \<Rightarrow> (nat \<Rightarrow> chat_io) \<Rightarrow> 's \<Rightarrow> OpenAI \<Rightarrow> Request \<Rightarrow>
   's \<times> OpenAI \<times> target list \<times> (gerror + Response)" where
  "Chat hooks cx we io s oa req =
     (case limit we req oa of (oa1, lim) \<Rightarrow>
      case lim of
        Some e \<Rightarrow> (fst (RunOnErrorHooks hooks s req e), oa1, [], Inl e)
      | None \<Rightarrow>
      case RunBeforeProcessHooks hooks s req of (s1, b) \<Rightarrow>
      case b of
        Inl e \<Rightarrow> (fst (RunOnErrorHooks hooks s1 req e), oa1, [], Inl e)
      | Inr req1 \<Rightarrow>
      case chatWithFailover cx io req1 oa1 of (oa2, sent, r) \<Rightarrow>
      case r of
        Inl e \<Rightarrow> (fst (RunOnErrorHooks hooks s1 req1 e), oa2, sent, Inl e)
      | Inr resp \<Rightarrow>
      case RunAfterProcessHooks req1 hooks s1 resp of (s2, a) \<Rightarrow>
      case a of
        Inl e \<Rightarrow> (fst (RunOnErrorHooks hooks s2 req1 e), oa2, sent, Inl e)
      | Inr resp1 \<Rightarrow> (s2, oa2, sent, Inr resp1))"

subsection \<open>Stream\<close>

record attempt_io =
  ai_ctx_done :: "gerror option"
  ai_send :: "nat \<Rightarrow> attempt_env"
  ai_lines :: "string list"
  ai_scanErr :: "gerror option"
  ai_stalled :: bool
  ai_dur :: "64 word"

text \<open>\<open>ai_ctx_done\<close>: the context ends during the reconnect delay; \<open>ai_lines\<close>, \<open>ai_scanErr\<close>,
  \<open>ai_stalled\<close>: what the body of a successful response yields.\<close>

record 's stream_env =
  se_hooks :: "'s LifecycleHook list"
  se_unmarshal :: "string \<Rightarrow> sse_data option"
  se_accept :: "nat \<Rightarrow> bool"
  se_ctxErr :: gerror
  se_sid :: "string option"
  se_io :: "nat \<Rightarrow> attempt_io"

record 's stream_state =
  ss_o :: OpenAI
  ss_net :: "Vendor \<Rightarrow> net_state"
  ss_world :: 's
  ss_out :: "Chunk list"
  ss_tries :: nat
  ss_emitted :: bool
  ss_lastErr :: "gerror option"
  ss_sends :: "target list"

definition io_cfg :: "'s stream_env \<Rightarrow> OpenAI \<Rightarrow> stream_cfg" where
  "io_cfg env oa = \<lparr>sf_vendor = oa_vendor oa, sf_model = oa_model oa, sf_telemetry = oa_Telemetry oa,
     sf_accept = se_accept env, sf_ctxErr = se_ctxErr env\<rparr>"

definition send_error :: "'s stream_env \<Rightarrow> 's stream_state \<Rightarrow> gerror option \<Rightarrow> 's stream_state" where
  "send_error env st err =
     (let rs = sendChunk (io_cfg env (ss_o st)) (rs_init (ss_out st) (ss_tries st) None)
                 ((zero_Chunk ChunkError)\<lparr>ch_Error := err\<rparr>)
      in st\<lparr>ss_out := rs_out rs, ss_tries := rs_tries rs\<rparr>)"

definition recordStreamCall :: "string option \<Rightarrow> 64 word \<Rightarrow> gerror option \<Rightarrow> OpenAI \<Rightarrow> OpenAI \<times> Usage option" where
  "recordStreamCall sid dur err oa =
     (let usage = oa_lastUsage oa; oa1 = oa\<lparr>oa_lastUsage := None\<rparr> in
      if err \<noteq> None then (oa1, None)
      else (oa1\<lparr>oa_Telemetry := fst (RecordFromContext (oa_Telemetry oa1) sid (oa_model oa1)
              (Vendor_String (oa_vendor oa1)) dur usage)\<rparr>, usage))"

definition stream_success :: "'s stream_env \<Rightarrow> Request \<Rightarrow> attempt_io \<Rightarrow> 's stream_state \<Rightarrow> 's stream_state" where
  "stream_success env req io st =
     (case recordStreamCall (se_sid env) (ai_dur io) None (ss_o st) of (oa1, usage) \<Rightarrow>
      case RunAfterProcessHooks req (se_hooks env) (ss_world st)
             \<lparr>r_Content = [], r_ReasoningContent = [], r_ToolCalls = [], r_Usage = usage, r_Warning = []\<rparr> of (w1, a) \<Rightarrow>
      st\<lparr>ss_o := oa1,
         ss_world := (case a of Inl e \<Rightarrow> fst (RunOnErrorHooks (se_hooks env) w1 req e) | Inr _ \<Rightarrow> w1),
         ss_net := (ss_net st)(oa_vendor oa1 := net_success (ss_net st (oa_vendor oa1)))\<rparr>)"

text \<open>One request and the reading of its response; the second component is \<open>continue\<close>.\<close>

definition read_response :: "'s stream_env \<Rightarrow> Request \<Rightarrow> attempt_io \<Rightarrow> 's stream_state \<Rightarrow> 's stream_state \<times> bool" where
  "read_response env req io st =
     (case readStream (io_cfg env (ss_o st)) (se_unmarshal env) (rs_init (ss_out st) (ss_tries st) (oa_lastUsage (ss_o st)))
             (ai_lines io) (ai_scanErr io) (ai_stalled io) of (rs, err) \<Rightarrow>
      let st1 = st\<lparr>ss_out := rs_out rs, ss_tries := rs_tries rs, ss_emitted := rs_emitted rs,
                   ss_o := (ss_o st)\<lparr>oa_lastUsage := rs_lastUsage rs\<rparr>\<rparr>
      in case err of
          Some e \<Rightarrow>
            let st2 = st1\<lparr>ss_lastErr := Some e\<rparr> in
            if rs_emitted rs \<or> \<not> IsConnReset (Some e)
            then (if \<not> rs_emitted rs then send_error env st2 (Some e) else st2, False)
            else (st2, True)
        | None \<Rightarrow> (stream_success env req io st1, False))"

definition one_attempt :: "'s stream_env \<Rightarrow> Request \<Rightarrow> nat \<Rightarrow> 's stream_state \<Rightarrow> 's stream_state \<times> bool" where
  "one_attempt env req attempt st =
     (let io = se_io env attempt; oa = ss_o st; v = oa_vendor oa in
      case SendWithRetry v (ai_send io) (ss_net st v) of (net, evs, res) \<Rightarrow>
      let st1 = st\<lparr>ss_net := (ss_net st)(v := net), ss_sends := ss_sends st @ map (\<lambda>_. target_of oa req) (requests evs)\<rparr> in
      case res of
        Inl e \<Rightarrow>
          (st1\<lparr>ss_lastErr := Some e,
               ss_o := (if errors_As e is_AuthError \<noteq> None then fst (rotateKey oa) else oa)\<rparr>, True)
      | Inr _ \<Rightarrow> read_response env req io st1)"

fun stream_loop :: "'s stream_env \<Rightarrow> Request \<Rightarrow> nat \<Rightarrow> nat \<Rightarrow> nat \<Rightarrow> nat \<Rightarrow> 's stream_state \<Rightarrow> 's stream_state" where
  "stream_loop env req mr fm 0 attempt st =
     (let st1 = send_error env st (ss_lastErr st)
      in st1\<lparr>ss_o := fst (recordStreamCall (se_sid env) 0 (ss_lastErr st) (ss_o st1))\<rparr>)"
| "stream_loop env req mr fm (Suc left) attempt st =
     (let oa = ss_o st; vs = Vendor_String (oa_vendor oa) in
      if attempt > 0 \<and> ss_emitted st then send_error env st (ss_lastErr st)
      else if attempt > 0 \<and> fm > 0 \<and> attempt > mr then
        (if \<not> shouldFailover (oa_failover oa) (oa_model oa) vs (the (ss_lastErr st)) then send_error env st (ss_lastErr st)
         else case getFailoverModel (oa_failover oa) (oa_model oa) vs of (m, u, ok) \<Rightarrow>
           if \<not> ok then send_error env st (ss_lastErr st)
           else stream_loop env req mr fm left (Suc attempt) (st\<lparr>ss_o := applyFailover oa m u\<rparr>))
      else if attempt > 0 \<and> ai_ctx_done (se_io env attempt) \<noteq> None then
        st\<lparr>ss_lastErr := ai_ctx_done (se_io env attempt)\<rparr>
      else case one_attempt env req attempt st of (st1, continue) \<Rightarrow>
        if continue then stream_loop env req mr fm left (Suc attempt) st1 else st1)"

declare stream_loop.simps(2) [simp del]

definition streamWithFailover :: "'s stream_env \<Rightarrow> wait_env \<Rightarrow> Request \<Rightarrow> 's stream_state \<Rightarrow> 's stream_state" where
  "streamWithFailover env we req st =
     (case limit we req (ss_o st) of (oa1, lim) \<Rightarrow>
      let st1 = st\<lparr>ss_o := oa1\<rparr> in
      case lim of
        Some e \<Rightarrow> send_error env (st1\<lparr>ss_world := fst (RunOnErrorHooks (se_hooks env) (ss_world st) req e)\<rparr>) (Some e)
      | None \<Rightarrow>
          let mr = oa_maxReconnect oa1; fm = maxRetries (oa_failover oa1);
              st2 = stream_loop env req mr fm (mr + fm + 2) 0 st1
          in case ss_lastErr st2 of
              Some e \<Rightarrow> st2\<lparr>ss_world := fst (RunOnErrorHooks (se_hooks env) (ss_world st2) req e)\<rparr>
            | None \<Rightarrow> st2)"

definition stream_init :: "OpenAI \<Rightarrow> (Vendor \<Rightarrow> net_state) \<Rightarrow> 's \<Rightarrow> 's stream_state" where
  "stream_init oa net w = \<lparr>ss_o = oa, ss_net = net, ss_world = w, ss_out = [], ss_tries = 0, ss_emitted = False,
     ss_lastErr = None, ss_sends = []\<rparr>"

definition Stream ::
  "'s stream_env \<Rightarrow> wait_env \<Rightarrow> Request \<Rightarrow> OpenAI \<Rightarrow> (Vendor \<Rightarrow> net_state) \<Rightarrow> 's \<Rightarrow> gerror \<times> 's + 's stream_state" where
  "Stream env we req oa net w = (case RunBeforeProcessHooks (se_hooks env) w req of (w1, b) \<Rightarrow>
     (case b of
        Inl e \<Rightarrow> Inl (e, fst (RunOnErrorHooks (se_hooks env) w1 req e))
      | Inr req1 \<Rightarrow> Inr (streamWithFailover env we req1 (stream_init oa net w1))))"

subsection \<open>Lemmas: keys and failover\<close>

lemma maxRetries_pos: "0 < maxRetries c"
  by (simp add: maxRetries_def)

lemma applyFailover_fields [simp]:
  "oa_failover (applyFailover oa m u) = oa_failover oa" "oa_maxReconnect (applyFailover oa m u) = oa_maxReconnect oa"
  "currentKey (applyFailover oa m u) = currentKey oa" "oa_baseURL (applyFailover oa m u) = completions_url u"
  "oa_model (applyFailover oa m u) = m"
  by (simp_all add: applyFailover_def currentKey_def)

lemma fallback_rules [simp]:
  "shouldFailover (fallback_config m u) a b e" "getFailoverModel (fallback_config m u) a b = (m, u, True)"
  "maxRetries (fallback_config m u) = 2"
  by (simp_all add: fallback_config_def shouldFailover_def getFailoverModel_def maxRetries_def)

lemma rotateKey_frame [simp]:
  "oa_baseURL (fst (rotateKey oa)) = oa_baseURL oa" "oa_failover (fst (rotateKey oa)) = oa_failover oa"
  "oa_model (fst (rotateKey oa)) = oa_model oa" "oa_apiKeys (fst (rotateKey oa)) = oa_apiKeys oa" "oa_maxReconnect (fst (rotateKey oa)) = oa_maxReconnect oa"
  by (simp_all add: rotateKey_def)

lemma rotateKey_index:
  assumes "oa_keyIndex oa < length (oa_apiKeys oa)"
  shows "oa_keyIndex (((\<lambda>x. fst (rotateKey x)) ^^ k) oa) = (oa_keyIndex oa + k) mod length (oa_apiKeys oa)
    \<and> oa_apiKeys (((\<lambda>x. fst (rotateKey x)) ^^ k) oa) = oa_apiKeys oa"
proof (induction k)
  case 0
  then show ?case using assms by simp
next
  case (Suc k)
  show ?case
  proof (cases "length (oa_apiKeys oa) \<le> 1")
    case True
    then have "length (oa_apiKeys oa) = 1" using assms by simp
    then show ?thesis using Suc by (simp add: rotateKey_def)
  next
    case False
    then show ?thesis using Suc by (simp add: rotateKey_def mod_Suc_eq)
  qed
qed

lemma recordStreamCall_frame [simp]:
  "oa_baseURL (fst (recordStreamCall sid d e oa)) = oa_baseURL oa"
  "oa_model (fst (recordStreamCall sid d e oa)) = oa_model oa"
  by (simp_all add: recordStreamCall_def Let_def)

lemma send_error_frame [simp]:
  "ss_sends (send_error env st e) = ss_sends st" "ss_o (send_error env st e) = ss_o st"
  by (simp_all add: send_error_def Let_def)

lemma stream_success_sends [simp]: "ss_sends (stream_success env req io st) = ss_sends st"
  by (simp add: stream_success_def split: prod.splits)

lemma read_response_sends: "read_response env req io st = (st1, c) \<Longrightarrow> ss_sends st1 = ss_sends st"
  by (auto simp: read_response_def Let_def split: prod.splits option.splits if_splits)

lemma read_response_continue:
  "read_response env req io st = (st1, True) \<Longrightarrow> \<not> ss_emitted st1 \<and> oa_baseURL (ss_o st1) = oa_baseURL (ss_o st)
     \<and> oa_model (ss_o st1) = oa_model (ss_o st)"
  by (auto simp: read_response_def Let_def split: prod.splits option.splits if_splits)

lemma requests_at_most: "SendWithRetry v env net = (net', evs, res) \<Longrightarrow> length (requests evs) \<le> 11"
  using send_loop_requests [of v env "Suc MaxRetries" 0 0 "ErrMsg []" net net' evs res]
  by (auto simp: SendWithRetry_def MaxRetries_def)

lemma one_attempt_sends:
  assumes "one_attempt env req a st = (st1, c)"
  shows "\<exists>n. n \<le> 11 \<and> ss_sends st1 = ss_sends st @ replicate n (target_of (ss_o st) req)"
proof -
  let ?v = "oa_vendor (ss_o st)"
  obtain net evs res where s: "SendWithRetry ?v (ai_send (se_io env a)) (ss_net st ?v) = (net, evs, res)"
    by (cases "SendWithRetry ?v (ai_send (se_io env a)) (ss_net st ?v)") auto
  have "ss_sends st1 = ss_sends st @ map (\<lambda>_. target_of (ss_o st) req) (requests evs)"
    using assms s by (auto simp: one_attempt_def Let_def dest!: read_response_sends split: sum.splits)
  with requests_at_most [OF s] show ?thesis by (intro exI [of _ "length (requests evs)"]) (simp add: map_replicate_const)
qed

lemma one_attempt_continue:
  assumes "one_attempt env req a st = (st1, True)" and "\<not> ss_emitted st"
  shows "\<not> ss_emitted st1 \<and> oa_baseURL (ss_o st1) = oa_baseURL (ss_o st)
     \<and> oa_model (ss_o st1) = oa_model (ss_o st)"
proof -
  let ?v = "oa_vendor (ss_o st)"
  obtain net evs res where s: "SendWithRetry ?v (ai_send (se_io env a)) (ss_net st ?v) = (net, evs, res)"
    by (cases "SendWithRetry ?v (ai_send (se_io env a)) (ss_net st ?v)") auto
  show ?thesis
  proof (cases res)
    case (Inl e)
    with assms s show ?thesis by (auto simp: one_attempt_def Let_def)
  next
    case (Inr b)
    with assms s show ?thesis by (auto simp: one_attempt_def Let_def dest!: read_response_continue)
  qed
qed

text \<open>Once the reconnects are used up, the loop sends no request any more.\<close>

lemma stream_loop_no_send:
  assumes "mr < attempt" and "0 < fm"
  shows "ss_sends (stream_loop env req mr fm left attempt st) = ss_sends st"
  using assms
proof (induction left arbitrary: attempt st)
  case 0
  then show ?case by (simp add: Let_def)
next
  case (Suc left)
  have IH: "ss_sends (stream_loop env req mr fm left (Suc attempt) s) = ss_sends s" for s
    using Suc.IH [of "Suc attempt" s] Suc.prems by simp
  show ?case using Suc.prems by (auto simp: stream_loop.simps(2) Let_def IH split: prod.splits)
qed

text \<open>The two branches of an iteration within the reconnect budget.\<close>

lemma stream_loop_ctx:
  assumes "\<not> ss_emitted st" and "attempt \<le> mr" and "attempt > 0" and "ai_ctx_done (se_io env attempt) \<noteq> None"
  shows "stream_loop env req mr fm (Suc left) attempt st = st\<lparr>ss_lastErr := ai_ctx_done (se_io env attempt)\<rparr>"
  using assms by (simp add: stream_loop.simps(2) Let_def)

lemma stream_loop_attempt:
  assumes "attempt = 0 \<or> \<not> ss_emitted st" and "attempt \<le> mr"
    and "attempt = 0 \<or> ai_ctx_done (se_io env attempt) = None" and "one_attempt env req attempt st = (st1, c)"
  shows "stream_loop env req mr fm (Suc left) attempt st =
     (if c then stream_loop env req mr fm left (Suc attempt) st1 else st1)"
  using assms by (auto simp: stream_loop.simps(2) Let_def)

lemma stream_loop_sends:
  assumes "0 < fm" and "\<not> ss_emitted st" and "attempt \<le> Suc mr"
  shows "\<exists>ts. ss_sends (stream_loop env req mr fm left attempt st) = ss_sends st @ ts
     \<and> length ts \<le> 11 * (Suc mr - attempt) \<and> (\<forall>t \<in> set ts. \<exists>k. t = (oa_baseURL (ss_o st), k, oa_model (ss_o st), req))"
  using assms(2,3)
proof (induction left arbitrary: attempt st)
  case 0
  then show ?case by (simp add: Let_def)
next
  case (Suc left)
  show ?case
  proof (cases "mr < attempt")
    case True
    then show ?thesis using stream_loop_no_send [OF True assms(1)] by simp
  next
    case False
    obtain st1 c where a: "one_attempt env req attempt st = (st1, c)" by fastforce
    obtain n where n: "n \<le> 11" "ss_sends st1 = ss_sends st @ replicate n (target_of (ss_o st) req)"
      using one_attempt_sends [OF a] by blast
    have b: "11 \<le> 11 * (Suc mr - attempt)" using False by simp
    consider (ctx) "attempt > 0 \<and> ai_ctx_done (se_io env attempt) \<noteq> None"
      | (stop) "\<not> (attempt > 0 \<and> ai_ctx_done (se_io env attempt) \<noteq> None)" "\<not> c"
      | (go) "\<not> (attempt > 0 \<and> ai_ctx_done (se_io env attempt) \<noteq> None)" c by blast
    then show ?thesis
    proof cases
      case ctx
      then have "stream_loop env req mr fm (Suc left) attempt st = st\<lparr>ss_lastErr := ai_ctx_done (se_io env attempt)\<rparr>"
        using Suc.prems(1) False by (intro stream_loop_ctx) auto
      then show ?thesis by simp
    next
      case stop
      then have "stream_loop env req mr fm (Suc left) attempt st = st1"
        using stream_loop_attempt [OF _ _ _ a] Suc.prems(1) False by auto
      with n b show ?thesis by (intro exI [of _ "replicate n (target_of (ss_o st) req)"]) (auto simp: target_of_def)
    next
      case go
      then have e: "stream_loop env req mr fm (Suc left) attempt st = stream_loop env req mr fm left (Suc attempt) st1"
        using stream_loop_attempt [OF _ _ _ a] Suc.prems(1) False by auto
      have k: "\<not> ss_emitted st1" "oa_baseURL (ss_o st1) = oa_baseURL (ss_o st)" "oa_model (ss_o st1) = oa_model (ss_o st)"
        using one_attempt_continue [of env req attempt st st1] a go Suc.prems by auto
      from Suc.IH [OF k(1), of "Suc attempt"] False obtain ts where
        ts: "ss_sends (stream_loop env req mr fm left (Suc attempt) st1) = ss_sends st1 @ ts"
          "length ts \<le> 11 * (Suc mr - Suc attempt)" "\<forall>t \<in> set ts. \<exists>k. t = (oa_baseURL (ss_o st1), k, oa_model (ss_o st1), req)" by auto
      have "length (replicate n (target_of (ss_o st) req) @ ts) \<le> 11 * (Suc mr - attempt)"
        using ts(2) n(1) False by simp
      with e ts n k(2,3) show ?thesis
        by (intro exI [of _ "replicate n (target_of (ss_o st) req) @ ts"]) (auto simp: target_of_def)
    qed
  qed
qed

lemma limit_frame [simp]:
  "oa_baseURL (fst (limit we req oa)) = oa_baseURL oa" "oa_maxReconnect (fst (limit we req oa)) = oa_maxReconnect oa"
  "oa_failover (fst (limit we req oa)) = oa_failover oa" "oa_model (fst (limit we req oa)) = oa_model oa"
  by (simp_all add: limit_def split: prod.splits)

subsection \<open>Lemmas: chat failover\<close>

fun first_ok :: "(gerror + Response) list \<Rightarrow> gerror \<Rightarrow> gerror + Response" where
  "first_ok [] lastErr = Inl lastErr"
| "first_ok (r # rs) lastErr = (case r of Inr resp \<Rightarrow> Inr resp | Inl e \<Rightarrow> first_ok rs e)"

text \<open>The attempts that are made: up to and including the first success.\<close>

fun tried :: "(gerror + Response) list \<Rightarrow> nat" where
  "tried [] = 0"
| "tried (r # rs) = (case r of Inr _ \<Rightarrow> 1 | Inl _ \<Rightarrow> Suc (tried rs))"

lemma chatDirect_frame:
  "chatDirect cx io req oa = (oa1, sent, r) \<Longrightarrow> r = chat_outcome cx io \<and> oa_failover oa1 = oa_failover oa
     \<and> oa_baseURL oa1 = oa_baseURL oa \<and> currentKey oa1 = currentKey oa
     \<and> sent = (if ci_newReq_err io = None then [target_of oa req] else [])"
  by (auto simp: chatDirect_def Let_def currentKey_def split: sum.splits)

lemma chat_loop_fallback:
  assumes "oa_failover oa = fallback_config m u" and "0 < attempt"
  shows "\<exists>oa' sent. chat_loop cx io req left attempt le oa =
       (oa', sent, first_ok (map (\<lambda>i. chat_outcome cx (io i)) [attempt..<attempt + left]) le)
     \<and> sent = map (\<lambda>_. (completions_url u, currentKey oa, m, req))
         (filter (\<lambda>i. ci_newReq_err (io i) = None)
           [attempt..<attempt + tried (map (\<lambda>i. chat_outcome cx (io i)) [attempt..<attempt + left])])"
  using assms
proof (induction left arbitrary: attempt le oa)
  case (Suc left)
  let ?oa1 = "applyFailover oa m u"
  obtain oa2 sent r where d: "chatDirect cx (io attempt) req ?oa1 = (oa2, sent, r)"
    by (cases "chatDirect cx (io attempt) req ?oa1") auto
  from chatDirect_frame [OF d] Suc.prems have f: "r = chat_outcome cx (io attempt)" "oa_failover oa2 = fallback_config m u"
    "currentKey oa2 = currentKey oa" "sent = (if ci_newReq_err (io attempt) = None then [(completions_url u, currentKey oa, m, req)] else [])"
    by (auto simp: target_of_def)
  have up: "[attempt..<Suc (attempt + k)] = attempt # [Suc attempt..<Suc (attempt + k)]" for k
    by (simp add: upt_conv_Cons del: upt_Suc)
  have one: "[attempt..<Suc attempt] = [attempt]" by simp
  show ?case
  proof (cases "chat_outcome cx (io attempt)")
    case (Inr resp)
    with d f Suc.prems show ?thesis by (simp add: Let_def up one del: upt_Suc)
  next
    case (Inl e)
    from Suc.IH [OF f(2), of "Suc attempt" e] obtain oa3 sent3 where
      l: "chat_loop cx io req left (Suc attempt) e oa2 =
          (oa3, sent3, first_ok (map (\<lambda>i. chat_outcome cx (io i)) [Suc attempt..<Suc attempt + left]) e)"
        "sent3 = map (\<lambda>_. (completions_url u, currentKey oa2, m, req)) (filter (\<lambda>i. ci_newReq_err (io i) = None)
           [Suc attempt..<Suc attempt + tried (map (\<lambda>i. chat_outcome cx (io i)) [Suc attempt..<Suc attempt + left])])"
      by auto
    from d f Inl l Suc.prems show ?thesis by (simp add: Let_def up del: upt_Suc)
  qed
qed simp

subsection \<open>Properties\<close>


text \<open>The failover phase of a streaming call sends nothing: once the reconnects are used up, each
  remaining iteration only switches the client to the fallback endpoint, no request is made there,
  and the caller gets the error of the primary endpoint.\<close>

theorem stream_failover_sends_nothing:
  assumes "oa_failover (ss_o st) = fallback_config m u" and "\<not> ss_emitted st" and "mr < attempt" and "0 < fm"
    and "0 < left"
  shows "oa_baseURL (ss_o (stream_loop env req mr fm left attempt st)) = completions_url u
    \<and> oa_model (ss_o (stream_loop env req mr fm left attempt st)) = m
    \<and> ss_sends (stream_loop env req mr fm left attempt st) = ss_sends st
    \<and> ss_out (stream_loop env req mr fm left attempt st) = ss_out (send_error env st (ss_lastErr st))"
  using assms
proof (induction left arbitrary: attempt st)
  case (Suc left)
  let ?st1 = "st\<lparr>ss_o := applyFailover (ss_o st) m u\<rparr>"
  have step: "stream_loop env req mr fm (Suc left) attempt st = stream_loop env req mr fm left (Suc attempt) ?st1"
    using Suc.prems by (simp add: stream_loop.simps(2) Let_def)
  have out: "ss_out (send_error env ?st1 e) = ss_out (send_error env st e)" for e
    by (simp add: send_error_def sendChunk_def io_cfg_def Let_def)
  show ?case
  proof (cases "left = 0")
    case True
    with step out show ?thesis by (simp add: Let_def)
  next
    case False
    with Suc.IH [of ?st1 "Suc attempt"] Suc.prems step out show ?thesis by simp
  qed
qed simp

definition sample_client :: OpenAI where
  "sample_client = \<lparr>oa_apiKey = ''k'', oa_apiKeys = [''k1'', ''k2''], oa_keyIndex = 0,
     oa_baseURL = ''https://a.com/chat/completions'', oa_model = ''m'', oa_name = ''m'', oa_vendor = VendorQwen,
     oa_effort = [], oa_thinkingType = [], oa_policy = reasoningThinking, oa_streamTimeout = 120 * Second,
     oa_maxReconnect = 1, oa_rateLimiter = NewRateLimiter 0 0, oa_Telemetry = NewTelemetry,
     oa_lastUsage = None, oa_failover = fallback_config ''f'' ''https://b.com''\<rparr>"

theorem stream_failover_sends_nothing_witness:
  "ss_sends (stream_loop undefined undefined 1 2 3 2 (stream_init sample_client (\<lambda>_. plain_net) ())) = []"
proof -
  let ?st = "stream_init sample_client (\<lambda>_. plain_net) ()"
  have "oa_failover (ss_o ?st) = fallback_config ''f'' ''https://b.com''" "\<not> ss_emitted ?st"
    by (simp_all add: stream_init_def sample_client_def)
  from stream_failover_sends_nothing [OF this, of 1 2 2 3] show ?thesis
    by (simp add: stream_init_def)
qed

text \<open>Nothing is requested twice once the user has seen output: if an attempt delivered a chunk,
  the call ends with that attempt, whether it succeeded or broke off.\<close>

theorem no_request_after_output:
  assumes "ss_emitted (fst (one_attempt env req attempt st))" and "\<not> ss_emitted st" and "attempt \<le> mr"
    and "attempt = 0 \<or> ai_ctx_done (se_io env attempt) = None"
  shows "stream_loop env req mr fm (Suc left) attempt st = fst (one_attempt env req attempt st)"
proof -
  obtain st1 c where a: "one_attempt env req attempt st = (st1, c)" by fastforce
  have "\<not> c" using one_attempt_continue [of env req attempt st st1] a assms(1,2) by auto
  with stream_loop_attempt [OF _ assms(3,4) a] assms(2) a show ?thesis by simp
qed

definition sample_request :: Request where
  "sample_request = \<lparr>rq_Model = [], rq_Messages = [], rq_Tools = [], rq_Temperature = None, rq_TopP = None,
     rq_MaxTokens = None, rq_Stop = []\<rparr>"

definition sample_env :: "sse_data \<Rightarrow> gerror option \<Rightarrow> unit stream_env" where
  "sample_env ev scanErr = \<lparr>se_hooks = [], se_unmarshal = (\<lambda>_. Some ev), se_accept = (\<lambda>_. True), se_ctxErr = ErrCanceled,
     se_sid = None, se_io = (\<lambda>_. \<lparr>ai_ctx_done = None,
       ai_send = (\<lambda>_. \<lparr>ae_ctx_done = None, ae_jitter = 0, ae_now = 0, ae_done = 0, ae_newReq_err = None,
          ae_outcome = DoResp 200 [] []\<rparr>),
       ai_lines = [''data: {}''], ai_scanErr = scanErr, ai_stalled = False, ai_dur = 0\<rparr>)\<rparr>"

theorem no_request_after_output_witness:
  "ss_sends (stream_loop (sample_env (sample_event [] (Some ''stop'')) None) sample_request 1 2 4 0
      (stream_init sample_client (\<lambda>_. plain_net) ())) = [(''https://a.com/chat/completions'', ''k1'', ''m'', sample_request)]"
proof -
  let ?env = "sample_env (sample_event [] (Some ''stop'')) None"
  let ?st = "stream_init sample_client (\<lambda>_. plain_net) ()"
  have "ss_emitted (fst (one_attempt ?env sample_request 0 ?st))" "\<not> ss_emitted ?st" "(0::nat) \<le> 1"
    "0 = 0 \<or> ai_ctx_done (se_io ?env 0) = None"
    by (code_simp, simp_all add: stream_init_def)
  from no_request_after_output [OF this, of 2 3]
  have e: "stream_loop ?env sample_request 1 2 4 0 ?st = fst (one_attempt ?env sample_request 0 ?st)"
    by (simp add: numeral_eq_Suc del: One_nat_def)
  have "ss_sends (fst (one_attempt ?env sample_request 0 ?st)) = [(''https://a.com/chat/completions'', ''k1'', ''m'', sample_request)]"
    by code_simp
  with e show ?thesis by simp
qed

text \<open>A non-streaming call with a fallback makes at most three attempts, the first at the
  client's own endpoint and the others at the fallback, each with the same key; it returns the first
  successful response, or the error of the last attempt.\<close>

theorem chat_failover_result:
  assumes "oa_failover oa = fallback_config m u"
  shows "\<exists>oa' sent. chatWithFailover cx io req oa =
        (oa', sent, first_ok (map (\<lambda>i. chat_outcome cx (io i)) [0, 1, 2]) (ErrMsg []))
    \<and> sent = map (\<lambda>i. (if i = 0 then oa_baseURL oa else completions_url u, currentKey oa, if i = 0 then oa_model oa else m, req))
        (filter (\<lambda>i. ci_newReq_err (io i) = None) [0..<tried (map (\<lambda>i. chat_outcome cx (io i)) [0, 1, 2])])"
proof -
  obtain oa2 sent r where d: "chatDirect cx (io 0) req oa = (oa2, sent, r)" by (cases "chatDirect cx (io 0) req oa") auto
  note f = chatDirect_frame [OF d]
  have u2: "[Suc 0..<Suc 0 + 2] = [1, 2]" by (simp add: upt_rec)
  have up: "[0..<Suc k] = 0 # [Suc 0..<Suc 0 + k]" for k by (simp add: upt_conv_Cons del: upt_Suc)
  have m3: "maxRetries (oa_failover oa) = 2" by (simp add: assms)
  have c0: "chatWithFailover cx io req oa = (case chatDirect cx (io 0) req oa of (oa2, sent, r) \<Rightarrow>
      (case r of Inr resp \<Rightarrow> (oa2, sent, Inr resp)
       | Inl e \<Rightarrow> (case chat_loop cx io req 2 (Suc 0) e oa2 of (oa3, sent3, r3) \<Rightarrow> (oa3, sent @ sent3, r3))))"
    unfolding chatWithFailover_def m3 by (simp only: chat_loop.simps(2)) (simp add: Let_def assms)
  show ?thesis
  proof (cases "chat_outcome cx (io 0)")
    case (Inr resp)
    with d f show ?thesis by (auto simp: c0 target_of_def)
  next
    case (Inl e)
    have "oa_failover oa2 = fallback_config m u" using f assms by simp
    from chat_loop_fallback [OF this, of "Suc 0" cx io req 2 e] obtain oa3 sent3 where
      l: "chat_loop cx io req 2 (Suc 0) e oa2 = (oa3, sent3, first_ok (map (\<lambda>i. chat_outcome cx (io i)) [1, 2]) e)"
        "sent3 = map (\<lambda>_. (completions_url u, currentKey oa2, m, req)) (filter (\<lambda>i. ci_newReq_err (io i) = None)
           [Suc 0..<Suc 0 + tried (map (\<lambda>i. chat_outcome cx (io i)) [1, 2])])" unfolding u2 by auto
    have "chatWithFailover cx io req oa = (oa3, sent @ sent3, first_ok (map (\<lambda>i. chat_outcome cx (io i)) [0, 1, 2]) (ErrMsg []))"
      using d f l(1) Inl by (auto simp: c0)
    moreover have "sent @ sent3 = map (\<lambda>i. (if i = 0 then oa_baseURL oa else completions_url u, currentKey oa, if i = 0 then oa_model oa else m, req))
        (filter (\<lambda>i. ci_newReq_err (io i) = None) [0..<tried (map (\<lambda>i. chat_outcome cx (io i)) [0, 1, 2])])"
      using f l(2) Inl by (auto simp: target_of_def up simp del: upt_Suc)
    ultimately show ?thesis by blast
  qed
qed


theorem chat_failover_result_witness:
  "\<exists>oa' sent. chatWithFailover \<lparr>cx_sid = None, cx_unmarshal = (\<lambda>_. Inl ErrEOF)\<rparr>
      (\<lambda>_. \<lparr>ci_newReq_err = None, ci_outcome = DoErr ErrEOF, ci_dur = 0\<rparr>) sample_request sample_client =
      (oa', sent, Inl (ErrWrap ''request failed'' ErrEOF)) \<and> length sent = 3"
proof -
  have "oa_failover sample_client = fallback_config ''f'' ''https://b.com''" by (simp add: sample_client_def)
  from chat_failover_result [OF this, of "\<lparr>cx_sid = None, cx_unmarshal = (\<lambda>_. Inl ErrEOF)\<rparr>"
      "\<lambda>_. \<lparr>ci_newReq_err = None, ci_outcome = DoErr ErrEOF, ci_dur = 0\<rparr>" sample_request]
  show ?thesis by (auto simp: chat_outcome_def)
qed

text \<open>Rotating on authentication errors tries every key: starting from any index, as many
  rotations as there are keys visit each key once, in order, and come back to the first.\<close>

theorem rotation_visits_all_keys:
  assumes "oa_keyIndex oa < length (oa_apiKeys oa)"
  shows "map (\<lambda>k. currentKey (((\<lambda>x. fst (rotateKey x)) ^^ k) oa)) [0..<length (oa_apiKeys oa)]
      = rotate (oa_keyIndex oa) (oa_apiKeys oa)
    \<and> currentKey (((\<lambda>x. fst (rotateKey x)) ^^ length (oa_apiKeys oa)) oa) = currentKey oa"
proof -
  let ?n = "length (oa_apiKeys oa)"
  have k: "currentKey (((\<lambda>x. fst (rotateKey x)) ^^ k) oa) = oa_apiKeys oa ! ((oa_keyIndex oa + k) mod ?n)" for k
  proof -
    have "(oa_keyIndex oa + k) mod ?n < ?n" using assms by (intro mod_less_divisor) linarith
    with rotateKey_index [OF assms, of k] show ?thesis by (simp add: currentKey_def)
  qed
  have "map (\<lambda>k. currentKey (((\<lambda>x. fst (rotateKey x)) ^^ k) oa)) [0..<?n] = rotate (oa_keyIndex oa) (oa_apiKeys oa)"
    by (rule nth_equalityI) (simp_all add: k nth_rotate)
  moreover have "currentKey oa = oa_apiKeys oa ! oa_keyIndex oa" using assms by (simp add: currentKey_def)
  ultimately show ?thesis using k [of ?n] assms by simp
qed

theorem rotation_visits_all_keys_witness:
  "map (\<lambda>k. currentKey (((\<lambda>x. fst (rotateKey x)) ^^ k) sample_client)) [0..<2] = [''k1'', ''k2'']"
proof -
  have e: "oa_keyIndex sample_client = 0" "oa_apiKeys sample_client = [''k1'', ''k2'']" by (simp_all add: sample_client_def)
  then have "oa_keyIndex sample_client < length (oa_apiKeys sample_client)" by simp
  from conjunct1 [OF rotation_visits_all_keys [OF this]] show ?thesis unfolding e by (simp add: numeral_2_eq_2)
qed

text \<open>Every failed non-streaming call is reported to the lifecycle hooks: when Chat returns an
  error, its last action was to run all OnError hooks with exactly that error; and a call that the
  rate limiter or a before-hook rejects makes no request.\<close>

theorem chat_errors_reported:
  assumes "Chat hooks cx we io s oa req = (s', oa', sent, Inl e)"
  shows "(\<exists>s0 r. s' = foldl (\<lambda>s h. fst (OnError h s r e)) s0 hooks)
    \<and> ((snd (limit we req oa) \<noteq> None \<or> (\<exists>x. snd (RunBeforeProcessHooks hooks s req) = Inl x)) \<longrightarrow> sent = [])"
  using assms
  by (auto simp: Chat_def RunOnErrorHooks_all split: prod.splits option.splits sum.splits)


theorem chat_errors_reported_witness:
  "\<exists>s' oa'. Chat [(NewLifecycleHook ''x'')\<lparr>lh_beforeFn := Some (\<lambda>s r. (s, None, None)),
         lh_onErrorFn := Some (\<lambda>s r e. (Suc s, Some e))\<rparr>]
      \<lparr>cx_sid = None, cx_unmarshal = (\<lambda>_. Inl ErrEOF)\<rparr> \<lparr>wv_now = 0, wv_ctx = None, wv_wake = 0\<rparr>
      (\<lambda>_. \<lparr>ci_newReq_err = None, ci_outcome = DoErr ErrEOF, ci_dur = 0\<rparr>) 0 sample_client sample_request
      = (s', oa', [], Inl (nil_error ''x'' ''request'')) \<and> (\<exists>s0. s' = Suc s0)"
proof -
  let ?hooks = "[(NewLifecycleHook ''x'')\<lparr>lh_beforeFn := Some (\<lambda>s r. (s, None, None)),
     lh_onErrorFn := Some (\<lambda>s r e. (Suc s, Some e))\<rparr>] :: nat LifecycleHook list"
  let ?c = "Chat ?hooks \<lparr>cx_sid = None, cx_unmarshal = (\<lambda>_. Inl ErrEOF)\<rparr> \<lparr>wv_now = 0, wv_ctx = None, wv_wake = 0\<rparr>
      (\<lambda>_. \<lparr>ci_newReq_err = None, ci_outcome = DoErr ErrEOF, ci_dur = 0\<rparr>) 0 sample_client sample_request"
  have "snd (snd (snd ?c)) = Inl (nil_error ''x'' ''request'')"
    by (simp add: Chat_def limit_def Wait_def sample_client_def NewRateLimiter_def BeforeProcess_def NewLifecycleHook_def)
  then obtain s' oa' sent where c: "?c = (s', oa', sent, Inl (nil_error ''x'' ''request''))"
    by (cases ?c) auto
  have b: "\<exists>x. snd (RunBeforeProcessHooks ?hooks 0 sample_request) = Inl x"
    by (simp add: BeforeProcess_def NewLifecycleHook_def)
  from chat_errors_reported [OF c] b have "sent = []"
    "\<exists>s0 r. s' = foldl (\<lambda>s h. fst (OnError h s r (nil_error ''x'' ''request''))) s0 ?hooks" by blast+
  then have "\<exists>s0. s' = Suc s0" by (auto simp: OnError_def)
  with c \<open>sent = []\<close> show ?thesis by blast
qed

end
