(* ===== verification/Convert.thy ===== *)
theory Convert
  imports Types
begin

section \<open>Message conversion (internal/adk/convert, internal/adk/llm/bridge.go)\<close>

text \<open>
  The agent framework has its own message type; \<open>EMessage\<close> holds the fields of it that the program
  reads or writes. A Go \<open>map[string]any\<close> is an association list with distinct keys. A nil message
  pointer is \<open>None\<close>.
\<close>

record EImage =
  img_URL :: "string option"
  img_Base64 :: "string option"
  img_MIME :: string

record InputPart =
  ip_Type :: string
  ip_Text :: string
  ip_Image :: "EImage option"

record ChatPart =
  cp_Type :: string
  cp_Text :: string
  cp_ImageURL :: "string option"

record EMessage =
  em_Role :: string
  em_Content :: string
  em_ReasoningContent :: string
  em_ToolCalls :: "ToolCall list"
  em_ToolCallID :: string
  em_Name :: string
  em_UserParts :: "InputPart list"
  em_MultiContent :: "ChatPart list"

definition zero_EMessage :: EMessage where
  "zero_EMessage = \<lparr>em_Role = [], em_Content = [], em_ReasoningContent = [], em_ToolCalls = [],
     em_ToolCallID = [], em_Name = [], em_UserParts = [], em_MultiContent = []\<rparr>"

subsection \<open>Multi-part content\<close>

definition as_str :: "gany option \<Rightarrow> string" where
  "as_str v = (case v of Some (GStr s) \<Rightarrow> s | _ \<Rightarrow> [])"

definition to_part :: "(string \<times> gany) list \<Rightarrow> InputPart" where
  "to_part item = \<lparr>ip_Type = as_str (map_of item ''type''), ip_Text = as_str (map_of item ''text''),
     ip_Image = (case map_of item ''image_url'' of
         Some (GObj img) \<Rightarrow> Some \<lparr>img_URL = Some (as_str (map_of img ''url'')), img_Base64 = None, img_MIME = []\<rparr>
       | _ \<Rightarrow> None)\<rparr>"

definition from_image :: "EImage \<Rightarrow> (string \<times> gany) list" where
  "from_image im = (case img_Base64 im of
     Some d \<Rightarrow> [(''url'', GStr (''data:'' @ img_MIME im @ '';base64,'' @ d))]
   | None \<Rightarrow> (case img_URL im of Some u \<Rightarrow> [(''url'', GStr u)] | None \<Rightarrow> []))"

definition from_part :: "InputPart \<Rightarrow> (string \<times> gany) list" where
  "from_part p = [(''type'', GStr (ip_Type p))]
     @ (if ip_Text p \<noteq> [] then [(''text'', GStr (ip_Text p))] else [])
     @ (case ip_Image p of Some im \<Rightarrow> [(''image_url'', GObj (from_image im))] | None \<Rightarrow> [])"

definition toEinoMultiContent :: "(string \<times> gany) list list \<Rightarrow> InputPart list" where
  "toEinoMultiContent mc = map to_part mc"

definition fromEinoMultiContent :: "InputPart list \<Rightarrow> (string \<times> gany) list list" where
  "fromEinoMultiContent mc = map from_part mc"

subsection \<open>Messages\<close>

definition to_eino :: "Message \<Rightarrow> EMessage" where
  "to_eino m = zero_EMessage\<lparr>em_Role := m_Role m, em_Content := m_Content m,
     em_ReasoningContent := m_ReasoningContent m, em_ToolCallID := m_ToolCallID m, em_Name := m_Name m,
     em_UserParts := (if m_MultiContent m \<noteq> [] then toEinoMultiContent (m_MultiContent m) else []),
     em_ToolCalls := m_ToolCalls m\<rparr>"

definition ToEino :: "Message option \<Rightarrow> EMessage option" where
  "ToEino m = map_option to_eino m"

definition from_eino :: "EMessage \<Rightarrow> Message" where
  "from_eino e = zero_Message\<lparr>m_Role := em_Role e, m_Content := em_Content e,
     m_ReasoningContent := em_ReasoningContent e, m_ToolCallID := em_ToolCallID e, m_Name := em_Name e,
     m_MultiContent := (if em_UserParts e \<noteq> [] then fromEinoMultiContent (em_UserParts e) else []),
     m_ToolCalls := em_ToolCalls e\<rparr>"

definition FromEino :: "EMessage option \<Rightarrow> Message option" where
  "FromEino e = map_option from_eino e"

definition ToEinoSlice :: "Message option list \<Rightarrow> EMessage option list" where
  "ToEinoSlice msgs = map ToEino msgs"

definition FromEinoSlice :: "EMessage option list \<Rightarrow> Message option list" where
  "FromEinoSlice msgs = map FromEino msgs"

subsection \<open>Lemmas\<close>

definition image_ok :: "EImage \<Rightarrow> bool" where
  "image_ok im \<longleftrightarrow> img_URL im \<noteq> None \<or> img_Base64 im \<noteq> None"

definition part_ok :: "InputPart \<Rightarrow> bool" where
  "part_ok p \<longleftrightarrow> pred_option image_ok (ip_Image p)"

text \<open>A part survives a round trip unchanged if its image, if any, is given by URL alone.\<close>

definition url_part :: "InputPart \<Rightarrow> bool" where
  "url_part p \<longleftrightarrow> (case ip_Image p of None \<Rightarrow> True
     | Some im \<Rightarrow> img_URL im \<noteq> None \<and> img_Base64 im = None \<and> img_MIME im = [])"

lemma to_from_part: "url_part p \<Longrightarrow> to_part (from_part p) = p"
  by (cases "ip_Image p")
     (auto simp: url_part_def to_part_def from_part_def from_image_def as_str_def)

lemma from_to_from_part: "part_ok p \<Longrightarrow> from_part (to_part (from_part p)) = from_part p"
  by (cases "ip_Image p")
     (auto simp: part_ok_def image_ok_def to_part_def from_part_def from_image_def as_str_def split: option.splits)

text \<open>An application message whose parts the conversion can represent.\<close>

definition adk_ok :: "Message option \<Rightarrow> bool" where
  "adk_ok m = (case m of None \<Rightarrow> True | Some x \<Rightarrow> list_all (\<lambda>i. \<exists>p. part_ok p \<and> i = from_part p) (m_MultiContent x))"

lemma adk_roundtrip:
  assumes "adk_ok m"
  shows "FromEino (ToEino m) = m"
proof (cases m)
  case (Some x)
  have "from_part (to_part i) = i" if "i \<in> set (m_MultiContent x)" for i
    using assms that Some by (auto simp: adk_ok_def list_all_iff from_to_from_part)
  then have "map (from_part \<circ> to_part) (m_MultiContent x) = m_MultiContent x"
    by (intro map_idI) simp
  then show ?thesis
    using Some by (simp add: FromEino_def ToEino_def from_eino_def to_eino_def zero_EMessage_def zero_Message_def
        toEinoMultiContent_def fromEinoMultiContent_def)
qed (simp add: FromEino_def ToEino_def)

lemma from_eino_ok: "list_all part_ok (em_UserParts e) \<Longrightarrow> adk_ok (Some (from_eino e))"
  by (auto simp: adk_ok_def from_eino_def zero_Message_def fromEinoMultiContent_def list_all_iff)

subsection \<open>Properties\<close>

text \<open>Conversion between the program's and the framework's messages is lossless for what the
  program stores: converting a message there and back returns it unchanged, tool calls, identifiers
  and parts included, provided its parts are ones the framework can produce and every image has a
  URL or data; and a framework message without legacy parts whose images are given by URL survives
  the opposite round trip.\<close>

theorem convert_roundtrip:
  assumes "list_all adk_ok msgs"
    and "list_all (\<lambda>e. em_MultiContent e = [] \<and> list_all url_part (em_UserParts e)) es"
  shows "FromEinoSlice (ToEinoSlice msgs) = msgs
    \<and> ToEinoSlice (FromEinoSlice (map Some es)) = map Some es"
proof -
  have "map (FromEino \<circ> ToEino) msgs = msgs"
    using assms(1) by (intro map_idI) (auto simp: list_all_iff adk_roundtrip)
  moreover have "ToEino (FromEino (Some e)) = Some e" if "e \<in> set es" for e
  proof -
    have "em_MultiContent e = []" "map (to_part \<circ> from_part) (em_UserParts e) = em_UserParts e"
      using assms(2) that by (auto simp: list_all_iff to_from_part intro!: map_idI)
    then show ?thesis
      by (simp add: FromEino_def ToEino_def from_eino_def to_eino_def zero_EMessage_def zero_Message_def
        toEinoMultiContent_def fromEinoMultiContent_def)
  qed
  ultimately show ?thesis by (simp add: FromEinoSlice_def ToEinoSlice_def)
qed

theorem convert_roundtrip_witness:
  "FromEinoSlice (ToEinoSlice [Some (zero_Message\<lparr>m_Role := RoleUser, m_Content := ''hi'',
     m_ToolCalls := [\<lparr>tc_ID = ''1'', tc_Type = ''function'', tc_Name = ''ls'', tc_Arguments = ''{}''\<rparr>]\<rparr>), None])
   = [Some (zero_Message\<lparr>m_Role := RoleUser, m_Content := ''hi'',
     m_ToolCalls := [\<lparr>tc_ID = ''1'', tc_Type = ''function'', tc_Name = ''ls'', tc_Arguments = ''{}''\<rparr>]\<rparr>), None]"
  using convert_roundtrip [of "[Some (zero_Message\<lparr>m_Role := RoleUser, m_Content := ''hi'',
     m_ToolCalls := [\<lparr>tc_ID = ''1'', tc_Type = ''function'', tc_Name = ''ls'', tc_Arguments = ''{}''\<rparr>]\<rparr>), None]" "[]"]
  by (simp add: adk_ok_def zero_Message_def)

end
