(* ===== verification/Bridge.thy ===== *)
theory Bridge
  imports Client Convert
begin

section \<open>The bridge to the agent framework (internal/adk/llm/bridge.go)\<close>

text \<open>
  The bridge offers the framework's chat-model interface on top of the protocol client. A stream of
  chunks is collected into one message; what the goroutine writes to the framework's pipe is the
  list of items it sends. The chunks are those the client delivers before it closes the channel; the
  answer of the recovery call to \<open>Chat\<close> is an argument.
\<close>

datatype pipe_item = PMsg EMessage | PErr gerror

record collected =
  fullContent :: string
  fullReasoning :: string
  toolCalls :: "ToolCall list"

definition collected_init :: collected where
  "collected_init = \<lparr>fullContent = [], fullReasoning = [], toolCalls = []\<rparr>"

definition collected_msg :: "collected \<Rightarrow> EMessage" where
  "collected_msg s = zero_EMessage\<lparr>em_Role := RoleAssistant, em_Content := fullContent s,
     em_ReasoningContent := fullReasoning s, em_ToolCalls := toolCalls s\<rparr>"

definition fromProtoResp :: "Response \<Rightarrow> EMessage" where
  "fromProtoResp resp = zero_EMessage\<lparr>em_Role := RoleAssistant, em_Content := r_Content resp,
     em_ReasoningContent := r_ReasoningContent resp, em_ToolCalls := r_ToolCalls resp\<rparr>"

text \<open>The notice sent before recovery, "[stream interrupted, recovering...]" in Chinese; its bytes.\<close>

definition recovering_notice :: string where
  "recovering_notice = ''['' @ [CHR 0xE6, CHR 0xB5, CHR 0x81, CHR 0xE4, CHR 0xB8, CHR 0xAD, CHR 0xE6, CHR 0x96, CHR 0xAD,
     CHR 0xEF, CHR 0xBC, CHR 0x8C, CHR 0xE6, CHR 0xAD, CHR 0xA3, CHR 0xE5, CHR 0x9C, CHR 0xA8, CHR 0xE6, CHR 0x81, CHR 0xA2,
     CHR 0xE5, CHR 0xA4, CHR 0x8D] @ ''...]''"

fun set_args :: "ToolCall list \<Rightarrow> string \<Rightarrow> string \<Rightarrow> ToolCall list" where
  "set_args [] tid args = []"
| "set_args (tc # tcs) tid args = (if tc_ID tc = tid then tc\<lparr>tc_Arguments := args\<rparr> # tcs else tc # set_args tcs tid args)"

definition collect :: "collected \<Rightarrow> Chunk \<Rightarrow> collected" where
  "collect s c = (case ch_Type c of
     ChunkText \<Rightarrow> s\<lparr>fullContent := fullContent s @ ch_Text c\<rparr>
   | ChunkReasoning \<Rightarrow> s\<lparr>fullReasoning := fullReasoning s @ ch_Text c\<rparr>
   | ChunkToolCallStart \<Rightarrow> (case ch_ToolCall c of
       None \<Rightarrow> s
     | Some tc \<Rightarrow> s\<lparr>toolCalls := toolCalls s @ [\<lparr>tc_ID = tc_ID tc, tc_Type = ''function'', tc_Name = tc_Name tc, tc_Arguments = []\<rparr>]\<rparr>)
   | ChunkToolCall \<Rightarrow> (case ch_ToolCall c of
       None \<Rightarrow> s
     | Some tc \<Rightarrow> s\<lparr>toolCalls := set_args (toolCalls s) (tc_ID tc) (tc_Arguments tc)\<rparr>)
   | _ \<Rightarrow> s)"

text \<open>The goroutine of \<open>stream\<close>; an empty list is the closed channel. The context ends the loop at
  the chunk with number \<open>cancel\<close>, if any.\<close>

fun bridge_loop :: "(gerror + Response) \<Rightarrow> nat option \<Rightarrow> nat \<Rightarrow> collected \<Rightarrow> Chunk list \<Rightarrow> pipe_item list" where
  "bridge_loop recover cancel i s [] = (if cancel = Some i then [] else [PMsg (collected_msg s)])"
| "bridge_loop recover cancel i s (c # cs) =
     (if cancel = Some i then []
      else if ch_Type c = ChunkDone then [PMsg (collected_msg s)]
      else if ch_Type c = ChunkError then
        (case ch_Error c of
           None \<Rightarrow> [PErr (ErrMsg ''stream failed without an error'')]
         | Some e \<Rightarrow>
             if errors_As e is_StreamInterrupted \<noteq> None then
               PMsg (zero_EMessage\<lparr>em_Role := RoleAssistant, em_Content := recovering_notice\<rparr>)
               # (case recover of Inl _ \<Rightarrow> [] | Inr resp \<Rightarrow> [PMsg (fromProtoResp resp)])
             else [PErr e])
      else bridge_loop recover cancel (Suc i) (collect s c) cs)"

definition bridge_stream :: "(gerror + Response) \<Rightarrow> Chunk list \<Rightarrow> pipe_item list" where
  "bridge_stream recover chunks = bridge_loop recover None 0 collected_init chunks"

definition generate :: "(gerror + Response) \<Rightarrow> gerror + EMessage" where
  "generate chat = (case chat of
     Inl e \<Rightarrow> Inl e
   | Inr resp \<Rightarrow>
       if r_Content resp = [] \<and> r_ToolCalls resp = [] then Inl (ErrMsg ''API returned empty message'')
       else Inr (fromProtoResp resp))"

subsection \<open>Building requests\<close>

text \<open>A nil message makes \<open>toProtoMsg\<close> panic: \<open>None\<close>.\<close>

definition toProtoMsg :: "EMessage option \<Rightarrow> Message option" where
  "toProtoMsg m = (case m of
     None \<Rightarrow> None
   | Some e \<Rightarrow> Some (zero_Message\<lparr>m_Role := em_Role e, m_Content := em_Content e, m_ReasoningContent := em_ReasoningContent e,
       m_ToolCallID := em_ToolCallID e, m_Name := em_Name e,
       m_MultiContent := (if em_UserParts e \<noteq> [] then map from_part (em_UserParts e) else []),
       m_ToolCalls := em_ToolCalls e\<rparr>))"

definition toProtoMsgs :: "EMessage option list \<Rightarrow> Message list option" where
  "toProtoMsgs msgs = those (map toProtoMsg msgs)"

text \<open>A tool description of the framework: name, description and the JSON schema it renders, if any.\<close>

definition toProtoTools :: "(string \<times> string \<times> string option) list \<Rightarrow> ToolSchema list" where
  "toProtoTools tools = map (\<lambda>(n, d, js). \<lparr>ts_Name = n, ts_Description = d,
     ts_Parameters = (case js of Some s \<Rightarrow> s
       | None \<Rightarrow> ''{'' @ [CHR 0x22] @ ''type'' @ [CHR 0x22] @ '':'' @ [CHR 0x22] @ ''object'' @ [CHR 0x22] @ '','' @ [CHR 0x22]
                 @ ''properties'' @ [CHR 0x22] @ '':{}}'')\<rparr>) tools"

record common_options =
  co_Temperature :: "32 word option"
  co_TopP :: "32 word option"
  co_MaxTokens :: "int option"
  co_Stop :: "string list"

definition buildRequest ::
  "(32 word \<Rightarrow> 64 word) \<Rightarrow> EMessage option list \<Rightarrow> (string \<times> string \<times> string option) list \<Rightarrow> common_options \<Rightarrow> Request option" where
  "buildRequest float64 input tools common = map_option (\<lambda>msgs.
     \<lparr>rq_Model = [], rq_Messages = msgs, rq_Tools = toProtoTools tools, rq_Temperature = map_option float64 (co_Temperature common),
      rq_TopP = map_option float64 (co_TopP common), rq_MaxTokens = co_MaxTokens common, rq_Stop = co_Stop common\<rparr>)
     (toProtoMsgs input)"

subsection \<open>Lemmas\<close>

lemma bridge_loop_collects:
  assumes "no_end cs"
  shows "bridge_loop recover None i s (cs @ ds) = bridge_loop recover None (i + length cs) (foldl collect s cs) ds"
  using assms
proof (induction cs arbitrary: i s)
  case (Cons c cs)
  then have "ch_Type c \<noteq> ChunkDone" "ch_Type c \<noteq> ChunkError" "no_end cs" by (auto simp: no_end_def)
  with Cons.IH show ?case by simp
qed simp

lemma collect_content: "fullContent (foldl collect s cs) = fullContent s @ text_of cs"
  by (induction cs arbitrary: s) (auto simp: collect_def text_of_def split: ChunkType.splits option.splits)

lemma collect_calls_only:
  "toolCalls (foldl collect s cs) = toolCalls (foldl collect s' (call_chunks cs))" if "toolCalls s = toolCalls s'" for s s'
  using that
proof (induction cs arbitrary: s s')
  case (Cons c cs)
  show ?case
  proof (cases "ch_Type c = ChunkToolCallStart \<or> ch_Type c = ChunkToolCall")
    case True
    then have "toolCalls (collect s c) = toolCalls (collect s' c)"
      using Cons.prems by (auto simp: collect_def split: option.splits)
    from Cons.IH [OF this] True show ?thesis by (simp add: call_chunks_def)
  next
    case False
    then have "toolCalls (collect s c) = toolCalls s'"
      using Cons.prems by (cases "ch_Type c") (auto simp: collect_def)
    from Cons.IH [OF this] False show ?thesis by (simp add: call_chunks_def)
  qed
qed (simp add: call_chunks_def)

definition open_call :: "sse_call \<Rightarrow> ToolCall" where
  "open_call f = \<lparr>tc_ID = d_ID f, tc_Type = ''function'', tc_Name = d_Name f, tc_Arguments = []\<rparr>"

lemma collect_starts: "toolCalls (foldl collect s (map start_chunk fs)) = toolCalls s @ map open_call fs"
  by (induction fs arbitrary: s)
     (auto simp: collect_def start_chunk_def call_chunk_def zero_Chunk_def zero_ToolCall_def open_call_def)

lemma set_args_map:
  assumes "distinct (map idf is)" and "j \<in> set is"
  shows "set_args (map (\<lambda>i. \<lparr>tc_ID = idf i, tc_Type = t, tc_Name = nm i, tc_Arguments = ar i\<rparr>) is) (idf j) a =
     map (\<lambda>i. \<lparr>tc_ID = idf i, tc_Type = t, tc_Name = nm i, tc_Arguments = (if i = j then a else ar i)\<rparr>) is"
  using assms by (induction "is") (auto simp: image_iff)

lemma collect_finals:
  assumes "distinct (map idf is)" and "set js \<subseteq> set is" and "distinct js"
    and "toolCalls s = map (\<lambda>i. \<lparr>tc_ID = idf i, tc_Type = t, tc_Name = nm i, tc_Arguments = ar i\<rparr>) is"
    and "\<forall>j \<in> set js. tc_ID (fin j) = idf j"
  shows "toolCalls (foldl collect s (map (\<lambda>j. call_chunk ChunkToolCall (fin j)) js)) =
     map (\<lambda>i. \<lparr>tc_ID = idf i, tc_Type = t, tc_Name = nm i,
       tc_Arguments = (if i \<in> set js then tc_Arguments (fin i) else ar i)\<rparr>) is"
  using assms(2-5)
proof (induction js arbitrary: s ar)
  case (Cons j js)
  let ?ar = "\<lambda>i. if i = j then tc_Arguments (fin j) else ar i"
  have "toolCalls (collect s (call_chunk ChunkToolCall (fin j))) =
     map (\<lambda>i. \<lparr>tc_ID = idf i, tc_Type = t, tc_Name = nm i, tc_Arguments = ?ar i\<rparr>) is"
    using Cons.prems set_args_map [OF assms(1), of j] by (simp add: collect_def call_chunk_def zero_Chunk_def)
  from Cons.IH [OF _ _ this] Cons.prems have
    "toolCalls (foldl collect (collect s (call_chunk ChunkToolCall (fin j))) (map (\<lambda>j. call_chunk ChunkToolCall (fin j)) js)) =
     map (\<lambda>i. \<lparr>tc_ID = idf i, tc_Type = t, tc_Name = nm i,
       tc_Arguments = (if i \<in> set js then tc_Arguments (fin i) else ?ar i)\<rparr>) is" by auto
  moreover have "(if i \<in> set js then tc_Arguments (fin i) else ?ar i) =
     (if i \<in> set (j # js) then tc_Arguments (fin i) else ar i)" for i by auto
  ultimately show ?case by simp
qed simp

subsection \<open>Lemmas: reading decoded lines\<close>

definition decodes :: "(string \<Rightarrow> sse_data option) \<Rightarrow> string \<Rightarrow> sse_data \<Rightarrow> bool" where
  "decodes unmarshal l e \<longleftrightarrow> HasPrefix (TrimSpace l) ''data:''
     \<and> TrimSpace (TrimPrefix (TrimSpace l) ''data:'') \<noteq> ''[DONE]''
     \<and> unmarshal (TrimSpace (TrimPrefix (TrimSpace l) ''data:'')) = Some e"

definition quiet :: "sse_data \<Rightarrow> bool" where
  "quiet e \<longleftrightarrow> sr_Error e = None \<and> \<not> finishing e"

lemma read_lines_prefix:
  assumes "live cfg" and "sf_vendor cfg \<noteq> VendorMiniMax" and "list_all2 (decodes unmarshal) ls es" and "list_all quiet es"
    and "calls_inv s fs"
  shows "read_lines cfg unmarshal s (ls @ rest) scanErr = read_lines cfg unmarshal (run_events cfg s es) rest scanErr"
  using assms(3-5)
proof (induction ls es arbitrary: s fs rule: list_all2_induct)
  case (Cons l ls e es)
  have q: "sr_Error e = None" "\<not> finishing e" using Cons.prems(1) by (auto simp: quiet_def)
  from process_event_live [OF assms(1) Cons.prems(2) assms(2) q(1)] q(2) obtain s4 where
    p: "calls_inv s4 (fs @ event_calls e)" "process_event cfg s e = (s4, False, None)" by auto
  have d: "HasPrefix (TrimSpace l) ''data:''" "TrimSpace (TrimPrefix (TrimSpace l) ''data:'') \<noteq> ''[DONE]''"
    "unmarshal (TrimSpace (TrimPrefix (TrimSpace l) ''data:'')) = Some e" using Cons(1) by (auto simp: decodes_def)
  have ne: "TrimSpace l \<noteq> []" using d(1) by auto
  have "read_lines cfg unmarshal s ((l # ls) @ rest) scanErr = read_lines cfg unmarshal s4 (ls @ rest) scanErr"
    using d ne p(2) by (simp add: processSSEData_def Let_def)
  with Cons(3) [OF _ p(1)] Cons.prems(1) p(2) show ?case by simp
qed simp

lemma read_lines_run:
  assumes "live cfg" and "sf_vendor cfg \<noteq> VendorMiniMax" and "list_all2 (decodes unmarshal) ls es" and "list_all quiet es"
    and "calls_inv s fs"
  shows "read_lines cfg unmarshal s ls scanErr = (ScanEnd (run_events cfg s es), scanErr)"
  using read_lines_prefix [OF assms, of "[]" scanErr] by simp

definition emit_inv :: "readStreamState \<Rightarrow> bool" where
  "emit_inv s \<longleftrightarrow> (rs_out s \<noteq> [] \<longrightarrow> rs_emitted s)"

lemma emit_deliver [simp]: "emit_inv s \<Longrightarrow> emit_inv (deliver cs s)"
  by (auto simp: emit_inv_def deliver_def)

lemma emit_add_call [simp]: "emit_inv (add_call s tc) = emit_inv s" "emit_inv (s\<lparr>rs_started := x\<rparr>) = emit_inv s"
  by (simp_all add: emit_inv_def add_call_def Let_def)

lemma emit_calls_loop: "live cfg \<Longrightarrow> emit_inv s \<Longrightarrow> emit_inv (fst (calls_loop cfg s tcs))"
  by (induction tcs arbitrary: s) (auto simp: Let_def)

lemma emit_usage: "live cfg \<Longrightarrow> emit_inv s \<Longrightarrow> emit_inv (usage_step cfg s u)"
  by (auto simp: usage_step_def sendChunk_def emit_inv_def deliver_def Let_def split: option.splits)

lemma emit_event:
  assumes "live cfg" and "sf_vendor cfg \<noteq> VendorMiniMax" and "quiet e" and "emit_inv s"
  shows "emit_inv (fst (process_event cfg s e))"
proof -
  have c: "emit_inv (fst (process_choice cfg t d))" if "emit_inv t" "sr_Choices e = d # ds" for t d ds
  proof -
    have nf: "\<not> (sd_FinishReason d \<noteq> None \<and> sd_FinishReason d \<noteq> Some [])"
      using assms(3) that(2) by (auto simp: quiet_def finishing_def)
    let ?s3 = "deliver (if sd_Content d = [] then [] else [text_chunk ChunkText (sd_Content d)]) (deliver (reasoning_chunks d) t)"
    have "emit_inv (fst (calls_loop cfg ?s3 (sd_ToolCalls d)))"
      using that(1) by (intro emit_calls_loop [OF assms(1)]) simp
    then show ?thesis
      using assms(1,2) nf by (auto simp: process_choice_def content_chunks_def split: prod.splits if_splits)
  qed
  have "emit_inv (case sr_Usage e of Some u \<Rightarrow> usage_step cfg s u | None \<Rightarrow> s)"
    using assms(1,4) by (auto simp: emit_usage split: option.splits)
  with c assms(3) show ?thesis by (auto simp: process_event_def quiet_def Let_def split: list.splits)
qed

lemma emit_run:
  assumes "live cfg" and "sf_vendor cfg \<noteq> VendorMiniMax" and "list_all quiet es" and "emit_inv s"
  shows "emit_inv (run_events cfg s es)"
  using assms(3,4) by (induction es arbitrary: s) (auto simp: emit_event [OF assms(1,2)])

subsection \<open>Properties\<close>

definition first_fragment :: "sse_call list \<Rightarrow> int \<Rightarrow> sse_call" where
  "first_fragment fs i = hd (fragments_of i fs)"

text \<open>What providers send: a call is named and identified by its first fragment, later fragments do not
  change the ID, and no two calls share one.\<close>

definition ids_ok :: "sse_call list \<Rightarrow> bool" where
  "ids_ok fs \<longleftrightarrow> distinct (map (\<lambda>i. d_ID (first_fragment fs i)) (first_seen (map d_Index fs)))
     \<and> list_all (\<lambda>i. d_ID (first_fragment fs i) \<noteq> [] \<and> tc_ID (merged fs i) = d_ID (first_fragment fs i))
         (first_seen (map d_Index fs))"

text \<open>The events of a streamed answer arrive whole: for any events followed by a finishing one, the client and the
  bridge together deliver exactly one message, whose text is the concatenation of all content deltas and
  whose tool calls are, in order of first appearance, the calls the server sent, each with the
  concatenation of all its argument fragments.\<close>

lemma events_end_to_end:
  assumes "live cfg" and "sf_vendor cfg \<noteq> VendorMiniMax"
    and "\<forall>e \<in> set es. sr_Error e = None \<and> \<not> finishing e" and "sr_Error fin = None" and "finishing fin"
    and "fs = concat (map event_calls (es @ [fin]))" and "named_first [] fs" and "ids_ok fs"
  shows "\<exists>s' m. process_event cfg (run_events cfg (rs_init [] 0 us) es) fin = (s', True, None)
    \<and> bridge_stream recover (rs_out s') = [PMsg m]
    \<and> em_Content m = concat (map event_content (es @ [fin]))
    \<and> em_ToolCalls m = map (\<lambda>i. \<lparr>tc_ID = d_ID (first_fragment fs i), tc_Type = ''function'',
         tc_Name = d_Name (first_fragment fs i), tc_Arguments = concat (map d_Arguments (fragments_of i fs))\<rparr>)
         (first_seen (map d_Index fs))"
proof -
  let ?idx = "first_seen (map d_Index fs)" and ?id = "\<lambda>i. d_ID (first_fragment fs i)"
  let ?fin = "\<lambda>i. final_call i (merged fs i)"
  from complete_stream_live [OF assms(1-5), folded assms(6), OF assms(7)] obtain s' body where
    p: "process_event cfg (run_events cfg (rs_init [] 0 us) es) fin = (s', True, None)"
      "rs_out s' = body @ map (\<lambda>i. call_chunk ChunkToolCall (?fin i)) ?idx @ [zero_Chunk ChunkDone]"
      "no_end body" "text_of body = concat (map event_content (es @ [fin]))" "call_chunks body = starts_of [] fs" by blast
  let ?finals = "map (\<lambda>i. call_chunk ChunkToolCall (?fin i)) ?idx"
  have ne: "no_end (body @ ?finals)" using p(3) by (auto simp: no_end_def)
  let ?s = "foldl collect collected_init (body @ ?finals)"
  have b: "bridge_stream recover (rs_out s') = [PMsg (collected_msg ?s)]"
    using bridge_loop_collects [OF ne, of recover 0 collected_init "[zero_Chunk ChunkDone]"]
    unfolding p(2) bridge_stream_def by simp
  have content: "fullContent ?s = concat (map event_content (es @ [fin]))"
    using p(4) by (simp add: collect_content collected_init_def) (simp add: text_of_def)
  have "toolCalls (foldl collect collected_init body) = toolCalls (foldl collect collected_init (starts_of [] fs))"
    using collect_calls_only [of collected_init collected_init body] p(5) by simp
  also have "\<dots> = map open_call (map (first_fragment fs) ?idx)"
    using collect_starts [of collected_init "map (first_fragment fs) ?idx"]
    by (simp add: starts_of_first_seen first_fragment_def [abs_def] collected_init_def comp_def)
  finally have opened: "toolCalls (foldl collect collected_init body) =
     map (\<lambda>i. \<lparr>tc_ID = ?id i, tc_Type = ''function'', tc_Name = d_Name (first_fragment fs i), tc_Arguments = []\<rparr>) ?idx"
    by (simp add: open_call_def comp_def)
  have ids: "distinct (map ?id ?idx)" "\<forall>i \<in> set ?idx. tc_ID (?fin i) = ?id i"
    using assms(8) by (auto simp: ids_ok_def list_all_iff final_call_def)
  have "toolCalls ?s = map (\<lambda>i. \<lparr>tc_ID = ?id i, tc_Type = ''function'', tc_Name = d_Name (first_fragment fs i),
       tc_Arguments = (if i \<in> set ?idx then tc_Arguments (?fin i) else [])\<rparr>) ?idx"
    using collect_finals [OF ids(1) order_refl first_seen_distinct opened, of ?fin] ids(2) by simp
  also have "\<dots> = map (\<lambda>i. \<lparr>tc_ID = ?id i, tc_Type = ''function'', tc_Name = d_Name (first_fragment fs i),
       tc_Arguments = concat (map d_Arguments (fragments_of i fs))\<rparr>) ?idx"
    by (intro map_cong) (auto simp: final_call_def merged_arguments)
  finally show ?thesis
    using p(1) b content by (intro exI [of _ s'] exI [of _ "collected_msg ?s"]) (simp add: collected_msg_def zero_EMessage_def)
qed

text \<open>A connection that breaks in the middle of an answer goes unnoticed: if the first response
  delivers some text and then its body ends with a read error, the client records the error but sends
  no error chunk, and the bridge passes the truncated text on as a complete message, without the notice
  and the recovery call that an interrupted stream is meant to trigger.\<close>

theorem broken_stream_looks_complete:
  assumes "\<forall>n. se_accept env n" and "oa_vendor oa \<noteq> VendorMiniMax" and "snd (limit we req oa) = None"
    and "\<exists>body. snd (snd (SendWithRetry (oa_vendor oa) (ai_send (se_io env 0)) (net (oa_vendor oa)))) = Inr body"
    and "list_all2 (decodes (se_unmarshal env)) (ai_lines (se_io env 0)) es" and "list_all quiet es"
    and "ai_scanErr (se_io env 0) = Some e" and "concat (map event_content es) \<noteq> []"
  shows "\<exists>m. bridge_stream recover (ss_out (streamWithFailover env we req (stream_init oa net w))) = [PMsg m]
    \<and> em_Content m = concat (map event_content es)
    \<and> ss_lastErr (streamWithFailover env we req (stream_init oa net w)) = Some (StreamInterruptedError True (ErrWrap ''scanner error'' e))"
proof -
  obtain oa1 where l: "limit we req oa = (oa1, None)" using assms(3) by (cases "limit we req oa") auto
  have v: "oa_vendor oa1 = oa_vendor oa" using l by (auto simp: limit_def split: prod.splits)
  let ?st0 = "(stream_init oa net w)\<lparr>ss_o := oa1\<rparr>" and ?io = "se_io env 0" and ?cfg = "io_cfg env oa1"
  let ?ini = "rs_init [] 0 (oa_lastUsage oa1)"
  have cfg: "live ?cfg" "sf_vendor ?cfg \<noteq> VendorMiniMax" using assms(1,2) v by (simp_all add: live_def io_cfg_def)
  have inv: "calls_inv ?ini []" "emit_inv ?ini" by (simp_all add: calls_inv_def rs_init_def first_seen_def emit_inv_def)
  let ?rs = "run_events ?cfg ?ini es"
  have q: "\<forall>e \<in> set es. sr_Error e = None \<and> \<not> finishing e" using assms(6) by (auto simp: list_all_iff quiet_def)
  from run_events_live [OF cfg(1) inv(1) cfg(2) q]
  have r: "text_of (rs_out ?rs) = concat (map event_content es)" "no_end (rs_out ?rs)" by (auto simp: rs_init_def text_of_def)
  have "rs_out ?rs \<noteq> []" using r(1) assms(8) by (auto simp: text_of_def)
  with emit_run [OF cfg assms(6) inv(2)] have em: "rs_emitted ?rs" by (simp add: emit_inv_def)
  obtain net1 evs body where s: "SendWithRetry (oa_vendor oa) (ai_send ?io) (net (oa_vendor oa)) = (net1, evs, Inr body)"
    using assms(4) by (metis prod.collapse)
  have read: "readStream ?cfg (se_unmarshal env) ?ini (ai_lines ?io) (ai_scanErr ?io) (ai_stalled ?io) =
     (?rs, Some (StreamInterruptedError True (ErrWrap ''scanner error'' e)))"
    using read_lines_run [OF cfg assms(5,6) inv(1)] assms(7) em by (simp add: readStream_def streamErr_def)
  obtain st1 where a: "one_attempt env req 0 ?st0 = (st1, False)" "ss_out st1 = rs_out ?rs"
    "ss_lastErr st1 = Some (StreamInterruptedError True (ErrWrap ''scanner error'' e))"
    using s read v em by (auto simp: one_attempt_def read_response_def stream_init_def Let_def)
  let ?mr = "oa_maxReconnect oa1" and ?fm = "maxRetries (oa_failover oa1)"
  have "stream_loop env req ?mr ?fm (?mr + ?fm + 2) 0 ?st0 = st1"
    using stream_loop_attempt [of 0 ?st0 ?mr env req st1 False ?fm "?mr + ?fm + 1"] a(1) by simp
  with l a(3) have st: "ss_out (streamWithFailover env we req (stream_init oa net w)) = rs_out ?rs"
    "ss_lastErr (streamWithFailover env we req (stream_init oa net w)) = Some (StreamInterruptedError True (ErrWrap ''scanner error'' e))"
    using a(2) by (simp_all add: streamWithFailover_def Let_def stream_init_def)
  have "bridge_stream recover (rs_out ?rs) = [PMsg (collected_msg (foldl collect collected_init (rs_out ?rs)))]"
    using bridge_loop_collects [OF r(2), of recover 0 collected_init "[]"] by (simp add: bridge_stream_def)
  with st r(1) show ?thesis by (simp add: collected_msg_def zero_EMessage_def collect_content collected_init_def)
qed

definition sample_text :: sse_data where
  "sample_text = \<lparr>sr_Choices = [\<lparr>sd_Content = ''hi'', sd_ReasoningContent = [], sd_Reasoning = [], sd_ToolCalls = [],
     sd_FinishReason = None\<rparr>], sr_Usage = None, sr_Error = None\<rparr>"

theorem broken_stream_looks_complete_witness:
  "\<exists>m. bridge_stream (Inl ErrEOF) (ss_out (streamWithFailover (sample_env sample_text (Some ErrUnexpectedEOF))
      \<lparr>wv_now = 0, wv_ctx = None, wv_wake = 0\<rparr> sample_request (stream_init sample_client (\<lambda>_. plain_net) ()))) = [PMsg m]
    \<and> em_Content m = ''hi''"
proof -
  let ?env = "sample_env sample_text (Some ErrUnexpectedEOF)" and ?we = "\<lparr>wv_now = 0, wv_ctx = None, wv_wake = 0\<rparr>"
  have acc: "\<forall>n. se_accept ?env n" "oa_vendor sample_client \<noteq> VendorMiniMax" by (simp_all add: sample_env_def sample_client_def)
  have lim: "snd (limit ?we sample_request sample_client) = None"
    by (simp add: limit_def Wait_def sample_client_def NewRateLimiter_def)
  have "snd (snd (SendWithRetry (oa_vendor sample_client) (ai_send (se_io ?env 0)) plain_net)) = Inr []" by code_simp
  then have snd: "\<exists>body. snd (snd (SendWithRetry (oa_vendor sample_client) (ai_send (se_io ?env 0))
      ((\<lambda>_. plain_net) (oa_vendor sample_client)))) = Inr body" by blast
  have "decodes (se_unmarshal ?env) ''data: {}'' sample_text" by code_simp
  then have dec: "list_all2 (decodes (se_unmarshal ?env)) (ai_lines (se_io ?env 0)) [sample_text]" by (simp add: sample_env_def)
  have ev: "list_all quiet [sample_text]" "ai_scanErr (se_io ?env 0) = Some ErrUnexpectedEOF"
    "concat (map event_content [sample_text]) \<noteq> []"
    by (simp_all add: quiet_def finishing_def sample_text_def sample_env_def event_content_def)
  from broken_stream_looks_complete [OF acc lim snd dec ev, of "Inl ErrEOF"] show ?thesis
    by (auto simp: event_content_def sample_text_def)
qed

text \<open>The bridge matches a finished call to its start by ID. When the server sends no ID, the start
  carries an empty one and the finished call a generated one, so the arguments are dropped.\<close>

theorem missing_id_loses_arguments:
  assumes "d_ID f = []" and "tc_ID tc = []"
  shows "bridge_stream recover [start_chunk f, call_chunk ChunkToolCall (final_call i tc), zero_Chunk ChunkDone] =
    [PMsg (zero_EMessage\<lparr>em_Role := RoleAssistant,
       em_ToolCalls := [\<lparr>tc_ID = [], tc_Type = ''function'', tc_Name = d_Name f, tc_Arguments = []\<rparr>]\<rparr>)]"
  using assms
  by (simp add: bridge_stream_def start_chunk_def call_chunk_def zero_Chunk_def final_call_def collect_def
      collected_init_def collected_msg_def zero_EMessage_def zero_ToolCall_def)

text \<open>If the recovery call fails, its error is not passed on: the reader sees the notice and then the
  end of the stream.\<close>

theorem recovery_error_swallowed:
  "bridge_stream (Inl err) [(zero_Chunk ChunkError)\<lparr>ch_Error := Some (StreamInterruptedError True e)\<rparr>] =
     [PMsg (zero_EMessage\<lparr>em_Role := RoleAssistant, em_Content := recovering_notice\<rparr>)]"
  by (simp add: bridge_stream_def zero_Chunk_def errors_As_def)

end
