(* ===== verification/Session.thy ===== *)
theory Session
  imports Convert "HOL-Library.AList"
begin

section \<open>Sessions (internal/session/manager.go, internal/adk/session)\<close>

text \<open>
  The manager keeps the messages of each session and the time of its last use; both Go maps are
  association lists with distinct keys. A message pointer may be nil. History is written to a file
  as JSON; the codec for the history record and the file system are arguments. Converting a nil
  message panics.
\<close>

record Manager =
  mg_sessions :: "(string \<times> EMessage option list) list"
  mg_lastAccess :: "(string \<times> int) list"
  mg_default :: string

definition NewManager :: "string \<Rightarrow> Manager" where
  "NewManager defaultSession = \<lparr>mg_sessions = [], mg_lastAccess = [],
     mg_default = (if defaultSession = [] then ''default'' else defaultSession)\<rparr>"

definition messages_of :: "Manager \<Rightarrow> string \<Rightarrow> EMessage option list" where
  "messages_of m sid = (case map_of (mg_sessions m) sid of Some ms \<Rightarrow> ms | None \<Rightarrow> [])"

definition SnapshotWith :: "Manager \<Rightarrow> int \<Rightarrow> string \<Rightarrow> EMessage option list \<Rightarrow> Manager \<times> EMessage option list" where
  "SnapshotWith m now sid extra =
     (m\<lparr>mg_lastAccess := AList.update sid now (mg_lastAccess m)\<rparr>, messages_of m sid @ extra)"

definition Append :: "Manager \<Rightarrow> int \<Rightarrow> string \<Rightarrow> EMessage option list \<Rightarrow> Manager" where
  "Append m now sid msgs = m\<lparr>mg_sessions := AList.update sid (messages_of m sid @ msgs) (mg_sessions m),
     mg_lastAccess := AList.update sid now (mg_lastAccess m)\<rparr>"

definition Count :: "Manager \<Rightarrow> nat" where "Count m = length (mg_sessions m)"

definition Cleanup :: "Manager \<Rightarrow> int \<Rightarrow> int \<Rightarrow> Manager \<times> nat" where
  "Cleanup m now maxAge =
     (let old = map fst (filter (\<lambda>(sid, t). now - t > maxAge) (mg_lastAccess m))
      in (m\<lparr>mg_sessions := filter (\<lambda>(sid, _). sid \<notin> set old) (mg_sessions m),
            mg_lastAccess := filter (\<lambda>(sid, _). sid \<notin> set old) (mg_lastAccess m)\<rparr>, length old))"

text \<open>\<open>StartCleanup\<close>: the goroutine takes ticks until the context ends. What happens to a manager is a sequence of
  calls and of turns of this goroutine, each with its time; the flag tells whether it still runs.\<close>

datatype mgr_event =
    UseSession int string
  | AddMessages int string "EMessage option list"
  | CleanupTick int
  | CleanupStop

fun StartCleanup_step :: "int \<Rightarrow> Manager \<times> bool \<Rightarrow> mgr_event \<Rightarrow> Manager \<times> bool" where
  "StartCleanup_step maxAge (m, running) (UseSession now sid) = (fst (SnapshotWith m now sid []), running)"
| "StartCleanup_step maxAge (m, running) (AddMessages now sid ms) = (Append m now sid ms, running)"
| "StartCleanup_step maxAge (m, running) (CleanupTick now) = (if running then fst (Cleanup m now maxAge) else m, running)"
| "StartCleanup_step maxAge (m, running) CleanupStop = (m, False)"

definition run_manager :: "int \<Rightarrow> Manager \<Rightarrow> mgr_event list \<Rightarrow> Manager \<times> bool" where
  "run_manager maxAge m es = foldl (StartCleanup_step maxAge) (m, True) es"

subsection \<open>History files\<close>

record historyMessage =
  hm_Role :: string
  hm_Content :: string
  hm_ReasoningContent :: string
  hm_ToolCalls :: "ToolCall list"
  hm_ToolCallID :: string
  hm_Name :: string
  hm_MultiContent :: "(string \<times> gany) list list"

definition chatMessagePartsToMaps :: "ChatPart list \<Rightarrow> (string \<times> gany) list list" where
  "chatMessagePartsToMaps parts = map (\<lambda>p. [(''type'', GStr (cp_Type p))]
     @ (if cp_Text p \<noteq> [] then [(''text'', GStr (cp_Text p))] else [])
     @ (case cp_ImageURL p of Some u \<Rightarrow> [(''image_url'', GObj [(''url'', GStr u)])] | None \<Rightarrow> [])) parts"

definition toHistoryMsg :: "EMessage \<Rightarrow> historyMessage" where
  "toHistoryMsg m = \<lparr>hm_Role = em_Role m, hm_Content = em_Content m, hm_ReasoningContent = em_ReasoningContent m,
     hm_ToolCalls = em_ToolCalls m, hm_ToolCallID = em_ToolCallID m, hm_Name = em_Name m,
     hm_MultiContent = (if em_UserParts m \<noteq> [] then fromEinoMultiContent (em_UserParts m)
        else if em_MultiContent m \<noteq> [] then chatMessagePartsToMaps (em_MultiContent m) else [])\<rparr>"

definition fromHistoryMsg :: "historyMessage \<Rightarrow> EMessage" where
  "fromHistoryMsg h = zero_EMessage\<lparr>em_Role := hm_Role h, em_Content := hm_Content h,
     em_ReasoningContent := hm_ReasoningContent h, em_ToolCallID := hm_ToolCallID h, em_Name := hm_Name h,
     em_UserParts := (if hm_MultiContent h \<noteq> [] then toEinoMultiContent (hm_MultiContent h) else []),
     em_ToolCalls := hm_ToolCalls h\<rparr>"

type_synonym dto = "(string \<times> historyMessage list) list"

text \<open>\<open>None\<close>: a nil message panics.\<close>

definition to_dto :: "(string \<times> EMessage option list) list \<Rightarrow> dto option" where
  "to_dto sessions = those (map (\<lambda>(sid, ms). map_option (\<lambda>hs. (sid, map toHistoryMsg hs)) (those ms)) sessions)"

definition from_dto :: "dto \<Rightarrow> (string \<times> EMessage option list) list" where
  "from_dto d = map (\<lambda>(sid, hs). (sid, map (Some \<circ> fromHistoryMsg) hs)) d"

record 'b history_codec =
  hc_marshal :: "dto \<Rightarrow> gerror + 'b"
  hc_unmarshal :: "'b \<Rightarrow> gerror + dto"

definition session_Marshal :: "'b history_codec \<Rightarrow> (string \<times> EMessage option list) list \<Rightarrow> 'b outcome" where
  "session_Marshal hc sessions = (case to_dto sessions of
     None \<Rightarrow> Panic
   | Some d \<Rightarrow> (case hc_marshal hc d of Inl e \<Rightarrow> Err e | Inr b \<Rightarrow> Ok b))"

definition session_Unmarshal :: "'b history_codec \<Rightarrow> 'b \<Rightarrow> gerror + (string \<times> EMessage option list) list" where
  "session_Unmarshal hc b = (case hc_unmarshal hc b of Inl e \<Rightarrow> Inl e | Inr d \<Rightarrow> Inr (from_dto d))"

text \<open>The file system maps paths to contents; \<open>werr\<close> is the error of the write, if it fails, and what it leaves in
  the file, if that was already truncated.\<close>

definition Save :: "'b history_codec \<Rightarrow> (gerror \<times> 'b option) option \<Rightarrow> Manager \<Rightarrow> string \<Rightarrow> (string \<rightharpoonup> 'b) \<Rightarrow> (string \<rightharpoonup> 'b) \<times> unit outcome" where
  "Save hc werr m path fs =
     (if mg_sessions m = [] then (fs, Ok ())
      else case session_Marshal hc (mg_sessions m) of
          Panic \<Rightarrow> (fs, Panic)
        | Err e \<Rightarrow> (fs, Err (ErrWrap ''marshal sessions'' e))
        | Ok data \<Rightarrow> (case werr of
            Some (e, left) \<Rightarrow> ((case left of None \<Rightarrow> fs | Some d \<Rightarrow> fs(path \<mapsto> d)), Err (ErrWrap ''write history'' e))
          | None \<Rightarrow> (fs(path \<mapsto> data), Ok ())))"

definition Load :: "'b history_codec \<Rightarrow> Manager \<Rightarrow> string \<Rightarrow> (string \<rightharpoonup> 'b) \<Rightarrow> Manager \<times> (gerror + nat)" where
  "Load hc m path fs = (case fs path of
     None \<Rightarrow> (m, Inl (ErrMsg ''no such file''))
   | Some data \<Rightarrow> (case session_Unmarshal hc data of
       Inl e \<Rightarrow> (m, Inl e)
     | Inr ss \<Rightarrow> (m\<lparr>mg_sessions := AList.updates (map fst ss) (map snd ss) (mg_sessions m)\<rparr>, Inr (length ss))))"

subsection \<open>The adapter (internal/adk/session/adapter.go)\<close>

text \<open>The operations of the \<open>Store\<close> interface return an error value; the adapter's is always nil.\<close>

type_synonym ('s) store_get = "'s \<Rightarrow> string \<Rightarrow> 's \<times> (gerror + Message option list)"
type_synonym ('s) store_append = "'s \<Rightarrow> string \<Rightarrow> Message option list \<Rightarrow> 's \<times> gerror option"

definition adapter_Get :: "int \<Rightarrow> Manager store_get" where
  "adapter_Get now m sid = (case SnapshotWith m now sid [] of (m1, ms) \<Rightarrow> (m1, Inr (FromEinoSlice ms)))"

definition adapter_Append :: "int \<Rightarrow> Manager store_append" where
  "adapter_Append now m sid msgs = (Append m now sid (ToEinoSlice msgs), None)"

definition adapter_Snapshot :: "int \<Rightarrow> Manager store_get" where
  "adapter_Snapshot now m sid = (case SnapshotWith m now sid [] of (m1, ms) \<Rightarrow> (m1, Inr (FromEinoSlice ms)))"

subsection \<open>The contract of a session store (internal/adk/session/store.go)\<close>

text \<open>\<open>view\<close> is the conversation a store holds for a session; messages that satisfy \<open>ok\<close> are
  stored faithfully.\<close>

locale session_store =
  fixes get :: "'s store_get"
    and app :: "'s store_append"
    and view :: "'s \<Rightarrow> string \<Rightarrow> Message option list"
    and ok :: "Message option \<Rightarrow> bool"
  assumes get_view: "snd (get s sid) = Inr (view s sid)"
    and get_keeps: "view (fst (get s sid)) = view s"
    and app_ok: "snd (app s sid ms) = None"
    and app_same: "list_all ok ms \<Longrightarrow> view (fst (app s sid ms)) sid = view s sid @ ms"
    and app_other: "sid' \<noteq> sid \<Longrightarrow> view (fst (app s sid ms)) sid' = view s sid'"
begin

text \<open>A history of turns: each appends messages to a session.\<close>

definition run_turns :: "'s \<Rightarrow> (string \<times> Message option list) list \<Rightarrow> 's" where
  "run_turns s turns = foldl (\<lambda>s (sid, ms). fst (app s sid ms)) s turns"

lemma turns_view:
  assumes "list_all (\<lambda>(_, ms). list_all ok ms) turns"
  shows "view (run_turns s turns) sid = view s sid @ concat (map snd (filter (\<lambda>(x, _). x = sid) turns))"
  using assms
proof (induction turns arbitrary: s)
  case (Cons t turns)
  obtain x ms where t: "t = (x, ms)" by fastforce
  then have ok: "list_all ok ms" and rest: "list_all (\<lambda>(_, ms). list_all ok ms) turns" using Cons.prems by auto
  have r: "run_turns s (t # turns) = run_turns (fst (app s x ms)) turns" by (simp add: run_turns_def t)
  show ?case
  proof (cases "x = sid")
    case True
    with r Cons.IH [OF rest, of "fst (app s x ms)"] app_same [OF ok, of s x] t show ?thesis by simp
  next
    case False
    with r Cons.IH [OF rest, of "fst (app s x ms)"] app_other [of sid x s ms] t show ?thesis by auto
  qed
qed (simp add: run_turns_def)

lemma read_after_append: "list_all ok ms \<Longrightarrow> snd (get (fst (app s sid ms)) sid) = Inr (view s sid @ ms)"
  by (simp add: get_view app_same)

end

definition adapter_view :: "Manager \<Rightarrow> string \<Rightarrow> Message option list" where
  "adapter_view m sid = FromEinoSlice (messages_of m sid)"

lemma messages_of_Append: "messages_of (Append m now sid ms) sid' = messages_of m sid' @ (if sid' = sid then ms else [])"
  by (simp add: messages_of_def Append_def update_conv')

lemma messages_of_Snapshot: "messages_of (fst (SnapshotWith m now sid ex)) = messages_of m"
  by (simp add: SnapshotWith_def messages_of_def fun_eq_iff)

lemma FromEinoSlice_append [simp]: "FromEinoSlice (xs @ ys) = FromEinoSlice xs @ FromEinoSlice ys"
  by (simp add: FromEinoSlice_def)

lemma roundtrip_slice: "list_all adk_ok ms \<Longrightarrow> FromEinoSlice (ToEinoSlice ms) = ms"
  by (induction ms) (auto simp: FromEinoSlice_def ToEinoSlice_def adk_roundtrip)

interpretation manager_store: session_store "adapter_Get tget" "adapter_Append tapp" adapter_view adk_ok for tget tapp
proof
  fix s sid show "snd (adapter_Get tget s sid) = Inr (adapter_view s sid)"
    by (simp add: adapter_Get_def adapter_view_def SnapshotWith_def)
next
  fix s sid show "adapter_view (fst (adapter_Get tget s sid)) = adapter_view s"
    using messages_of_Snapshot [of s tget sid "[]"]
    by (cases "SnapshotWith s tget sid []") (simp add: adapter_Get_def adapter_view_def fun_eq_iff)
next
  fix s sid ms show "snd (adapter_Append tapp s sid ms) = None" by (simp add: adapter_Append_def)
next
  fix ms s sid assume "list_all adk_ok ms"
  then show "adapter_view (fst (adapter_Append tapp s sid ms)) sid = adapter_view s sid @ ms"
    by (simp add: adapter_view_def adapter_Append_def messages_of_Append roundtrip_slice)
next
  fix sid' sid :: string and s ms assume "sid' \<noteq> sid"
  then show "adapter_view (fst (adapter_Append tapp s sid ms)) sid' = adapter_view s sid'"
    by (simp add: adapter_view_def adapter_Append_def messages_of_Append)
qed

subsection \<open>Invariant\<close>

definition mgr_inv :: "Manager \<Rightarrow> bool" where
  "mgr_inv m \<longleftrightarrow> distinct (map fst (mg_sessions m)) \<and> distinct (map fst (mg_lastAccess m))"

lemma mgr_inv_New: "mgr_inv (NewManager d)"
  by (simp add: mgr_inv_def NewManager_def)

lemma distinct_filter_keys: "distinct (map fst xs) \<Longrightarrow> distinct (map fst (filter P xs))"
  by (induction xs) auto

lemma mgr_inv_ops:
  assumes "mgr_inv m"
  shows "mgr_inv (fst (SnapshotWith m now sid ex))" "mgr_inv (Append m now sid ms)" "mgr_inv (fst (Cleanup m now age))"
    "mgr_inv (fst (Load hc m path fs))"
  using assms
  by (auto simp: mgr_inv_def SnapshotWith_def Append_def Cleanup_def Load_def Let_def distinct_update distinct_updates
      distinct_filter_keys split: option.splits sum.splits)

lemma update_fresh: "k \<notin> fst ` set al \<Longrightarrow> AList.update k v al = al @ [(k, v)]"
  by (induction al) auto

lemma updates_fresh:
  "distinct (map fst ss) \<Longrightarrow> fst ` set ss \<inter> fst ` set al = {} \<Longrightarrow> AList.updates (map fst ss) (map snd ss) al = al @ ss"
proof (induction ss arbitrary: al)
  case (Cons x ss)
  then have f: "fst x \<notin> fst ` set al" by auto
  have "AList.updates (map fst ss) (map snd ss) (al @ [x]) = (al @ [x]) @ ss"
    using Cons.prems by (intro Cons.IH) auto
  with update_fresh [OF f, of "snd x"] show ?case by simp
qed simp

lemma map_of_filter_key: "map_of (filter (\<lambda>(k, _). P k) xs) k = (if P k then map_of xs k else None)"
  by (induction xs) auto

subsection \<open>Lemmas: history\<close>

definition storable :: "EMessage \<Rightarrow> bool" where
  "storable e \<longleftrightarrow> em_MultiContent e = [] \<and> list_all url_part (em_UserParts e)"

lemma history_roundtrip: "storable e \<Longrightarrow> fromHistoryMsg (toHistoryMsg e) = e"
proof -
  assume s: "storable e"
  have "map (to_part \<circ> from_part) (em_UserParts e) = em_UserParts e"
    using s by (intro map_idI) (auto simp: storable_def list_all_iff to_from_part)
  with s show ?thesis
    by (simp add: storable_def fromHistoryMsg_def toHistoryMsg_def zero_EMessage_def toEinoMultiContent_def
        fromEinoMultiContent_def)
qed

definition storable_msgs :: "EMessage option list \<Rightarrow> bool" where
  "storable_msgs ms \<longleftrightarrow> list_all (\<lambda>x. case x of None \<Rightarrow> False | Some e \<Rightarrow> storable e) ms"

lemma storable_those: "storable_msgs ms \<Longrightarrow> \<exists>es. ms = map Some es \<and> those ms = Some es \<and> list_all storable es"
proof (induction ms)
  case (Cons m ms)
  then obtain e where "m = Some e" "storable e" "storable_msgs ms" by (auto simp: storable_msgs_def split: option.splits)
  with Cons.IH show ?case by (auto intro: exI [of _ "e # _"])
qed simp

lemma dto_roundtrip:
  assumes "list_all (\<lambda>(_, ms). storable_msgs ms) ss"
  shows "\<exists>d. to_dto ss = Some d \<and> from_dto d = ss"
  using assms
proof (induction ss)
  case Nil
  then show ?case by (simp add: to_dto_def from_dto_def)
next
  case (Cons x ss)
  obtain sid ms where x: "x = (sid, ms)" by fastforce
  from Cons obtain d where d: "to_dto ss = Some d" "from_dto d = ss" by auto
  from Cons.prems x obtain es where es: "ms = map Some es" "those ms = Some es" "list_all storable es"
    using storable_those by fastforce
  have "map (Some \<circ> fromHistoryMsg) (map toHistoryMsg es) = ms"
    using es by (auto simp: list_all_iff history_roundtrip)
  with d x es(2) show ?case by (simp add: to_dto_def from_dto_def)
qed

subsection \<open>Properties\<close>

text \<open>Sessions are isolated and lose nothing: after any sequence of turns appended to any sessions,
  reading a session through the adapter returns what it held before followed by exactly its own turns,
  in order.\<close>

theorem sessions_isolated:
  assumes "list_all (\<lambda>(_, ms). list_all adk_ok ms) turns"
  shows "snd (adapter_Get now (foldl (\<lambda>m (sid, ms). fst (adapter_Append t m sid ms)) m turns) sid) =
    Inr (adapter_view m sid @ concat (map snd (filter (\<lambda>(x, _). x = sid) turns)))
   \<and> snd (adapter_Get now m sid) = Inr (adapter_view m sid)"
  using manager_store.turns_view [OF assms, where tapp = t and s = m and sid = sid]
  by (simp add: manager_store.get_view manager_store.run_turns_def)

theorem sessions_isolated_witness:
  "snd (adapter_Get 9 (foldl (\<lambda>m (sid, ms). fst (adapter_Append 5 m sid ms)) (NewManager [])
      [(''a'', [Some (zero_Message\<lparr>m_Content := ''x''\<rparr>)]), (''b'', [None]), (''a'', [Some (zero_Message\<lparr>m_Content := ''y''\<rparr>)])]) ''a'')
   = Inr [Some (zero_Message\<lparr>m_Content := ''x''\<rparr>), Some (zero_Message\<lparr>m_Content := ''y''\<rparr>)]"
proof -
  let ?t = "[(''a'', [Some (zero_Message\<lparr>m_Content := ''x''\<rparr>)]), (''b'', [None]), (''a'', [Some (zero_Message\<lparr>m_Content := ''y''\<rparr>)])]"
  have "list_all (\<lambda>(_, ms). list_all adk_ok ms) ?t" by (simp add: adk_ok_def zero_Message_def)
  from conjunct1 [OF sessions_isolated [OF this, of 9 5 "NewManager []" "''a''"]] show ?thesis
    by (simp add: adapter_view_def messages_of_def NewManager_def FromEinoSlice_def)
qed

lemma save_then_load:
  assumes "mgr_inv m" and "list_all (\<lambda>(_, ms). storable_msgs ms) (mg_sessions m)" and "mg_sessions m \<noteq> []"
    and "\<forall>d. \<exists>b. hc_marshal hc d = Inr b \<and> hc_unmarshal hc b = Inr d"
  shows "\<exists>fs'. Save hc None m path fs = (fs', Ok ())
    \<and> mg_sessions (fst (Load hc (NewManager d0) path fs')) = mg_sessions m
    \<and> snd (Load hc (NewManager d0) path fs') = Inr (Count m)"
proof -
  obtain d where d: "to_dto (mg_sessions m) = Some d" "from_dto d = mg_sessions m"
    using dto_roundtrip [OF assms(2)] by blast
  obtain b where b: "hc_marshal hc d = Inr b" "hc_unmarshal hc b = Inr d" using assms(4) by blast
  have s: "Save hc None m path fs = (fs(path \<mapsto> b), Ok ())"
    using assms(3) d(1) b(1) by (simp add: Save_def session_Marshal_def)
  have "AList.updates (map fst (mg_sessions m)) (map snd (mg_sessions m)) [] = [] @ mg_sessions m"
    using assms(1) by (intro updates_fresh) (auto simp: mgr_inv_def)
  with s d(2) b(2) show ?thesis
    by (simp add: Load_def session_Unmarshal_def NewManager_def Count_def)
qed

text \<open>Saved history is restored exactly: if every stored message is non-nil, has no legacy parts and
  its images are given by URL, and the JSON codec decodes what it encoded, then saving to a file and
  loading it into a new manager restores the same sessions with the same messages.\<close>

theorem save_load_roundtrip:
  assumes "mgr_inv m" and "list_all (\<lambda>(_, ms). storable_msgs ms) (mg_sessions m)" and "mg_sessions m \<noteq> []"
    and "\<forall>d. \<exists>b. hc_marshal hc d = Inr b \<and> hc_unmarshal hc b = Inr d"
  shows "\<exists>fs'. Save hc None m path fs = (fs', Ok ())
    \<and> mg_sessions (fst (Load hc (NewManager d0) path fs')) = mg_sessions m
    \<and> snd (Load hc (NewManager d0) path fs') = Inr (Count m)"
  by (rule save_then_load [OF assms])

theorem save_load_roundtrip_witness:
  "\<exists>fs'. Save \<lparr>hc_marshal = Inr, hc_unmarshal = Inr\<rparr> None
      (Append (NewManager []) 1 ''s'' [Some (zero_EMessage\<lparr>em_Content := ''x''\<rparr>)]) ''f'' Map.empty = (fs', Ok ())"
proof -
  let ?m = "Append (NewManager []) 1 ''s'' [Some (zero_EMessage\<lparr>em_Content := ''x''\<rparr>)]"
  have "mgr_inv ?m" by (intro mgr_inv_ops mgr_inv_New)
  moreover have "list_all (\<lambda>(_, ms). storable_msgs ms) (mg_sessions ?m)" "mg_sessions ?m \<noteq> []"
    by (simp_all add: Append_def NewManager_def messages_of_def storable_msgs_def storable_def zero_EMessage_def)
  moreover have "\<forall>d. \<exists>b. hc_marshal \<lparr>hc_marshal = Inr, hc_unmarshal = Inr\<rparr> d = Inr b
    \<and> hc_unmarshal \<lparr>hc_marshal = Inr, hc_unmarshal = Inr\<rparr> b = (Inr d :: gerror + dto)" by simp
  ultimately show ?thesis using save_load_roundtrip [of ?m "\<lparr>hc_marshal = Inr, hc_unmarshal = Inr\<rparr>" "''f''" Map.empty "[]"]
    by blast
qed

text \<open>Cleanup removes exactly the expired sessions: a session with a recorded last use older than
  maxAge disappears, every other session keeps all its messages, and the count returned is the number
  of expired entries.\<close>

theorem cleanup_exact:
  assumes "mgr_inv m" and "Cleanup m now maxAge = (m', n)"
  shows "messages_of m' sid = (case map_of (mg_lastAccess m) sid of
       Some t \<Rightarrow> if now - t > maxAge then [] else messages_of m sid
     | None \<Rightarrow> messages_of m sid)
   \<and> n = length (filter (\<lambda>(_, t). now - t > maxAge) (mg_lastAccess m)) \<and> mgr_inv m'"
proof -
  let ?old = "map fst (filter (\<lambda>(sid, t). now - t > maxAge) (mg_lastAccess m))"
  have m': "m' = m\<lparr>mg_sessions := filter (\<lambda>(sid, _). sid \<notin> set ?old) (mg_sessions m),
       mg_lastAccess := filter (\<lambda>(sid, _). sid \<notin> set ?old) (mg_lastAccess m)\<rparr>" "n = length ?old"
    using assms(2) by (auto simp: Cleanup_def Let_def)
  have old: "sid \<in> set ?old \<longleftrightarrow> (\<exists>t. map_of (mg_lastAccess m) sid = Some t \<and> now - t > maxAge)"
    using assms(1) by (auto simp: mgr_inv_def intro: rev_image_eqI dest: map_of_SomeD)
  have "messages_of m' sid = (if sid \<in> set ?old then [] else messages_of m sid)"
    unfolding m'(1) messages_of_def by (simp add: map_of_filter_key del: set_map set_filter)
  moreover have "mgr_inv m'" using mgr_inv_ops(3) [OF assms(1), of now maxAge] assms(2) by simp
  ultimately show ?thesis using m'(2) old by (auto split: option.splits)
qed

theorem cleanup_exact_witness:
  "messages_of (fst (Cleanup (Append (NewManager []) 0 ''s'' [None]) 100 50)) ''s'' = []"
proof -
  let ?m = "Append (NewManager []) 0 ''s'' [None]"
  have i: "mgr_inv ?m" by (intro mgr_inv_ops mgr_inv_New)
  obtain m' n where c: "Cleanup ?m 100 50 = (m', n)" by (rule prod.exhaust)
  from cleanup_exact [OF i c, of "''s''"] c show ?thesis by (simp add: Append_def NewManager_def)
qed

text \<open>A restored session has no last use until it is accessed, so cleanup never removes it.\<close>

theorem restored_sessions_never_expire:
  "fst (Cleanup (fst (Load hc (NewManager d) path fs)) now maxAge) = fst (Load hc (NewManager d) path fs)
   \<and> snd (Cleanup (fst (Load hc (NewManager d) path fs)) now maxAge) = 0"
  by (auto simp: Load_def Cleanup_def NewManager_def Let_def split: option.splits sum.splits)

text \<open>One nil message in any session makes saving the whole history panic.\<close>

theorem nil_message_panics_save:
  assumes "(sid, ms) \<in> set (mg_sessions m)" and "None \<in> set ms"
  shows "Save hc werr m path fs = (fs, Panic)"
proof -
  have "those ms = None" using assms(2) by (induction ms) (auto split: option.splits)
  then have "None \<in> set (map (\<lambda>(sid, ms). map_option (\<lambda>hs. (sid, map toHistoryMsg hs)) (those ms)) (mg_sessions m))"
    using assms(1) by force
  moreover have "None \<in> set xs \<Longrightarrow> those xs = None" for xs :: "(string \<times> historyMessage list) option list"
    by (induction xs) (auto split: option.splits)
  ultimately have "to_dto (mg_sessions m) = None" unfolding to_dto_def by blast
  moreover have "mg_sessions m \<noteq> []" using assms(1) by auto
  ultimately show ?thesis by (simp add: Save_def session_Marshal_def)
qed

subsection \<open>Sessions with a life time\<close>

text \<open>What one session promises, without the tables: the time of its last use and its messages. A tick of the
  cleanup forgets a session that was not used for longer than \<open>maxAge\<close>.\<close>

type_synonym timed_session = "int option \<times> EMessage option list"

fun view_step :: "int \<Rightarrow> string \<Rightarrow> timed_session \<times> bool \<Rightarrow> mgr_event \<Rightarrow> timed_session \<times> bool" where
  "view_step maxAge sid ((used, ms), running) (UseSession now s) = ((if s = sid then Some now else used, ms), running)"
| "view_step maxAge sid ((used, ms), running) (AddMessages now s new) =
     (if s = sid then (Some now, ms @ new) else (used, ms), running)"
| "view_step maxAge sid ((used, ms), running) (CleanupTick now) =
     (case used of
        Some t \<Rightarrow> if running \<and> now - t > maxAge then (None, []) else (used, ms)
      | None \<Rightarrow> (used, ms), running)"
| "view_step maxAge sid (v, running) CleanupStop = (v, False)"

definition session_view :: "Manager \<Rightarrow> string \<Rightarrow> timed_session" where
  "session_view m sid = (map_of (mg_lastAccess m) sid, messages_of m sid)"

lemma Cleanup_view:
  assumes "mgr_inv m"
  shows "session_view (fst (Cleanup m now maxAge)) sid = (case map_of (mg_lastAccess m) sid of
     Some t \<Rightarrow> if now - t > maxAge then (None, []) else session_view m sid | None \<Rightarrow> session_view m sid)"
proof -
  let ?old = "map fst (filter (\<lambda>(sid, t). now - t > maxAge) (mg_lastAccess m))"
  have old: "sid \<in> set ?old \<longleftrightarrow> (\<exists>t. map_of (mg_lastAccess m) sid = Some t \<and> now - t > maxAge)"
    using assms by (auto simp: mgr_inv_def intro: rev_image_eqI dest: map_of_SomeD)
  have "session_view (fst (Cleanup m now maxAge)) sid = (if sid \<in> set ?old then (None, []) else session_view m sid)"
    by (simp add: Cleanup_def Let_def session_view_def messages_of_def map_of_filter_key del: set_map set_filter)
  with old show ?thesis by (auto split: option.splits)
qed

lemma session_view_step:
  assumes "mgr_inv m"
  shows "case StartCleanup_step maxAge (m, running) e of (m1, r1) \<Rightarrow>
    mgr_inv m1 \<and> (session_view m1 sid, r1) = view_step maxAge sid (session_view m sid, running) e"
proof (cases e)
  case (UseSession now s)
  then show ?thesis using mgr_inv_ops(1) [OF assms, of now s "[]"]
    by (simp add: session_view_def messages_of_Snapshot) (simp add: SnapshotWith_def update_conv')
next
  case (AddMessages now s ms)
  then show ?thesis using mgr_inv_ops(2) [OF assms, of now s ms]
    by (simp add: session_view_def messages_of_Append) (simp add: Append_def update_conv')
next
  case (CleanupTick now)
  then show ?thesis using assms mgr_inv_ops(3) [OF assms, of now maxAge] Cleanup_view [OF assms, of now maxAge sid]
    by (auto simp: session_view_def split: option.splits)
qed (use assms in \<open>simp add: session_view_def\<close>)

lemma session_view_run:
  assumes "mgr_inv m"
  shows "case foldl (StartCleanup_step maxAge) (m, running) es of (m1, r1) \<Rightarrow>
    mgr_inv m1 \<and> (session_view m1 sid, r1) = foldl (view_step maxAge sid) (session_view m sid, running) es"
  using assms
proof (induction es arbitrary: m running)
  case (Cons e es)
  obtain m1 r1 where s: "StartCleanup_step maxAge (m, running) e = (m1, r1)" by fastforce
  from session_view_step [OF Cons.prems, where maxAge = maxAge and running = running and e = e and sid = sid] s
  have "mgr_inv m1" "(session_view m1 sid, r1) = view_step maxAge sid (session_view m sid, running) e" by auto
  with Cons.IH [of m1 r1] s show ?case by simp
qed simp

text \<open>C18: With the clean-up goroutine running beside the requests, the manager implements independent sessions
  with a life time: for any sequence of uses, appended messages, clean-up ticks and the end of the
  goroutine, what the tables hold of a session is what the session alone would hold, its messages in order
  since the last tick that found it unused for longer than the limit.\<close>

theorem manager_refines_timed_sessions:
  "case run_manager maxAge (NewManager d) es of (m, running) \<Rightarrow>
     (session_view m sid, running) = foldl (view_step maxAge sid) ((None, []), True) es"
proof -
  have "session_view (NewManager d) sid = (None, [])" by (simp add: session_view_def messages_of_def NewManager_def)
  with session_view_run [OF mgr_inv_New [of d], where maxAge = maxAge and running = True and es = es and sid = sid]
  show ?thesis unfolding run_manager_def by (auto split: prod.splits)
qed

end
