(* ===== verification/EventBus.thy ===== *)
theory EventBus
  imports Telemetry "HOL-Library.AList"
begin

section \<open>Event buses (internal/adk/event/bus.go, protocol/stream.go)\<close>

text \<open>
  The agent's bus calls its handlers synchronously and survives a panicking one. The protocol's bus is
  asynchronous: a bounded queue, a goroutine that copies each chunk to the subscribers' queues and one
  goroutine per subscriber; a full queue drops the chunk. The asynchronous bus is a step relation
  whose steps are the goroutines' actions.
\<close>

subsection \<open>Synchronous bus (internal/adk/event)\<close>

datatype EventType = AgentStart | AgentEnd | StepStart | StepEnd | ModelStart | ModelEnd | ToolStart | ToolEnd | EvError

datatype event_data =
    AgentStartData string "string list"
  | AgentEndData string string
  | ErrorData gerror
  | OtherData

record Event =
  ev_Type :: EventType
  ev_SessionID :: string
  ev_Data :: event_data

text \<open>A handler is a function value: its code pointer, and what it does to the world. The flag says
  whether it panicked; what it did before stays.\<close>

record 's handler =
  hd_ptr :: nat
  hd_fn :: "'s \<Rightarrow> Event \<Rightarrow> 's \<times> bool"

type_synonym 's bus = "EventType \<Rightarrow> 's handler list"

definition NewBus :: "'s bus" where "NewBus = (\<lambda>_. [])"

definition bus_Subscribe :: "'s bus \<Rightarrow> EventType \<Rightarrow> 's handler \<Rightarrow> 's bus" where
  "bus_Subscribe b t h = b(t := b t @ [h])"

fun remove_ptr :: "nat \<Rightarrow> 's handler list \<Rightarrow> 's handler list" where
  "remove_ptr p [] = []"
| "remove_ptr p (h # hs) = (if hd_ptr h = p then hs else h # remove_ptr p hs)"

definition bus_Unsubscribe :: "'s bus \<Rightarrow> EventType \<Rightarrow> 's handler \<Rightarrow> 's bus" where
  "bus_Unsubscribe b t h = b(t := remove_ptr (hd_ptr h) (b t))"

definition safeInvoke :: "'s handler \<Rightarrow> 's \<Rightarrow> Event \<Rightarrow> 's" where
  "safeInvoke h s evt = fst (hd_fn h s evt)"

fun invoke_all :: "'s handler list \<Rightarrow> 's \<Rightarrow> Event \<Rightarrow> 's" where
  "invoke_all [] s evt = s"
| "invoke_all (h # hs) s evt = invoke_all hs (safeInvoke h s evt) evt"

definition bus_Publish :: "'s bus \<Rightarrow> 's \<Rightarrow> Event \<Rightarrow> 's" where
  "bus_Publish b s evt = invoke_all (b (ev_Type evt)) s evt"

fun bus_PublishAll :: "'s bus \<Rightarrow> 's \<Rightarrow> Event list \<Rightarrow> 's" where
  "bus_PublishAll b s [] = s"
| "bus_PublishAll b s (e # es) = bus_PublishAll b (bus_Publish b s e) es"

subsection \<open>Asynchronous bus (protocol/stream.go)\<close>

record subscriber =
  sub_queue :: "Chunk list"
  sub_processed :: "Chunk list"
  sub_closed :: bool

text \<open>\<open>eb_accepted\<close> and \<open>sub_processed\<close> record, for the theorems, the chunks that were put into the
  bus and those a subscriber has processed.\<close>

record bus_state =
  eb_cap :: nat
  eb_queue :: "Chunk list"
  eb_subs :: "(string \<times> subscriber) list"
  eb_stopped :: bool
  eb_runDone :: bool
  eb_accepted :: "Chunk list"

definition sub_cap :: nat where "sub_cap = 256"

definition NewEventBus :: "nat \<Rightarrow> bus_state" where
  "NewEventBus bufferSize = \<lparr>eb_cap = bufferSize, eb_queue = [], eb_subs = [], eb_stopped = False,
     eb_runDone = False, eb_accepted = []\<rparr>"

definition eb_Subscribe :: "bus_state \<Rightarrow> string \<Rightarrow> bus_state" where
  "eb_Subscribe s name = (if map_of (eb_subs s) name \<noteq> None then s
     else s\<lparr>eb_subs := eb_subs s @ [(name, \<lparr>sub_queue = [], sub_processed = [], sub_closed = False\<rparr>)]\<rparr>)"

definition TryPublish :: "bus_state \<Rightarrow> Chunk \<Rightarrow> bus_state \<times> bool" where
  "TryPublish s c =
     (if eb_stopped s then (s, False)
      else if length (eb_queue s) < eb_cap s then
        (s\<lparr>eb_queue := eb_queue s @ [c], eb_accepted := eb_accepted s @ [c]\<rparr>, True)
      else (s, False))"

text \<open>\<open>Publish\<close>: an error only when the bus is stopped or the context is done and the queue full;
  a dropped chunk is reported as success.\<close>

definition Publish :: "bus_state \<Rightarrow> Chunk \<Rightarrow> gerror option \<Rightarrow> bus_state \<times> gerror option" where
  "Publish s c ctx =
     (if eb_stopped s then (s, Some (ErrMsg ''event bus stopped''))
      else if length (eb_queue s) < eb_cap s then (fst (TryPublish s c), None)
      else (s, ctx))"

definition offer :: "Chunk \<Rightarrow> subscriber \<Rightarrow> subscriber" where
  "offer c q = (if length (sub_queue q) < sub_cap then q\<lparr>sub_queue := sub_queue q @ [c]\<rparr> else q)"

text \<open>One round of the goroutine \<open>run\<close>.\<close>

definition eb_run :: "bus_state \<Rightarrow> bus_state" where
  "eb_run s = (case eb_queue s of
     c # q \<Rightarrow> s\<lparr>eb_queue := q, eb_subs := map (\<lambda>(n, x). (n, if sub_closed x then x else offer c x)) (eb_subs s)\<rparr>
   | [] \<Rightarrow> if eb_stopped s then s\<lparr>eb_runDone := True\<rparr> else s)"

text \<open>One round of a subscriber's goroutine \<open>dispatch\<close>.\<close>

definition process_one :: "subscriber \<Rightarrow> subscriber" where
  "process_one x = (case sub_queue x of c # q \<Rightarrow> x\<lparr>sub_queue := q, sub_processed := sub_processed x @ [c]\<rparr> | [] \<Rightarrow> x)"

definition eb_dispatch :: "bus_state \<Rightarrow> string \<Rightarrow> bus_state" where
  "eb_dispatch s name = s\<lparr>eb_subs := map (\<lambda>(n, x). (n, if n = name then process_one x else x)) (eb_subs s)\<rparr>"

text \<open>\<open>Stop\<close>: close the publisher, wait for \<open>run\<close>, then close the subscribers' queues; the
  subscribers drain what is left.\<close>

definition stop_publisher :: "bus_state \<Rightarrow> bus_state" where
  "stop_publisher s = s\<lparr>eb_stopped := True\<rparr>"

definition stop_subscribers :: "bus_state \<Rightarrow> bus_state" where
  "stop_subscribers s = s\<lparr>eb_subs := map (\<lambda>(n, x). (n, x\<lparr>sub_closed := True\<rparr>)) (eb_subs s)\<rparr>"

inductive eb_step :: "bus_state \<Rightarrow> bus_state \<Rightarrow> bool" where
  subscribe: "eb_step s (eb_Subscribe s name)"
| try_publish: "eb_step s (fst (TryPublish s c))"
| publish: "eb_step s (fst (Publish s c ctx))"
| run: "\<not> eb_runDone s \<Longrightarrow> eb_step s (eb_run s)"
| dispatch: "eb_step s (eb_dispatch s name)"
| stop1: "eb_step s (stop_publisher s)"
| stop2: "eb_runDone s \<Longrightarrow> eb_step s (stop_subscribers s)"

inductive eb_reach :: "bus_state \<Rightarrow> bool" where
  init: "eb_reach (NewEventBus n)"
| step: "eb_reach s \<Longrightarrow> eb_step s s' \<Longrightarrow> eb_reach s'"

inductive_cases eb_stepE: "eb_step s s'"

subsection \<open>Invariant\<close>

text \<open>\<open>tk\<close> are the chunks taken from the queue so far: a subscriber has processed or holds a subsequence
  of them.\<close>

definition sub_ok :: "Chunk list \<Rightarrow> subscriber \<Rightarrow> bool" where
  "sub_ok tk x \<longleftrightarrow> length (sub_queue x) \<le> sub_cap \<and> subseq (sub_processed x @ sub_queue x) tk"

definition eb_inv :: "bus_state \<Rightarrow> bool" where
  "eb_inv s \<longleftrightarrow> length (eb_queue s) \<le> eb_cap s
     \<and> (\<exists>tk. eb_accepted s = tk @ eb_queue s \<and> list_all (\<lambda>(_, x). sub_ok tk x) (eb_subs s))
     \<and> (eb_runDone s \<longrightarrow> eb_stopped s \<and> eb_queue s = [])"

lemma sub_ok_offer: "sub_ok tk x \<Longrightarrow> sub_ok (tk @ [c]) (offer c x)"
  by (auto simp: sub_ok_def offer_def subseq_append_iff intro: list_emb_append2 list_emb_append_mono
      simp flip: append_assoc)

lemma sub_ok_more: "sub_ok tk x \<Longrightarrow> sub_ok (tk @ [c]) x"
  by (auto simp: sub_ok_def intro: list_emb_append2 subseq_rev_drop_many)

lemma sub_ok_process: "sub_ok tk x \<Longrightarrow> sub_ok tk (process_one x)"
  by (auto simp: sub_ok_def process_one_def split: list.splits)

lemma eb_inv_TryPublish: "eb_inv s \<Longrightarrow> eb_inv (fst (TryPublish s c))"
  by (auto simp: eb_inv_def TryPublish_def)

lemma eb_inv_run: "eb_inv s \<Longrightarrow> eb_inv (eb_run s)"
proof (cases "eb_queue s")
  case Nil
  then show "eb_inv s \<Longrightarrow> eb_inv (eb_run s)" by (auto simp: eb_inv_def eb_run_def)
next
  case (Cons c q)
  assume "eb_inv s"
  with Cons obtain tk where t: "eb_accepted s = tk @ c # q" "list_all (\<lambda>(_, x). sub_ok tk x) (eb_subs s)"
    "length (eb_queue s) \<le> eb_cap s" "\<not> eb_runDone s" by (auto simp: eb_inv_def)
  have "list_all (\<lambda>(_, x). sub_ok (tk @ [c]) x) (map (\<lambda>(n, x). (n, if sub_closed x then x else offer c x)) (eb_subs s))"
    using t(2) by (auto simp: list_all_iff sub_ok_offer sub_ok_more)
  with t Cons show "eb_inv (eb_run s)"
    by (auto simp: eb_inv_def eb_run_def intro!: exI [of _ "tk @ [c]"])
qed

lemma eb_inv_step: "eb_step s s' \<Longrightarrow> eb_inv s \<Longrightarrow> eb_inv s'"
proof (erule eb_stepE)
  fix name assume "eb_inv s" "s' = eb_Subscribe s name"
  then show "eb_inv s'" by (auto simp: eb_inv_def eb_Subscribe_def sub_ok_def)
next
  fix c assume "eb_inv s" "s' = fst (TryPublish s c)"
  then show "eb_inv s'" by (simp add: eb_inv_TryPublish)
next
  fix c ctx assume "eb_inv s" "s' = fst (Publish s c ctx)"
  then show "eb_inv s'" by (auto simp: Publish_def eb_inv_TryPublish)
next
  assume "eb_inv s" "s' = eb_run s"
  then show "eb_inv s'" by (simp add: eb_inv_run)
next
  fix name assume "eb_inv s" "s' = eb_dispatch s name"
  then show "eb_inv s'" by (fastforce simp: eb_inv_def eb_dispatch_def list_all_iff sub_ok_process)
next
  assume "eb_inv s" "s' = stop_publisher s"
  then show "eb_inv s'" by (auto simp: eb_inv_def stop_publisher_def)
next
  assume "eb_inv s" "s' = stop_subscribers s"
  then show "eb_inv s'" by (fastforce simp: eb_inv_def stop_subscribers_def list_all_iff sub_ok_def)
qed

lemma eb_reach_inv: "eb_reach s \<Longrightarrow> eb_inv s"
proof (induction rule: eb_reach.induct)
  case (init n)
  show ?case by (simp add: eb_inv_def NewEventBus_def)
next
  case (step s s')
  then show ?case by (blast intro: eb_inv_step)
qed

lemma remove_ptr_last: "hd_ptr h \<notin> hd_ptr ` set hs \<Longrightarrow> remove_ptr (hd_ptr h) (hs @ [h]) = hs"
  by (induction hs) auto

lemma invoke_all_append: "invoke_all (hs @ ks) s evt = invoke_all ks (invoke_all hs s evt) evt"
  by (induction hs arbitrary: s) auto

subsection \<open>Properties\<close>

text \<open>C28: The chunk bus never reorders, duplicates or invents chunks and its memory is bounded: in every
  reachable state each subscriber has processed and queued a subsequence of the chunks accepted by the
  bus, the queues hold at most their capacity, and once the run goroutine has ended no accepted chunk is
  left in the main queue.\<close>

theorem event_bus_delivery:
  assumes "eb_reach s" and "(name, x) \<in> set (eb_subs s)"
  shows "subseq (sub_processed x @ sub_queue x) (eb_accepted s)
    \<and> length (sub_queue x) \<le> 256 \<and> length (eb_queue s) \<le> eb_cap s
    \<and> (eb_runDone s \<longrightarrow> eb_queue s = [])"
proof -
  from eb_reach_inv [OF assms(1)] obtain tk where
    t: "eb_accepted s = tk @ eb_queue s" "sub_ok tk x" "length (eb_queue s) \<le> eb_cap s" "eb_runDone s \<longrightarrow> eb_queue s = []"
    using assms(2) by (auto simp: eb_inv_def list_all_iff)
  then show ?thesis by (auto simp: sub_ok_def sub_cap_def)
qed

theorem event_bus_delivery_witness:
  "subseq (sub_processed (snd (eb_subs (eb_run (fst (TryPublish (eb_Subscribe (NewEventBus 1) ''log'') (zero_Chunk ChunkDone)))) ! 0)))
     (eb_accepted (eb_run (fst (TryPublish (eb_Subscribe (NewEventBus 1) ''log'') (zero_Chunk ChunkDone)))))"
proof -
  let ?s1 = "eb_Subscribe (NewEventBus 1) ''log''"
  let ?s2 = "fst (TryPublish ?s1 (zero_Chunk ChunkDone))"
  let ?s3 = "eb_run ?s2"
  have "eb_reach ?s1" by (rule eb_reach.step [OF eb_reach.init eb_step.subscribe])
  then have "eb_reach ?s2" by (rule eb_reach.step [OF _ eb_step.try_publish])
  moreover have "\<not> eb_runDone ?s2" by (simp add: TryPublish_def eb_Subscribe_def NewEventBus_def)
  ultimately have r: "eb_reach ?s3" by (rule eb_reach.step [OF _ eb_step.run])
  have m: "eb_subs ?s3 = [(''log'', \<lparr>sub_queue = [zero_Chunk ChunkDone], sub_processed = [], sub_closed = False\<rparr>)]"
    by (simp add: eb_run_def TryPublish_def eb_Subscribe_def NewEventBus_def offer_def sub_cap_def)
  then have "(''log'', snd (eb_subs ?s3 ! 0)) \<in> set (eb_subs ?s3)" by simp
  from event_bus_delivery [OF r this] have "subseq (sub_processed (snd (eb_subs ?s3 ! 0)) @ sub_queue (snd (eb_subs ?s3 ! 0))) (eb_accepted ?s3)"
    by blast
  then show ?thesis by (rule subseq_order.trans [rotated]) (auto intro: prefix_imp_subseq)
qed

text \<open>Publishing an agent event reaches every handler of its type exactly once, in subscription
  order, even after one panics: subscribing a handler adds one invocation after all earlier ones and
  changes nothing for other types, and unsubscribing it (its code pointer being new) restores the bus.\<close>

theorem bus_publish_order:
  assumes "hd_ptr h \<notin> hd_ptr ` set (b t)"
  shows "bus_Publish (bus_Subscribe b t h) s evt =
      (if ev_Type evt = t then safeInvoke h (bus_Publish b s evt) evt else bus_Publish b s evt)
    \<and> bus_Unsubscribe (bus_Subscribe b t h) t h = b"
  using assms
  by (auto simp: bus_Publish_def bus_Subscribe_def bus_Unsubscribe_def invoke_all_append remove_ptr_last)

theorem bus_publish_order_witness:
  "bus_Publish (bus_Subscribe NewBus AgentStart \<lparr>hd_ptr = 1, hd_fn = (\<lambda>n e. (Suc n, True))\<rparr>) 0
     \<lparr>ev_Type = AgentStart, ev_SessionID = [], ev_Data = OtherData\<rparr> = 1"
proof -
  have "hd_ptr \<lparr>hd_ptr = 1, hd_fn = (\<lambda>n e. (Suc n, True))\<rparr> \<notin> hd_ptr ` set (NewBus AgentStart)" by (simp add: NewBus_def)
  from conjunct1 [OF bus_publish_order [of "\<lparr>hd_ptr = 1, hd_fn = (\<lambda>n e. (Suc n, True))\<rparr>" NewBus AgentStart, OF this], of 0 "\<lparr>ev_Type = AgentStart, ev_SessionID = [], ev_Data = OtherData\<rparr>"]
  show ?thesis by (simp add: safeInvoke_def bus_Publish_def NewBus_def)
qed

end
