(* ===== verification/Tools.thy ===== *)
theory Tools
  imports Middleware "HOL-Library.AList"
begin

section \<open>Tool registry, guardrails and executor (internal/adk/tool)\<close>

text \<open>
  A tool wraps an invokable of the agent framework; it is a record of the functions the program
  calls on it. Running a tool acts on a world of type \<open>'w\<close> and returns a text, an error, or panics.
  Times are integers in nanoseconds; the registry reads the clock twice in \<open>Check\<close>.
\<close>

subsection \<open>Tools and the registry (tool.go, registry.go)\<close>

datatype run_result = RunOk string | RunErr gerror | RunPanic string

record 'w Tool =
  tl_info :: "(string \<times> string) option"
  tl_run :: "'w \<Rightarrow> string \<Rightarrow> 'w \<times> run_result"
  tl_checkFn :: "('w \<Rightarrow> bool) option"

definition ErrToolNotFound :: gerror where "ErrToolNotFound = ErrMsg ''tool not found''"

definition tool_Name :: "'w Tool \<Rightarrow> string" where
  "tool_Name t = (case tl_info t of Some (n, _) \<Rightarrow> n | None \<Rightarrow> [])"

definition tool_Description :: "'w Tool \<Rightarrow> string" where
  "tool_Description t = (case tl_info t of Some (_, d) \<Rightarrow> d | None \<Rightarrow> [])"

definition WithCheck :: "'w Tool \<Rightarrow> ('w \<Rightarrow> bool) \<Rightarrow> 'w Tool" where
  "WithCheck t fn = t\<lparr>tl_checkFn := Some fn\<rparr>"

definition tool_Check :: "'w Tool \<Rightarrow> 'w \<Rightarrow> bool" where
  "tool_Check t w = (case tl_checkFn t of None \<Rightarrow> True | Some f \<Rightarrow> f w)"

definition checkFnTTL :: int where "checkFnTTL = 30000000000"
definition checkFnFailureGrace :: int where "checkFnFailureGrace = 60000000000"

record 'w ToolRegistry =
  tr_tools :: "(string \<times> 'w Tool) list"
  tr_checkCache :: "string \<rightharpoonup> bool \<times> int"
  tr_lastSuccess :: "string \<rightharpoonup> int"

definition NewToolRegistry :: "'w ToolRegistry" where
  "NewToolRegistry = \<lparr>tr_tools = [], tr_checkCache = Map.empty, tr_lastSuccess = Map.empty\<rparr>"

definition tr_Register :: "'w ToolRegistry \<Rightarrow> string \<Rightarrow> 'w Tool \<Rightarrow> 'w ToolRegistry" where
  "tr_Register r name t = r\<lparr>tr_tools := AList.update name t (tr_tools r)\<rparr>"

definition tr_Unregister :: "'w ToolRegistry \<Rightarrow> string \<Rightarrow> 'w ToolRegistry" where
  "tr_Unregister r name = r\<lparr>tr_tools := AList.delete name (tr_tools r),
     tr_checkCache := (tr_checkCache r)(name := None), tr_lastSuccess := (tr_lastSuccess r)(name := None)\<rparr>"

definition tr_Get :: "'w ToolRegistry \<Rightarrow> string \<Rightarrow> 'w Tool option" where
  "tr_Get r name = map_of (tr_tools r) name"

definition tr_Names :: "'w ToolRegistry \<Rightarrow> string list" where
  "tr_Names r = map fst (tr_tools r)"

definition GetDefinitions :: "'w ToolRegistry \<Rightarrow> (string \<times> string) list" where
  "GetDefinitions r = List.map_filter (\<lambda>(_, t). tl_info t) (tr_tools r)"

definition Dispatch :: "'w ToolRegistry \<Rightarrow> 'w \<Rightarrow> string \<Rightarrow> string \<Rightarrow> 'w \<times> run_result" where
  "Dispatch r w name args = (case tr_Get r name of
     None \<Rightarrow> (w, RunErr ErrToolNotFound)
   | Some t \<Rightarrow> tl_run t w args)"

text \<open>\<open>Check\<close> after a miss of the cache.\<close>

definition check_tool :: "'w ToolRegistry \<Rightarrow> 'w \<Rightarrow> string \<Rightarrow> int \<Rightarrow> 'w ToolRegistry \<times> bool" where
  "check_tool r w name now = (case tr_Get r name of
     None \<Rightarrow> (r, False)
   | Some t \<Rightarrow>
       if tool_Check t w then
         (r\<lparr>tr_checkCache := (tr_checkCache r)(name \<mapsto> (True, now + checkFnTTL)),
            tr_lastSuccess := (tr_lastSuccess r)(name \<mapsto> now)\<rparr>, True)
       else if (case tr_lastSuccess r name of Some ls \<Rightarrow> now - ls < checkFnFailureGrace | None \<Rightarrow> False) then (r, True)
       else (r\<lparr>tr_checkCache := (tr_checkCache r)(name \<mapsto> (False, now + checkFnTTL))\<rparr>, False))"

definition registry_Check :: "'w ToolRegistry \<Rightarrow> 'w \<Rightarrow> string \<Rightarrow> int \<Rightarrow> int \<Rightarrow> 'w ToolRegistry \<times> bool" where
  "registry_Check r w name now1 now2 = (case tr_checkCache r name of
     Some (available, expiresAt) \<Rightarrow> if now1 < expiresAt then (r, available) else check_tool r w name now2
   | None \<Rightarrow> check_tool r w name now2)"

definition InvalidateCache :: "'w ToolRegistry \<Rightarrow> string \<Rightarrow> 'w ToolRegistry" where
  "InvalidateCache r name = r\<lparr>tr_checkCache := (tr_checkCache r)(name := None)\<rparr>"

definition ClearCache :: "'w ToolRegistry \<Rightarrow> 'w ToolRegistry" where
  "ClearCache r = r\<lparr>tr_checkCache := Map.empty, tr_lastSuccess := Map.empty\<rparr>"

definition RegisterCheckFn :: "'w ToolRegistry \<Rightarrow> string \<Rightarrow> ('w \<Rightarrow> bool) \<Rightarrow> 'w ToolRegistry" where
  "RegisterCheckFn r name fn = (case tr_Get r name of
     None \<Rightarrow> r
   | Some t \<Rightarrow> r\<lparr>tr_tools := AList.update name (WithCheck t fn) (tr_tools r)\<rparr>)"

subsection \<open>Guardrails (guardrails.go)\<close>

record GuardrailResult =
  gr_Allowed :: bool
  gr_Reason :: string

record Guardrails =
  g_allowList :: "string set"
  g_denyList :: "string set"
  g_rules :: "(string \<Rightarrow> string \<Rightarrow> GuardrailResult) list"

definition NewGuardrails :: Guardrails where
  "NewGuardrails = \<lparr>g_allowList = {}, g_denyList = {}, g_rules = []\<rparr>"

definition g_Allow :: "Guardrails \<Rightarrow> string \<Rightarrow> Guardrails" where
  "g_Allow g name = g\<lparr>g_allowList := insert name (g_allowList g), g_denyList := g_denyList g - {name}\<rparr>"

definition g_Deny :: "Guardrails \<Rightarrow> string \<Rightarrow> Guardrails" where
  "g_Deny g name = g\<lparr>g_denyList := insert name (g_denyList g), g_allowList := g_allowList g - {name}\<rparr>"

definition g_AllowAll :: "Guardrails \<Rightarrow> string list \<Rightarrow> Guardrails" where
  "g_AllowAll g names = foldl g_Allow g names"

definition g_DenyAll :: "Guardrails \<Rightarrow> string list \<Rightarrow> Guardrails" where
  "g_DenyAll g names = foldl g_Deny g names"

definition g_AddRule :: "Guardrails \<Rightarrow> (string \<Rightarrow> string \<Rightarrow> GuardrailResult) \<Rightarrow> Guardrails" where
  "g_AddRule g rule = g\<lparr>g_rules := g_rules g @ [rule]\<rparr>"

definition g_Clear :: "Guardrails \<Rightarrow> Guardrails" where
  "g_Clear g = NewGuardrails"

definition denied :: "string \<Rightarrow> GuardrailResult" where
  "denied reason = \<lparr>gr_Allowed = False, gr_Reason = reason\<rparr>"

fun run_rules :: "(string \<Rightarrow> string \<Rightarrow> GuardrailResult) list \<Rightarrow> string \<Rightarrow> string \<Rightarrow> GuardrailResult option" where
  "run_rules [] name args = None"
| "run_rules (r # rs) name args = (if \<not> gr_Allowed (r name args) then Some (r name args) else run_rules rs name args)"

text \<open>The registry is optional; its cache may change.\<close>

definition guard_Check ::
  "Guardrails \<Rightarrow> 'w ToolRegistry option \<Rightarrow> 'w \<Rightarrow> string \<Rightarrow> string \<Rightarrow> int \<Rightarrow> int \<Rightarrow> 'w ToolRegistry option \<times> GuardrailResult" where
  "guard_Check g reg w toolName args now1 now2 =
     (if toolName \<in> g_denyList g then (reg, denied ''tool is denied'')
      else if g_allowList g \<noteq> {} \<and> toolName \<notin> g_allowList g then (reg, denied ''tool not in allow list'')
      else case run_rules (g_rules g) toolName args of
          Some res \<Rightarrow> (reg, res)
        | None \<Rightarrow>
            (case reg of
               None \<Rightarrow> (reg, \<lparr>gr_Allowed = True, gr_Reason = []\<rparr>)
             | Some r \<Rightarrow>
                 if tr_Get r toolName = None then (reg, \<lparr>gr_Allowed = True, gr_Reason = []\<rparr>)
                 else case registry_Check r w toolName now1 now2 of (r1, ok) \<Rightarrow>
                   (Some r1, if ok then \<lparr>gr_Allowed = True, gr_Reason = []\<rparr> else denied ''tool is unavailable'')))"

subsection \<open>Executor (executor.go)\<close>

record ex_ToolCall =
  xc_Name :: string
  xc_Arguments :: string
  xc_ToolID :: string

record ex_ToolResult =
  xr_Name :: string
  xr_Result :: string
  xr_Err :: "gerror option"
  xr_ToolID :: string
  xr_Failed :: bool

definition failed_result :: "ex_ToolCall \<Rightarrow> gerror \<Rightarrow> ex_ToolResult" where
  "failed_result c e = \<lparr>xr_Name = xc_Name c, xr_Result = [], xr_Err = Some e, xr_ToolID = xc_ToolID c, xr_Failed = True\<rparr>"

definition safeRunOne :: "'w ToolRegistry \<Rightarrow> 'w \<Rightarrow> ex_ToolCall \<Rightarrow> 'w \<times> ex_ToolResult" where
  "safeRunOne reg w c = (case tr_Get reg (xc_Name c) of
     None \<Rightarrow> (w, failed_result c ErrToolNotFound)
   | Some t \<Rightarrow> (case tl_run t w (xc_Arguments c) of (w1, r) \<Rightarrow>
       (w1, case r of
          RunOk s \<Rightarrow> \<lparr>xr_Name = xc_Name c, xr_Result = s, xr_Err = None, xr_ToolID = xc_ToolID c, xr_Failed = False\<rparr>
        | RunErr e \<Rightarrow> failed_result c e
        | RunPanic p \<Rightarrow> failed_result c (ErrMsg (''tool panic: '' @ p)))))"

text \<open>\<open>ctx w\<close> says whether the context is done when the loop looks at it.\<close>

fun executeSequential :: "('w \<Rightarrow> gerror option) \<Rightarrow> 'w ToolRegistry \<Rightarrow> 'w \<Rightarrow> ex_ToolCall list \<Rightarrow> 'w \<times> ex_ToolResult list" where
  "executeSequential ctx reg w [] = (w, [])"
| "executeSequential ctx reg w (c # cs) = (case ctx w of
     Some e \<Rightarrow> (w, [failed_result c e])
   | None \<Rightarrow> (case safeRunOne reg w c of (w1, res) \<Rightarrow>
       if xr_Failed res then (w1, [res])
       else case executeSequential ctx reg w1 cs of (w2, rs) \<Rightarrow> (w2, res # rs)))"

definition zero_ToolResult :: ex_ToolResult where
  "zero_ToolResult = \<lparr>xr_Name = [], xr_Result = [], xr_Err = None, xr_ToolID = [], xr_Failed = False\<rparr>"

text \<open>The concurrent executor writes the result of call \<open>i\<close> to slot \<open>i\<close>. A schedule is the order in
  which the tool bodies take effect.\<close>

fun run_schedule :: "'w ToolRegistry \<Rightarrow> ex_ToolCall list \<Rightarrow> 'w \<Rightarrow> ex_ToolResult list \<Rightarrow> nat list \<Rightarrow> 'w \<times> ex_ToolResult list" where
  "run_schedule reg calls w results [] = (w, results)"
| "run_schedule reg calls w results (i # is) = (case safeRunOne reg w (calls ! i) of (w1, res) \<Rightarrow>
     run_schedule reg calls w1 (results[i := res]) is)"

definition executeConcurrent :: "'w ToolRegistry \<Rightarrow> nat list \<Rightarrow> 'w \<Rightarrow> ex_ToolCall list \<Rightarrow> 'w \<times> ex_ToolResult list" where
  "executeConcurrent reg schedule w calls =
     run_schedule reg calls w (replicate (length calls) zero_ToolResult) schedule"

definition Execute ::
  "bool \<Rightarrow> ('w \<Rightarrow> gerror option) \<Rightarrow> 'w ToolRegistry \<Rightarrow> nat list \<Rightarrow> 'w \<Rightarrow> ex_ToolCall list \<Rightarrow> 'w \<times> ex_ToolResult list" where
  "Execute concurrent ctx reg schedule w calls =
     (if concurrent \<and> length calls > 1 then executeConcurrent reg schedule w calls
      else executeSequential ctx reg w calls)"

subsection \<open>Wrapped tools (internal/adk/react.go)\<close>

text \<open>\<open>middlewareWrappedTool.InvokableRun\<close> for an invokable inner tool: guardrails first, then the
  middleware chain around the tool. The state is the registry (whose cache the guard may change) and
  the world. A panic unwinds the whole call without running after-callbacks, just as an error
  returned by the inner call does; it is the error value \<open>panic_error\<close>, a form reserved for that.\<close>

definition panic_error :: "string \<Rightarrow> gerror" where
  "panic_error p = ErrWrap ''panic'' (ErrMsg p)"

fun is_panic :: "gerror \<Rightarrow> bool" where
  "is_panic (ErrWrap s (ErrMsg p)) = (s = ''panic'')"
| "is_panic e = False"

record 'w wrapped_tool =
  wt_name :: string
  wt_inner :: "'w Tool"
  wt_chain :: "'w MiddlewareFuncs list option"
  wt_guards :: "Guardrails option"

definition blocked_error :: "string \<Rightarrow> string \<Rightarrow> gerror" where
  "blocked_error name reason = ErrMsg (''tool '' @ name @ '' blocked by guardrails: '' @ reason)"

definition next_tool :: "'w Tool \<Rightarrow> 'w \<Rightarrow> mw_ToolCall option \<Rightarrow> 'w \<times> mw_ToolResult option \<times> gerror option" where
  "next_tool t w call = (case call of
     None \<Rightarrow> (w, None, Some (panic_error ''nil pointer dereference''))
   | Some c \<Rightarrow> (case tl_run t w (mc_Arguments c) of (w1, r) \<Rightarrow>
       (case r of
          RunOk s \<Rightarrow> (w1, Some \<lparr>mt_Name = mc_Name c, mt_Result = s, mt_Error = None, mt_ToolID = []\<rparr>, None)
        | RunErr e \<Rightarrow> (w1, Some \<lparr>mt_Name = mc_Name c, mt_Result = [], mt_Error = Some e, mt_ToolID = []\<rparr>, None)
        | RunPanic p \<Rightarrow> (w1, None, Some (panic_error p)))))"

definition wrapped_run ::
  "'w wrapped_tool \<Rightarrow> 'w ToolRegistry option \<Rightarrow> 'w \<Rightarrow> string \<Rightarrow> int \<Rightarrow> int \<Rightarrow> 'w ToolRegistry option \<times> 'w \<times> (gerror + string)" where
  "wrapped_run wt reg w args now1 now2 =
     (case (case wt_guards wt of
              Some g \<Rightarrow> guard_Check g reg w (wt_name wt) args now1 now2
            | None \<Rightarrow> (reg, \<lparr>gr_Allowed = True, gr_Reason = []\<rparr>)) of (reg1, res) \<Rightarrow>
      if \<not> gr_Allowed res then (reg1, w, Inl (blocked_error (wt_name wt) (gr_Reason res)))
      else case wt_chain wt of
          None \<Rightarrow> (case tl_run (wt_inner wt) w args of (w1, r) \<Rightarrow>
            (reg1, w1, case r of RunOk s \<Rightarrow> Inr s | RunErr e \<Rightarrow> Inl e | RunPanic p \<Rightarrow> Inl (panic_error p)))
        | Some mws \<Rightarrow>
            (case AroundTool mws w (Some \<lparr>mc_Name = wt_name wt, mc_Arguments = args, mc_ToolID = []\<rparr>) (next_tool (wt_inner wt)) of
               (w1, r) \<Rightarrow>
                 (reg1, w1, case r of
                    Inl e \<Rightarrow> Inl e
                  | Inr None \<Rightarrow> Inl (panic_error ''nil pointer dereference'')
                  | Inr (Some tr) \<Rightarrow> (case mt_Error tr of Some e \<Rightarrow> Inl e | None \<Rightarrow> Inr (mt_Result tr)))))"

definition einoToolsWrapped ::
  "'w ToolRegistry \<Rightarrow> string list \<Rightarrow> 'w MiddlewareFuncs list option \<Rightarrow> Guardrails option \<Rightarrow> 'w wrapped_tool list" where
  "einoToolsWrapped reg names chain guards = List.map_filter
     (\<lambda>name. map_option (\<lambda>t. \<lparr>wt_name = name, wt_inner = t, wt_chain = chain, wt_guards = guards\<rparr>) (tr_Get reg name)) names"

definition einoTools :: "'w ToolRegistry \<Rightarrow> string list \<Rightarrow> 'w Tool list" where
  "einoTools reg names = List.map_filter (tr_Get reg) names"

subsection \<open>The registry as a state machine\<close>

inductive registry_step :: "'w ToolRegistry \<Rightarrow> 'w ToolRegistry \<Rightarrow> bool" where
  register: "registry_step r (tr_Register r name t)"
| unregister: "registry_step r (tr_Unregister r name)"
| check: "now1 \<le> now2 \<Longrightarrow> registry_step r (fst (registry_Check r w name now1 now2))"
| invalidate: "registry_step r (InvalidateCache r name)"
| clear: "registry_step r (ClearCache r)"
| set_check: "registry_step r (RegisterCheckFn r name fn)"

inductive registry_reach :: "'w ToolRegistry \<Rightarrow> bool" where
  new: "registry_reach NewToolRegistry"
| step: "registry_reach r \<Longrightarrow> registry_step r r' \<Longrightarrow> registry_reach r'"

inductive_cases registry_stepE: "registry_step r r'"

definition registry_inv :: "'w ToolRegistry \<Rightarrow> bool" where
  "registry_inv r \<longleftrightarrow> distinct (map fst (tr_tools r))
     \<and> (\<forall>name expiry. tr_checkCache r name = Some (True, expiry) \<longrightarrow> tr_lastSuccess r name = Some (expiry - checkFnTTL))"

lemma check_tool_inv: "registry_inv r \<Longrightarrow> registry_inv (fst (check_tool r w name now))"
  by (auto simp: check_tool_def registry_inv_def split: option.splits)

lemma registry_Check_inv: "registry_inv r \<Longrightarrow> registry_inv (fst (registry_Check r w name now1 now2))"
  by (auto simp: registry_Check_def check_tool_inv split: option.splits)

lemma registry_step_inv: "registry_step r r' \<Longrightarrow> registry_inv r \<Longrightarrow> registry_inv r'"
proof (erule registry_stepE)
  fix name t assume "registry_inv r" "r' = tr_Register r name t"
  then show "registry_inv r'" by (simp add: registry_inv_def tr_Register_def distinct_update)
next
  fix name assume "registry_inv r" "r' = tr_Unregister r name"
  then show "registry_inv r'" by (auto simp: registry_inv_def tr_Unregister_def distinct_delete)
next
  fix now1 now2 :: int and w name
  assume "registry_inv r" "r' = fst (registry_Check r w name now1 now2)"
  then show "registry_inv r'" by (simp add: registry_Check_inv)
next
  fix name assume "registry_inv r" "r' = InvalidateCache r name"
  then show "registry_inv r'" by (auto simp: registry_inv_def InvalidateCache_def)
next
  assume "registry_inv r" "r' = ClearCache r"
  then show "registry_inv r'" by (auto simp: registry_inv_def ClearCache_def)
next
  fix name fn assume "registry_inv r" "r' = RegisterCheckFn r name fn"
  then show "registry_inv r'" by (auto simp: registry_inv_def RegisterCheckFn_def distinct_update split: option.splits)
qed

lemma registry_reach_inv: "registry_reach r \<Longrightarrow> registry_inv r"
proof (induction rule: registry_reach.induct)
  case new
  show ?case by (simp add: registry_inv_def NewToolRegistry_def)
next
  case (step r r')
  then show ?case by (blast intro: registry_step_inv)
qed

lemma check_tool_true:
  "check_tool r w name now = (r', True) \<Longrightarrow> \<exists>t. tr_lastSuccess r' name = Some t \<and> now - t < checkFnFailureGrace"
  by (auto simp: check_tool_def checkFnFailureGrace_def split: option.splits if_splits)

subsection \<open>Lemmas: executor\<close>

lemma safeRunOne_id [simp]:
  "xr_Name (snd (safeRunOne reg w c)) = xc_Name c" "xr_ToolID (snd (safeRunOne reg w c)) = xc_ToolID c"
  by (auto simp: safeRunOne_def failed_result_def split: option.splits prod.splits run_result.splits)

lemma run_schedule_slots:
  assumes "run_schedule reg calls w results is = (w', rs)" and "\<forall>i \<in> set is. i < length calls" and "length results = length calls"
  shows "length rs = length calls
    \<and> (\<forall>i < length calls. (if i \<in> set is then \<exists>v. rs ! i = snd (safeRunOne reg v (calls ! i)) else rs ! i = results ! i))"
  using assms
proof (induction "is" arbitrary: w results)
  case (Cons i "is")
  obtain w1 res where s: "safeRunOne reg w (calls ! i) = (w1, res)" by fastforce
  with Cons.prems have r: "run_schedule reg calls w1 (results[i := res]) is = (w', rs)" by simp
  from Cons.IH [OF r] Cons.prems have IH: "length rs = length calls"
    "\<forall>j < length calls. (if j \<in> set is then \<exists>v. rs ! j = snd (safeRunOne reg v (calls ! j)) else rs ! j = results[i := res] ! j)"
    by auto
  have res: "res = snd (safeRunOne reg w (calls ! i))" using s by simp
  have "if j \<in> set (i # is) then \<exists>v. rs ! j = snd (safeRunOne reg v (calls ! j)) else rs ! j = results ! j"
    if j: "j < length calls" for j
  proof (cases "j \<in> set is")
    case True
    with IH(2) j show ?thesis by auto
  next
    case False
    with IH(2) j have "rs ! j = results[i := res] ! j" by auto
    with False res j Cons.prems(3) show ?thesis by (cases "j = i") auto
  qed
  with IH(1) show ?case by blast
qed auto

text \<open>Tools whose answer does not depend on the world.\<close>

definition pure_tools :: "'w ToolRegistry \<Rightarrow> bool" where
  "pure_tools reg \<longleftrightarrow> (\<forall>t \<in> snd ` set (tr_tools reg). \<forall>w w' args. snd (tl_run t w args) = snd (tl_run t w' args))"

lemma pure_run:
  assumes "pure_tools reg"
  shows "snd (safeRunOne reg w c) = snd (safeRunOne reg w' c)"
proof (cases "tr_Get reg (xc_Name c)")
  case None
  then show ?thesis by (simp add: safeRunOne_def)
next
  case (Some t)
  then have "(xc_Name c, t) \<in> set (tr_tools reg)" by (auto simp: tr_Get_def dest: map_of_SomeD)
  then have "t \<in> snd ` set (tr_tools reg)" by force
  with assms have "snd (tl_run t w (xc_Arguments c)) = snd (tl_run t w' (xc_Arguments c))" by (auto simp: pure_tools_def)
  with Some show ?thesis by (auto simp: safeRunOne_def split: prod.splits)
qed

lemma sequential_shape:
  "executeSequential ctx reg w cs = (w', rs) \<Longrightarrow>
   length rs \<le> length cs \<and> map xr_Name rs = map xc_Name (take (length rs) cs)
   \<and> map xr_ToolID rs = map xc_ToolID (take (length rs) cs)
   \<and> (\<forall>r \<in> set (butlast rs). \<not> xr_Failed r) \<and> (length rs < length cs \<longrightarrow> rs \<noteq> [] \<and> xr_Failed (last rs))"
proof (induction cs arbitrary: w w' rs)
  case (Cons c cs)
  show ?case
  proof (cases "ctx w")
    case (Some e)
    with Cons.prems show ?thesis by (auto simp: failed_result_def)
  next
    case None
    obtain w1 res where s: "safeRunOne reg w c = (w1, res)" by fastforce
    have id: "xr_Name res = xc_Name c" "xr_ToolID res = xc_ToolID c" using safeRunOne_id [of reg w c] s by auto
    show ?thesis
    proof (cases "xr_Failed res")
      case True
      with None s Cons.prems id show ?thesis by auto
    next
      case False
      obtain w2 rs2 where l: "executeSequential ctx reg w1 cs = (w2, rs2)" by fastforce
      with None s False Cons.prems have "rs = res # rs2" by auto
      with Cons.IH [OF l] id False show ?thesis by auto
    qed
  qed
qed auto

subsection \<open>Properties\<close>



text \<open>Guardrails decide as configured: a tool call is allowed exactly if the tool is not denied,
  is on the allow list when there is one, passes every rule, and, when it is registered, is
  available. Denying a tool makes every check of it fail whatever else is configured.\<close>

theorem guard_decision:
  "gr_Allowed (snd (guard_Check g reg w name args now1 now2)) =
     (name \<notin> g_denyList g \<and> (g_allowList g = {} \<or> name \<in> g_allowList g)
      \<and> list_all (\<lambda>r. gr_Allowed (r name args)) (g_rules g)
      \<and> (case reg of None \<Rightarrow> True
         | Some r \<Rightarrow> tr_Get r name = None \<or> snd (registry_Check r w name now1 now2)))
   \<and> \<not> gr_Allowed (snd (guard_Check (g_Deny g name) reg w name args now1 now2))"
proof -
  have rules: "run_rules rs name args = None \<longleftrightarrow> list_all (\<lambda>r. gr_Allowed (r name args)) rs"
    "run_rules rs name args = Some res \<Longrightarrow> \<not> gr_Allowed res" for rs res
    by (induction rs) (auto split: if_splits)
  show ?thesis
    using rules(1) [of "g_rules g"]
    by (auto simp: guard_Check_def denied_def g_Deny_def dest: rules(2) split: option.splits prod.splits)
qed

text \<open>Concurrent execution answers every call in its place: whatever order the tools run in, the
  result list has one entry per call, at the call's position and with its name and ID; and if the
  tools' answers do not depend on each other's effects, the results are those of running each call
  alone.\<close>

theorem concurrent_results_in_place:
  assumes "mset schedule = mset [0..<length calls]" and "executeConcurrent reg schedule w calls = (w', rs)"
  shows "map xr_Name rs = map xc_Name calls \<and> map xr_ToolID rs = map xc_ToolID calls
    \<and> (pure_tools reg \<longrightarrow> rs = map (\<lambda>c. snd (safeRunOne reg w c)) calls)"
proof -
  have s: "set schedule = {0..<length calls}" using mset_eq_setD [OF assms(1)] by simp
  have "\<forall>i \<in> set schedule. i < length calls" "length (replicate (length calls) zero_ToolResult) = length calls" using s by auto
  note slots = run_schedule_slots [OF assms(2) [unfolded executeConcurrent_def] this]
  have l: "length rs = length calls" using slots by (rule conjunct1)
  have l2: "\<exists>v. rs ! i = snd (safeRunOne reg v (calls ! i))" if "i < length calls" for i
    using conjunct2 [OF slots, rule_format, OF that] s that by simp
  have "xr_Name (rs ! i) = xc_Name (calls ! i) \<and> xr_ToolID (rs ! i) = xc_ToolID (calls ! i)"
    if "i < length calls" for i
    using l2 [OF that] by auto
  then have "map xr_Name rs = map xc_Name calls \<and> map xr_ToolID rs = map xc_ToolID calls"
    using l by (simp add: list_eq_iff_nth_eq)
  moreover have "rs = map (\<lambda>c. snd (safeRunOne reg w c)) calls" if "pure_tools reg"
  proof (rule nth_equalityI)
    fix i assume "i < length rs"
    then obtain v where "rs ! i = snd (safeRunOne reg v (calls ! i))" using l l2 by auto
    with pure_run [OF that, of v "calls ! i" w] \<open>i < length rs\<close> l
    show "rs ! i = map (\<lambda>c. snd (safeRunOne reg w c)) calls ! i" by simp
  qed (simp add: l)
  ultimately show ?thesis by blast
qed

definition echo_registry :: "unit ToolRegistry" where
  "echo_registry = tr_Register NewToolRegistry ''echo'' \<lparr>tl_info = None, tl_run = (\<lambda>w a. (w, RunOk a)), tl_checkFn = None\<rparr>"

theorem concurrent_results_in_place_witness:
  "map xr_ToolID (snd (executeConcurrent echo_registry [1, 0] ()
     [\<lparr>xc_Name = ''echo'', xc_Arguments = [], xc_ToolID = ''a''\<rparr>, \<lparr>xc_Name = ''echo'', xc_Arguments = [], xc_ToolID = ''b''\<rparr>]))
   = [''a'', ''b'']"
proof -
  let ?cs = "[\<lparr>xc_Name = ''echo'', xc_Arguments = [], xc_ToolID = ''a''\<rparr>, \<lparr>xc_Name = ''echo'', xc_Arguments = [], xc_ToolID = ''b''\<rparr>]"
  obtain u rs where e: "executeConcurrent echo_registry [1, 0] () ?cs = (u, rs)" by (rule prod.exhaust)
  have "mset [1, 0] = mset [0..<length ?cs]" by (simp add: add_mset_commute)
  from concurrent_results_in_place [OF this e] e show ?thesis by simp
qed

text \<open>Sequential execution stops at the first failure: the results belong to a prefix of the
  calls, in order, all but the last of them succeeded, and calls are left out only after a failed
  one.\<close>

theorem sequential_stops_at_failure:
  assumes "executeSequential ctx reg w calls = (w', rs)"
  shows "map xr_ToolID rs = map xc_ToolID (take (length rs) calls)
    \<and> list_all (\<lambda>r. \<not> xr_Failed r) (butlast rs)
    \<and> (length rs < length calls \<longrightarrow> xr_Failed (last rs))"
  using sequential_shape [OF assms] by (auto simp: list_all_iff)

theorem sequential_stops_at_failure_witness:
  "map xr_ToolID (snd (executeSequential (\<lambda>_. None) echo_registry ()
     [\<lparr>xc_Name = ''gone'', xc_Arguments = [], xc_ToolID = ''a''\<rparr>, \<lparr>xc_Name = ''echo'', xc_Arguments = [], xc_ToolID = ''b''\<rparr>]))
   = [''a'']"
proof -
  let ?cs = "[\<lparr>xc_Name = ''gone'', xc_Arguments = [], xc_ToolID = ''a''\<rparr>, \<lparr>xc_Name = ''echo'', xc_Arguments = [], xc_ToolID = ''b''\<rparr>]"
  obtain u rs where e: "executeSequential (\<lambda>_. None) echo_registry () ?cs = (u, rs)" by (rule prod.exhaust)
  have "length (snd (executeSequential (\<lambda>_. None) echo_registry () ?cs)) = 1" by code_simp
  with sequential_stops_at_failure [OF e] e show ?thesis by simp
qed

text \<open>A blocked tool does not run: when the guardrails reject a call, the wrapped tool returns the
  rejection and neither a middleware nor the tool itself acts; with no middleware registered the
  wrapper gives the tool's own answer.\<close>

theorem wrapped_tool_guarded:
  "(\<forall>g. wt_guards wt = Some g \<longrightarrow> \<not> gr_Allowed (snd (guard_Check g reg w (wt_name wt) args now1 now2)) \<longrightarrow>
      (\<exists>reg1 reason. wrapped_run wt reg w args now1 now2 = (reg1, w, Inl (blocked_error (wt_name wt) reason))))
   \<and> wrapped_run (wt\<lparr>wt_chain := Some []\<rparr>) reg w args now1 now2 = wrapped_run (wt\<lparr>wt_chain := None\<rparr>) reg w args now1 now2"
proof -
  have "around BeforeTool AfterTool [] w (Some c) (next_tool t) =
     (case tl_run t w (mc_Arguments c) of (w1, r) \<Rightarrow>
       (w1, case r of RunOk s \<Rightarrow> Inr (Some \<lparr>mt_Name = mc_Name c, mt_Result = s, mt_Error = None, mt_ToolID = []\<rparr>)
            | RunErr e \<Rightarrow> Inr (Some \<lparr>mt_Name = mc_Name c, mt_Result = [], mt_Error = Some e, mt_ToolID = []\<rparr>)
            | RunPanic p \<Rightarrow> Inl (panic_error p)))" for c t
    by (auto simp: around_def next_tool_def split: prod.splits run_result.splits)
  then show ?thesis
    by (auto simp: wrapped_run_def AroundTool_def split: prod.splits run_result.splits option.splits)
qed

end
