(* ===== verification/Runner.thy ===== *)
theory Runner
  imports Session Tools EventBus
begin

section \<open>The agent runner (internal/adk/runner.go)\<close>

text \<open>
  The runner checks a request against the guardrails, prepends the session's history, calls the agent
  inside the middleware chain, records the turn and publishes events. The agent (which drives the
  third-party ReAct loop) is an argument; it and the middlewares act on a world of type \<open>'w\<close>. The
  store is given by its two operations; with \<open>None\<close> the runner has no store, no guardrails or no
  middleware. Published events are collected in a list.
\<close>

record adk_Request =
  aq_Messages :: "Message option list"
  aq_SessionID :: string
  aq_ToolNames :: "string list"

record adk_Response =
  ap_Messages :: "Message option list"
  ap_Stats :: string

record ('s, 'w) Runner =
  rn_agent :: "'w \<Rightarrow> adk_Request \<Rightarrow> 'w \<times> (gerror + adk_Response option)"
  rn_store :: "('s store_get \<times> 's store_append) option"
  rn_guards :: "(string \<Rightarrow> string \<Rightarrow> GuardrailResult) option"
  rn_mw :: "'w MiddlewareFuncs list option"

record ('s, 'w) run_state =
  rs_store :: 's
  rs_world :: 'w
  rs_events :: "Event list"

definition publishEvent :: "EventType \<Rightarrow> event_data \<Rightarrow> ('s, 'w) run_state \<Rightarrow> ('s, 'w) run_state" where
  "publishEvent t d st = st\<lparr>rs_events := rs_events st @ [\<lparr>ev_Type = t, ev_SessionID = [], ev_Data = d\<rparr>]\<rparr>"

text \<open>A panic unwinds the runner before it can publish an error event.\<close>

definition report_error :: "gerror \<Rightarrow> ('s, 'w) run_state \<Rightarrow> ('s, 'w) run_state" where
  "report_error e st = (if is_panic e then st else publishEvent EvError (ErrorData e) st)"

subsection \<open>Preparing a request\<close>

text \<open>The tool calls in the request's own messages, in order.\<close>

definition request_calls :: "Message option list \<Rightarrow> ToolCall list" where
  "request_calls msgs = concat (map (\<lambda>m. case m of None \<Rightarrow> [] | Some x \<Rightarrow> m_ToolCalls x) msgs)"

fun guard_loop :: "(string \<Rightarrow> string \<Rightarrow> GuardrailResult) \<Rightarrow> ToolCall list \<Rightarrow> gerror option" where
  "guard_loop g [] = None"
| "guard_loop g (tc # tcs) =
     (let res = g (tc_Name tc) (tc_Arguments tc) in
      if \<not> gr_Allowed res then Some (blocked_error (tc_Name tc) (gr_Reason res)) else guard_loop g tcs)"

text \<open>The verb \<open>%q\<close>, for session names without characters that it would escape.\<close>

definition quoted :: "string \<Rightarrow> string" where
  "quoted s = [CHR 0x22] @ s @ [CHR 0x22]"

definition prepareRequest ::
  "('s, 'w) Runner \<Rightarrow> adk_Request option \<Rightarrow> ('s, 'w) run_state \<Rightarrow> ('s, 'w) run_state \<times> (gerror + adk_Request)" where
  "prepareRequest r req st = (case req of
     None \<Rightarrow> (st, Inl (ErrMsg ''agent request is nil''))
   | Some q \<Rightarrow>
       (case (case rn_guards r of None \<Rightarrow> None | Some g \<Rightarrow> guard_loop g (request_calls (aq_Messages q))) of
          Some e \<Rightarrow> (st, Inl e)
        | None \<Rightarrow>
            (case rn_store r of
               Some (get, _) \<Rightarrow>
                 if aq_SessionID q \<noteq> [] then
                   (case get (rs_store st) (aq_SessionID q) of
                      (s1, Inl e) \<Rightarrow> (st\<lparr>rs_store := s1\<rparr>, Inl (ErrWrap (''load session '' @ quoted (aq_SessionID q)) e))
                    | (s1, Inr existing) \<Rightarrow> (st\<lparr>rs_store := s1\<rparr>, Inr (q\<lparr>aq_Messages := existing @ aq_Messages q\<rparr>)))
                 else (st, Inr q)
             | None \<Rightarrow> (st, Inr q))))"

definition appendConversation ::
  "('s, 'w) Runner \<Rightarrow> string \<Rightarrow> Message option list \<Rightarrow> Message option list \<Rightarrow> ('s, 'w) run_state \<Rightarrow>
   ('s, 'w) run_state \<times> gerror option" where
  "appendConversation r sid input output st = (case rn_store r of
     Some (_, app) \<Rightarrow>
       if sid \<noteq> [] then
         (case app (rs_store st) sid (input @ output) of (s1, err) \<Rightarrow>
            (st\<lparr>rs_store := s1\<rparr>, map_option (ErrWrap (''append session '' @ quoted sid)) err))
       else (st, None)
   | None \<Rightarrow> (st, None))"

subsection \<open>Run\<close>

definition next_model :: "('s, 'w) Runner \<Rightarrow> 'w \<Rightarrow> ModelRequest option \<Rightarrow> 'w \<times> ModelResponse option \<times> gerror option" where
  "next_model r w req = (case req of
     None \<Rightarrow> (w, None, Some (panic_error ''nil pointer dereference''))
   | Some q \<Rightarrow> (case rn_agent r w \<lparr>aq_Messages = mr_Messages q, aq_SessionID = mr_SessionID q, aq_ToolNames = mr_Tools q\<rparr> of
       (w1, Inl e) \<Rightarrow> (w1, None, Some e)
     | (w1, Inr None) \<Rightarrow> (w1, None, Some (panic_error ''nil pointer dereference''))
     | (w1, Inr (Some p)) \<Rightarrow> (w1, Some \<lparr>mp_Messages = ap_Messages p, mp_Stats = ap_Stats p\<rparr>, None)))"

definition call_agent :: "('s, 'w) Runner \<Rightarrow> adk_Request \<Rightarrow> 'w \<Rightarrow> 'w \<times> (gerror + adk_Response)" where
  "call_agent r req w = (case rn_mw r of
     Some mws \<Rightarrow>
       (case AroundModel mws w (Some \<lparr>mr_Messages = aq_Messages req, mr_Tools = aq_ToolNames req, mr_SessionID = aq_SessionID req\<rparr>)
               (next_model r) of
          (w1, Inl e) \<Rightarrow> (w1, Inl e)
        | (w1, Inr None) \<Rightarrow> (w1, Inl (panic_error ''nil pointer dereference''))
        | (w1, Inr (Some p)) \<Rightarrow> (w1, Inr \<lparr>ap_Messages = mp_Messages p, ap_Stats = mp_Stats p\<rparr>))
   | None \<Rightarrow> (case rn_agent r w req of
       (w1, Inl e) \<Rightarrow> (w1, Inl e)
     | (w1, Inr None) \<Rightarrow> (w1, Inr \<lparr>ap_Messages = [], ap_Stats = []\<rparr>)
     | (w1, Inr (Some p)) \<Rightarrow> (w1, Inr p)))"

definition Run :: "('s, 'w) Runner \<Rightarrow> adk_Request option \<Rightarrow> ('s, 'w) run_state \<Rightarrow> ('s, 'w) run_state \<times> (gerror + adk_Response)" where
  "Run r req st = (case prepareRequest r req st of (st1, p) \<Rightarrow>
     (case p of
        Inl e \<Rightarrow> (publishEvent EvError (ErrorData e) st1, Inl e)
      | Inr q \<Rightarrow>
          let input = (case req of Some x \<Rightarrow> aq_Messages x | None \<Rightarrow> []);
              st2 = publishEvent AgentStart (AgentStartData (aq_SessionID q) (aq_ToolNames q)) st1 in
          (case call_agent r q (rs_world st2) of (w1, res) \<Rightarrow>
             let st3 = st2\<lparr>rs_world := w1\<rparr> in
             case res of
               Inl e \<Rightarrow> (report_error e st3, Inl e)
             | Inr resp \<Rightarrow>
                 (case appendConversation r (aq_SessionID q) input (ap_Messages resp) st3 of
                    (st4, Some e) \<Rightarrow> (publishEvent EvError (ErrorData e) st4, Inl e)
                  | (st4, None) \<Rightarrow> (publishEvent AgentEnd (AgentEndData (aq_SessionID q) (ap_Stats resp)) st4, Inr resp)))))"

subsection \<open>Stream\<close>

datatype agent_event_type = EvText | EvReasoning | EvToolCall | EvToolResult | EvErr | EvDone

record agent_event =
  ae_Type :: agent_event_type
  ae_Content :: string
  ae_ToolID :: string
  ae_Error :: "gerror option"

text \<open>The relaying goroutine. The agent's events end when its channel is closed; \<open>cancel\<close> is the
  number of the event at which the context ends the loop, if any. The result: the relayed events and
  the assistant's text and reasoning, if the turn is to be recorded.\<close>

fun relay :: "nat option \<Rightarrow> nat \<Rightarrow> string \<Rightarrow> string \<Rightarrow> agent_event list \<Rightarrow> agent_event list \<times> (string \<times> string) option" where
  "relay cancel i content reasoning [] = ([], if cancel = Some i then None else Some (content, reasoning))"
| "relay cancel i content reasoning (e # es) =
     (if cancel = Some i then ([], None)
      else if ae_Type e = EvErr then ([e], None)
      else case relay cancel (Suc i)
               (if ae_Type e = EvText then content @ ae_Content e else content)
               (if ae_Type e = EvReasoning then reasoning @ ae_Content e else reasoning) es of
             (out, r) \<Rightarrow> (e # out, r))"

definition assistant_msg :: "string \<Rightarrow> string \<Rightarrow> Message" where
  "assistant_msg content reasoning = zero_Message\<lparr>m_Role := RoleAssistant, m_Content := content, m_ReasoningContent := reasoning\<rparr>"

definition apply_before :: "('s, 'w) Runner \<Rightarrow> adk_Request \<Rightarrow> 'w \<Rightarrow> 'w \<times> (gerror + adk_Request)" where
  "apply_before r q w = (case rn_mw r of
     None \<Rightarrow> (w, Inr q)
   | Some mws \<Rightarrow>
       (case BeforeModelChain mws w (Some \<lparr>mr_Messages = aq_Messages q, mr_Tools = aq_ToolNames q, mr_SessionID = aq_SessionID q\<rparr>) of
          (w1, Inl e) \<Rightarrow> (w1, Inl e)
        | (w1, Inr None) \<Rightarrow> (w1, Inl (panic_error ''nil pointer dereference''))
        | (w1, Inr (Some m)) \<Rightarrow> (w1, Inr (q\<lparr>aq_Messages := mr_Messages m, aq_ToolNames := mr_Tools m\<rparr>))))"

text \<open>\<open>start\<close> is the agent's \<open>Stream\<close>: an error, or the events it will produce.\<close>

definition runner_Stream ::
  "('s, 'w) Runner \<Rightarrow> ('w \<Rightarrow> adk_Request \<Rightarrow> 'w \<times> (gerror + agent_event list)) \<Rightarrow> nat option \<Rightarrow> adk_Request option \<Rightarrow>
   ('s, 'w) run_state \<Rightarrow> ('s, 'w) run_state \<times> (gerror + agent_event list)" where
  "runner_Stream r start cancel req st = (case prepareRequest r req st of (st1, p) \<Rightarrow>
     (case p of
        Inl e \<Rightarrow> (publishEvent EvError (ErrorData e) st1, Inl e)
      | Inr q \<Rightarrow>
          let input = (case req of Some x \<Rightarrow> aq_Messages x | None \<Rightarrow> []);
              st2 = publishEvent AgentStart (AgentStartData (aq_SessionID q) (aq_ToolNames q)) st1 in
          (case apply_before r q (rs_world st2) of (w1, b) \<Rightarrow>
             let st3 = st2\<lparr>rs_world := w1\<rparr> in
             case b of
               Inl e \<Rightarrow> (report_error e st3, Inl e)
             | Inr q1 \<Rightarrow> (case start w1 q1 of (w2, raw) \<Rightarrow>
                 let st4 = st3\<lparr>rs_world := w2\<rparr> in
                 case raw of
                   Inl e \<Rightarrow> (report_error e st4, Inl e)
                 | Inr es \<Rightarrow> (case relay cancel 0 [] [] es of (out, rec) \<Rightarrow>
                     (case (case rec of
                           None \<Rightarrow> (st4, None)
                         | Some (c, rs) \<Rightarrow> appendConversation r (aq_SessionID q1) input [Some (assistant_msg c rs)] st4) of
                        (st5, err) \<Rightarrow>
                          (publishEvent AgentEnd (AgentEndData (aq_SessionID q1) [])
                             (case err of Some e \<Rightarrow> publishEvent EvError (ErrorData e) st5 | None \<Rightarrow> st5),
                           Inr (out @ (case err of Some e \<Rightarrow> [\<lparr>ae_Type = EvErr, ae_Content = error_string e, ae_ToolID = [], ae_Error = Some e\<rparr>] | None \<Rightarrow> [])))))))))"

subsection \<open>Lemmas\<close>

lemma publishEvent_sel [simp]:
  "rs_store (publishEvent t d st) = rs_store st" "rs_world (publishEvent t d st) = rs_world st"
  "rs_events (publishEvent t d st) = rs_events st @ [\<lparr>ev_Type = t, ev_SessionID = [], ev_Data = d\<rparr>]"
  by (simp_all add: publishEvent_def)

lemma report_error_sel [simp]:
  "rs_store (report_error e st) = rs_store st" "rs_world (report_error e st) = rs_world st"
  by (simp_all add: report_error_def)

definition blocked_by :: "(string \<Rightarrow> string \<Rightarrow> GuardrailResult) option \<Rightarrow> ToolCall list \<Rightarrow> bool" where
  "blocked_by g tcs \<longleftrightarrow> (case g of None \<Rightarrow> False | Some f \<Rightarrow> (\<exists>tc \<in> set tcs. \<not> gr_Allowed (f (tc_Name tc) (tc_Arguments tc))))"

lemma guard_loop_None: "guard_loop g tcs = None \<longleftrightarrow> \<not> blocked_by (Some g) tcs"
  by (induction tcs) (auto simp: blocked_by_def Let_def)

text \<open>The events of a stream that the relay passes on, and the text and the reasoning in them.\<close>

definition texts :: "agent_event_type \<Rightarrow> agent_event list \<Rightarrow> string" where
  "texts t es = concat (map ae_Content (filter (\<lambda>e. ae_Type e = t) es))"

definition completes :: "nat option \<Rightarrow> agent_event list \<Rightarrow> bool" where
  "completes cancel es \<longleftrightarrow> (\<forall>e \<in> set es. ae_Type e \<noteq> EvErr) \<and> (case cancel of None \<Rightarrow> True | Some n \<Rightarrow> length es < n)"

lemma texts_simps [simp]: "texts t [] = []" "texts t (e # es) = (if ae_Type e = t then ae_Content e @ texts t es else texts t es)"
  by (simp_all add: texts_def)

lemma relay_complete:
  assumes "\<forall>e \<in> set es. ae_Type e \<noteq> EvErr" and "\<forall>n. cancel = Some n \<longrightarrow> i + length es < n"
  shows "relay cancel i c rs es = (es, Some (c @ texts EvText es, rs @ texts EvReasoning es))"
  using assms
proof (induction es arbitrary: i c rs)
  case (Cons e es)
  have "relay cancel (Suc i) c' rs' es = (es, Some (c' @ texts EvText es, rs' @ texts EvReasoning es))" for c' rs'
    using Cons.prems by (intro Cons.IH) auto
  with Cons.prems show ?case by (cases "ae_Type e") auto
qed auto

lemma relay_broken:
  assumes "(\<exists>e \<in> set es. ae_Type e = EvErr) \<or> (\<exists>n. cancel = Some n \<and> i \<le> n \<and> n \<le> i + length es)"
  shows "snd (relay cancel i c rs es) = None"
  using assms
proof (induction es arbitrary: i c rs)
  case (Cons e es)
  show ?case
  proof (cases "cancel = Some i \<or> ae_Type e = EvErr")
    case False
    have "snd (relay cancel (Suc i) c' rs' es) = None" for c' rs'
      using Cons.prems False by (intro Cons.IH) (auto simp: Suc_le_eq le_less)
    with False show ?thesis by (simp add: case_prod_beta)
  qed auto
qed auto

lemma relay_spec:
  "snd (relay cancel 0 [] [] es) = (if completes cancel es then Some (texts EvText es, texts EvReasoning es) else None)"
proof (cases "completes cancel es")
  case True
  then show ?thesis using relay_complete [of es cancel 0 "[]" "[]"] by (auto simp: completes_def split: option.splits)
next
  case False
  then show ?thesis using relay_broken [of es cancel 0 "[]" "[]"]
    by (auto simp: completes_def not_less split: option.splits)
qed

lemma relay_prefix: "prefix (fst (relay cancel i c rs es)) es"
  by (induction cancel i c rs es rule: relay.induct) (auto split: prod.splits)

lemma prepare_blocked:
  assumes "blocked_by (rn_guards r) (request_calls (aq_Messages q))"
  obtains e where "prepareRequest r (Some q) st = (st, Inl e)"
proof -
  obtain g where g: "rn_guards r = Some g" using assms by (auto simp: blocked_by_def split: option.splits)
  then obtain e where "guard_loop g (request_calls (aq_Messages q)) = Some e"
    using assms guard_loop_None [of g] by fastforce
  with g show thesis by (intro that [of e]) (simp add: prepareRequest_def)
qed

definition with_history :: "adk_Request \<Rightarrow> Message option list \<Rightarrow> adk_Request" where
  "with_history q h = q\<lparr>aq_Messages := h @ aq_Messages q\<rparr>"

lemma with_history_sel [simp]:
  "aq_SessionID (with_history q h) = aq_SessionID q" "aq_ToolNames (with_history q h) = aq_ToolNames q"
  by (simp_all add: with_history_def)

lemma apply_before_session: "apply_before r q w = (w1, Inr q1) \<Longrightarrow> aq_SessionID q1 = aq_SessionID q"
  by (auto simp: apply_before_def split: option.splits prod.splits sum.splits)

text \<open>What the runner does with any store that keeps the contract.\<close>

context session_store
begin

lemma prepare_view:
  assumes "rn_store r = Some (get, app)" and "aq_SessionID q \<noteq> []"
    and "\<not> blocked_by (rn_guards r) (request_calls (aq_Messages q))"
  shows "prepareRequest r (Some q) st = (st\<lparr>rs_store := fst (get (rs_store st) (aq_SessionID q))\<rparr>,
           Inr (with_history q (view (rs_store st) (aq_SessionID q))))"
proof -
  have "(case rn_guards r of None \<Rightarrow> None | Some g \<Rightarrow> guard_loop g (request_calls (aq_Messages q))) = None"
    using assms(3) guard_loop_None by (auto simp: blocked_by_def split: option.splits)
  with assms(1,2) get_view [of "rs_store st" "aq_SessionID q"] show ?thesis
    by (cases "get (rs_store st) (aq_SessionID q)") (simp add: prepareRequest_def with_history_def)
qed

lemma prepare_keeps:
  assumes "rn_store r = Some (get, app)" and "prepareRequest r req st = (st', p)"
  shows "view (rs_store st') = view (rs_store st) \<and> rs_world st' = rs_world st \<and> rs_events st' = rs_events st"
  using assms get_keeps [of "rs_store st"]
  by (auto simp: prepareRequest_def split: option.splits if_splits prod.splits sum.splits) (metis fst_conv)+

lemma append_view:
  assumes "rn_store r = Some (get, app)" and "sid \<noteq> []" and "list_all ok (input @ output)"
  obtains st' where "appendConversation r sid input output st = (st', None)"
    and "view (rs_store st') = (view (rs_store st))(sid := view (rs_store st) sid @ input @ output)"
    and "rs_world st' = rs_world st" and "rs_events st' = rs_events st"
proof -
  let ?st = "st\<lparr>rs_store := fst (app (rs_store st) sid (input @ output))\<rparr>"
  have "appendConversation r sid input output st = (?st, None)"
    using assms(1,2) app_ok [of "rs_store st" sid "input @ output"]
    by (cases "app (rs_store st) sid (input @ output)") (simp add: appendConversation_def)
  moreover have "view (rs_store ?st) = (view (rs_store st))(sid := view (rs_store st) sid @ input @ output)"
    using app_same [OF assms(3), of "rs_store st" sid] app_other [of _ sid "rs_store st" "input @ output"]
    by (auto simp: fun_eq_iff)
  ultimately show thesis by (rule that) simp_all
qed

lemma append_no_error: "rn_store r = Some (get, app) \<Longrightarrow> snd (appendConversation r sid input output st) = None"
  using app_ok by (auto simp: appendConversation_def split: prod.splits) (metis snd_conv)

lemma run_turn:
  assumes "rn_store r = Some (get, app)" and "aq_SessionID q \<noteq> []"
    and "\<not> blocked_by (rn_guards r) (request_calls (aq_Messages q))"
    and "call_agent r (with_history q (view (rs_store st) (aq_SessionID q))) (rs_world st) = (w, Inr resp)"
    and "list_all ok (aq_Messages q @ ap_Messages resp)"
  obtains st' where "Run r (Some q) st = (st', Inr resp)" and "rs_world st' = w"
    and "view (rs_store st') = (view (rs_store st))
           (aq_SessionID q := view (rs_store st) (aq_SessionID q) @ aq_Messages q @ ap_Messages resp)"
    and "map ev_Type (rs_events st') = map ev_Type (rs_events st) @ [AgentStart, AgentEnd]"
proof -
  let ?s = "publishEvent AgentStart (AgentStartData (aq_SessionID q) (aq_ToolNames q))
      (st\<lparr>rs_store := fst (get (rs_store st) (aq_SessionID q))\<rparr>)\<lparr>rs_world := w\<rparr>"
  obtain st4 where a: "appendConversation r (aq_SessionID q) (aq_Messages q) (ap_Messages resp) ?s = (st4, None)"
    "view (rs_store st4) = (view (rs_store ?s))(aq_SessionID q := view (rs_store ?s) (aq_SessionID q) @ aq_Messages q @ ap_Messages resp)"
    "rs_world st4 = rs_world ?s" "rs_events st4 = rs_events ?s"
    by (rule append_view [OF assms(1,2,5)])
  have "Run r (Some q) st = (publishEvent AgentEnd (AgentEndData (aq_SessionID q) (ap_Stats resp)) st4, Inr resp)"
    using assms(4) a(1) by (simp add: Run_def prepare_view [OF assms(1-3)])
  then show thesis by (rule that) (use a(2-4) in \<open>simp_all add: get_keeps\<close>)
qed

lemma run_failure:
  assumes "rn_store r = Some (get, app)" and "Run r req st = (st', Inl e)"
  shows "view (rs_store st') = view (rs_store st)"
proof -
  obtain st1 p where p: "prepareRequest r req st = (st1, p)" by fastforce
  show ?thesis
    using assms(2) prepare_keeps [OF assms(1) p] append_no_error [OF assms(1)] p
    by (auto simp: Run_def Let_def split: sum.splits prod.splits option.splits) (metis option.distinct(1) snd_conv)+
qed

lemma stream_turn:
  assumes "rn_store r = Some (get, app)" and "aq_SessionID q \<noteq> []"
    and "\<not> blocked_by (rn_guards r) (request_calls (aq_Messages q))"
    and "apply_before r (with_history q (view (rs_store st) (aq_SessionID q))) (rs_world st) = (w1, Inr q1)"
    and "start w1 q1 = (w2, Inr es)"
    and "list_all ok (aq_Messages q @ [Some (assistant_msg (texts EvText es) (texts EvReasoning es))])"
  obtains st' where "runner_Stream r start cancel (Some q) st = (st', Inr (fst (relay cancel 0 [] [] es)))"
    and "view (rs_store st') = (if completes cancel es then (view (rs_store st)) (aq_SessionID q :=
           view (rs_store st) (aq_SessionID q) @ aq_Messages q @ [Some (assistant_msg (texts EvText es) (texts EvReasoning es))])
         else view (rs_store st))"
proof -
  let ?a = "assistant_msg (texts EvText es) (texts EvReasoning es)"
  let ?s = "publishEvent AgentStart (AgentStartData (aq_SessionID q) (aq_ToolNames q))
      (st\<lparr>rs_store := fst (get (rs_store st) (aq_SessionID q))\<rparr>)\<lparr>rs_world := w2\<rparr>"
  have sid: "aq_SessionID q1 = aq_SessionID q" using apply_before_session [OF assms(4)] by simp
  obtain st4 where a: "appendConversation r (aq_SessionID q) (aq_Messages q) [Some ?a] ?s = (st4, None)"
    "view (rs_store st4) = (view (rs_store ?s))(aq_SessionID q := view (rs_store ?s) (aq_SessionID q) @ aq_Messages q @ [Some ?a])"
    by (rule append_view [OF assms(1,2,6)])
  obtain out rc where rl: "relay cancel 0 [] [] es = (out, rc)" by fastforce
  have rc: "rc = (if completes cancel es then Some (texts EvText es, texts EvReasoning es) else None)"
    using relay_spec [of cancel es] rl by simp
  let ?st = "publishEvent AgentEnd (AgentEndData (aq_SessionID q1) []) (if completes cancel es then st4 else ?s)"
  have "runner_Stream r start cancel (Some q) st = (?st, Inr (fst (relay cancel 0 [] [] es)))"
    using assms(4,5) a(1) rl rc sid by (simp add: runner_Stream_def prepare_view [OF assms(1-3)])
  then show thesis by (rule that) (use a(2) in \<open>simp add: get_keeps\<close>)
qed

end

subsection \<open>Properties\<close>

lemma adk_ok_assistant: "adk_ok (Some (assistant_msg c rs))"
  by (simp add: adk_ok_def assistant_msg_def zero_Message_def)

text \<open>C5: A completed turn is recorded once, in its own session, and the agent saw the whole history: with
  the session manager as store, if no tool call of the request is blocked and the agent (inside its
  middleware), given the session's conversation followed by the request's messages, answers, then Run
  returns that answer, the session's conversation grows by exactly the request's messages and the
  answer's, every other session is unchanged, and the events published are AgentStart and AgentEnd.\<close>

theorem run_records_turn:
  assumes "rn_store r = Some (adapter_Get tget, adapter_Append tapp)" and "aq_SessionID q \<noteq> []"
    and "\<not> blocked_by (rn_guards r) (request_calls (aq_Messages q))"
    and "call_agent r (with_history q (adapter_view (rs_store st) (aq_SessionID q))) (rs_world st) = (w, Inr resp)"
    and "list_all adk_ok (aq_Messages q @ ap_Messages resp)"
  shows "\<exists>st'. Run r (Some q) st = (st', Inr resp) \<and> rs_world st' = w
    \<and> adapter_view (rs_store st') = (adapter_view (rs_store st))
        (aq_SessionID q := adapter_view (rs_store st) (aq_SessionID q) @ aq_Messages q @ ap_Messages resp)
    \<and> map ev_Type (rs_events st') = map ev_Type (rs_events st) @ [AgentStart, AgentEnd]"
  by (rule manager_store.run_turn [OF assms]) blast

definition echo_agent :: "nat \<Rightarrow> adk_Request \<Rightarrow> nat \<times> (gerror + adk_Response option)" where
  "echo_agent n q = (n + 1, Inr (Some \<lparr>ap_Messages = [Some (assistant_msg (show_nat (length (aq_Messages q))) [])], ap_Stats = []\<rparr>))"

definition demo_runner :: "(Manager, nat) Runner" where
  "demo_runner = \<lparr>rn_agent = echo_agent, rn_store = Some (adapter_Get 1, adapter_Append 2),
     rn_guards = Some (\<lambda>n _. \<lparr>gr_Allowed = (n = ''ls''), gr_Reason = ''not allowed''\<rparr>), rn_mw = Some []\<rparr>"

definition demo_state :: "(Manager, nat) run_state" where
  "demo_state = \<lparr>rs_store = NewManager [], rs_world = 0, rs_events = []\<rparr>"

definition demo_request :: "string \<Rightarrow> adk_Request" where
  "demo_request call = \<lparr>aq_Messages = [Some (zero_Message\<lparr>m_Role := RoleUser, m_Content := ''hi'',
     m_ToolCalls := [\<lparr>tc_ID = ''1'', tc_Type = [], tc_Name = call, tc_Arguments = []\<rparr>]\<rparr>)], aq_SessionID = ''s'', aq_ToolNames = []\<rparr>"

lemma empty_view: "adapter_view (NewManager d) sid = []"
  by (simp add: adapter_view_def messages_of_def NewManager_def FromEinoSlice_def)

lemma demo_view: "adapter_view (rs_store demo_state) sid = []"
  by (simp add: demo_state_def empty_view)

lemma demo_allowed: "\<not> blocked_by (rn_guards demo_runner) (request_calls (aq_Messages (demo_request ''ls'')))"
  by (simp add: blocked_by_def demo_runner_def demo_request_def request_calls_def zero_Message_def)

lemma demo_ok: "list_all adk_ok (aq_Messages (demo_request c) @ [Some (assistant_msg x y)])"
  by (simp add: demo_request_def adk_ok_assistant) (simp add: adk_ok_def zero_Message_def)

theorem run_records_turn_witness:
  "\<exists>st'. Run demo_runner (Some (demo_request ''ls'')) demo_state
           = (st', Inr \<lparr>ap_Messages = [Some (assistant_msg (show_nat 1) [])], ap_Stats = []\<rparr>)
     \<and> length (adapter_view (rs_store st') ''s'') = 2"
proof -
  let ?p = "\<lparr>ap_Messages = [Some (assistant_msg (show_nat 1) [])], ap_Stats = []\<rparr>"
  have s: "rn_store demo_runner = Some (adapter_Get 1, adapter_Append 2)" "aq_SessionID (demo_request ''ls'') \<noteq> []"
    by (simp_all add: demo_runner_def demo_request_def)
  have c: "call_agent demo_runner (with_history (demo_request ''ls'') (adapter_view (rs_store demo_state) (aq_SessionID (demo_request ''ls''))))
      (rs_world demo_state) = (1, Inr ?p)"
    by (simp add: call_agent_def demo_runner_def AroundModel_def around_def next_model_def echo_agent_def with_history_def
        empty_view demo_request_def demo_state_def)
  have o: "list_all adk_ok (aq_Messages (demo_request ''ls'') @ ap_Messages ?p)" using demo_ok by simp
  obtain st' where "Run demo_runner (Some (demo_request ''ls'')) demo_state = (st', Inr ?p)"
    "adapter_view (rs_store st') = (adapter_view (rs_store demo_state)) (aq_SessionID (demo_request ''ls'') :=
       adapter_view (rs_store demo_state) (aq_SessionID (demo_request ''ls'')) @ aq_Messages (demo_request ''ls'') @ ap_Messages ?p)"
    using run_records_turn [OF s demo_allowed c o] by blast
  then show ?thesis by (simp add: demo_view demo_request_def)
qed

text \<open>A failed run leaves every conversation as it was: whatever fails (a nil or blocked request, a
  middleware, the agent), no session of the manager gains or loses a message.\<close>

theorem failed_run_keeps_history:
  assumes "rn_store r = Some (adapter_Get tget, adapter_Append tapp)" and "Run r req st = (st', Inl e)"
  shows "adapter_view (rs_store st') = adapter_view (rs_store st)"
  by (rule manager_store.run_failure [OF assms])

theorem failed_run_keeps_history_witness:
  "adapter_view (rs_store (fst (Run demo_runner (Some (demo_request ''rm'')) demo_state))) = (\<lambda>_. [])"
proof -
  have b: "prepareRequest demo_runner (Some (demo_request ''rm'')) demo_state
      = (demo_state, Inl (blocked_error ''rm'' ''not allowed''))"
    by (simp add: prepareRequest_def demo_runner_def demo_request_def request_calls_def zero_Message_def)
  have r: "rn_store demo_runner = Some (adapter_Get 1, adapter_Append 2)" by (simp add: demo_runner_def)
  obtain st' where e: "Run demo_runner (Some (demo_request ''rm'')) demo_state = (st', Inl (blocked_error ''rm'' ''not allowed''))"
    using b by (simp add: Run_def)
  from failed_run_keeps_history [OF r e] e show ?thesis by (simp add: demo_view fun_eq_iff)
qed

text \<open>A blocked request reaches nothing: if the guardrails reject any tool call in the request's
  messages, Run and Stream return the same error, neither the agent nor a middleware nor the store is
  called, and the only event published is that error.\<close>

theorem blocked_request_stops:
  assumes "blocked_by (rn_guards r) (request_calls (aq_Messages q))"
  shows "\<exists>e. Run r (Some q) st = (publishEvent EvError (ErrorData e) st, Inl e)
    \<and> runner_Stream r start cancel (Some q) st = (publishEvent EvError (ErrorData e) st, Inl e)"
proof -
  obtain e where "prepareRequest r (Some q) st = (st, Inl e)" by (rule prepare_blocked [OF assms])
  then show ?thesis by (intro exI [of _ e]) (simp add: Run_def runner_Stream_def)
qed

theorem blocked_request_stops_witness:
  "rs_world (fst (Run demo_runner (Some (demo_request ''rm'')) demo_state)) = 0"
proof -
  have "blocked_by (rn_guards demo_runner) (request_calls (aq_Messages (demo_request ''rm'')))"
    by (simp add: blocked_by_def demo_runner_def demo_request_def request_calls_def zero_Message_def)
  from blocked_request_stops [OF this, of demo_state "\<lambda>w q. (w, Inr [])" None] show ?thesis by (auto simp: demo_state_def)
qed

text \<open>C6: A streamed turn is recorded exactly when the stream ended by itself: the caller receives a
  prefix of the agent's events, all of them when the turn completes; the session then gains the
  request's messages and one assistant message whose text and reasoning are the concatenated text and
  reasoning events; after an error event or a cancellation no session changes.\<close>

theorem stream_records_turn:
  assumes "rn_store r = Some (adapter_Get tget, adapter_Append tapp)" and "aq_SessionID q \<noteq> []"
    and "\<not> blocked_by (rn_guards r) (request_calls (aq_Messages q))"
    and "apply_before r (with_history q (adapter_view (rs_store st) (aq_SessionID q))) (rs_world st) = (w1, Inr q1)"
    and "start w1 q1 = (w2, Inr es)" and "list_all adk_ok (aq_Messages q)"
  shows "\<exists>st' out. runner_Stream r start cancel (Some q) st = (st', Inr out) \<and> prefix out es
    \<and> (if completes cancel es
        then out = es \<and> adapter_view (rs_store st') = (adapter_view (rs_store st)) (aq_SessionID q :=
          adapter_view (rs_store st) (aq_SessionID q) @ aq_Messages q
            @ [Some (assistant_msg (texts EvText es) (texts EvReasoning es))])
        else adapter_view (rs_store st') = adapter_view (rs_store st))"
proof -
  have ok: "list_all adk_ok (aq_Messages q @ [Some (assistant_msg (texts EvText es) (texts EvReasoning es))])"
    using assms(6) adk_ok_assistant by simp
  have all: "completes cancel es \<Longrightarrow> fst (relay cancel 0 [] [] es) = es"
    using relay_complete [of es cancel 0 "[]" "[]"] by (auto simp: completes_def split: option.splits)
  show ?thesis
    by (rule manager_store.stream_turn [where start = start and cancel = cancel, OF assms(1-5) ok]) (use all relay_prefix [of cancel 0 "[]" "[]" es] in auto)
qed

definition text_event :: "string \<Rightarrow> agent_event" where
  "text_event s = \<lparr>ae_Type = EvText, ae_Content = s, ae_ToolID = [], ae_Error = None\<rparr>"

theorem stream_records_turn_witness:
  "\<exists>st'. runner_Stream demo_runner (\<lambda>w q. (w, Inr [text_event ''he'', text_event ''llo''])) None (Some (demo_request ''ls'')) demo_state
       = (st', Inr [text_event ''he'', text_event ''llo''])
     \<and> adapter_view (rs_store st') ''s'' = aq_Messages (demo_request ''ls'') @ [Some (assistant_msg ''hello'' [])]"
proof -
  let ?es = "[text_event ''he'', text_event ''llo'']"
  let ?h = "with_history (demo_request ''ls'') (adapter_view (rs_store demo_state) (aq_SessionID (demo_request ''ls'')))"
  have s: "rn_store demo_runner = Some (adapter_Get 1, adapter_Append 2)" "aq_SessionID (demo_request ''ls'') \<noteq> []"
    by (simp_all add: demo_runner_def demo_request_def)
  have b: "apply_before demo_runner ?h (rs_world demo_state) = (rs_world demo_state, Inr ?h)"
    by (simp add: apply_before_def demo_runner_def BeforeModelChain_def)
  have o: "list_all adk_ok (aq_Messages (demo_request ''ls''))" using demo_ok by simp
  have c: "completes None ?es" "texts EvText ?es = ''hello''" "texts EvReasoning ?es = []"
    by (simp_all add: completes_def text_event_def)
  let ?start = "\<lambda>(w :: nat) (q :: adk_Request). (w, Inr ?es :: gerror + agent_event list)"
  have e: "?start (rs_world demo_state) ?h = (rs_world demo_state, Inr ?es)" by simp
  from stream_records_turn [where start = ?start and cancel = None, OF s demo_allowed b e o] c show ?thesis
    by (auto simp: demo_view) (simp add: demo_request_def)
qed

end
