(* ===== verification/Float64.thy ===== *)
theory Float64
  imports Prelude "HOL-Library.Log_Nat" "HOL-Library.Word"
begin

section \<open>Double precision numbers as the program formats them\<close>

text \<open>
  The program converts counts to \<open>float64\<close>, divides them and prints the result with \<open>%.0f\<close> or \<open>%.1f\<close>, and
  prints durations it keeps as \<open>float64\<close>. Each of these operations rounds an exact value to the nearest
  representable one, ties to even. Values are fractions of natural numbers; all of them are far from the
  largest and the smallest double, so a result has 53 significant bits.
\<close>

definition round_half_even :: "nat \<Rightarrow> nat \<Rightarrow> nat" where
  "round_half_even a b =
     (let q = a div b; r = a mod b in
      if 2 * r < b then q else if 2 * r > b then q + 1 else if even q then q else q + 1)"

text \<open>\<open>float64(n)\<close>, and the product of two such numbers.\<close>

definition float64_of_uint :: "nat \<Rightarrow> nat" where
  "float64_of_uint n = (let k = floorlog 2 n - 53 in round_half_even n (2 ^ k) * 2 ^ k)"

text \<open>The quotient \<open>a / b\<close> as a fraction: the numerator is scaled until the quotient has 53 bits.\<close>

function norm_shift :: "nat \<Rightarrow> nat \<Rightarrow> nat" where
  "norm_shift a b = (if a = 0 \<or> b * 2 ^ 52 \<le> a then 0 else Suc (norm_shift (2 * a) b))"
  by pat_completeness auto
termination
  by (relation "measure (\<lambda>(a, b). b * 2 ^ 52 - a)") auto

definition float_quot :: "nat \<Rightarrow> nat \<Rightarrow> nat \<times> nat" where
  "float_quot a b =
     (if a < b * 2 ^ 53 then (let k = norm_shift a b in (round_half_even (a * 2 ^ k) b, 2 ^ k))
      else (let j = floorlog 2 (a div b) - 53 in (round_half_even a (b * 2 ^ j) * 2 ^ j, 1)))"

text \<open>\<open>%.1f\<close> and \<open>%.0f\<close> of a fraction.\<close>

definition fixed1 :: "nat \<Rightarrow> nat \<Rightarrow> string" where
  "fixed1 a b = (let t = round_half_even (10 * a) b in show_nat (t div 10) @ ''.'' @ show_nat (t mod 10))"

definition fixed0 :: "nat \<Rightarrow> nat \<Rightarrow> string" where
  "fixed0 a b = show_nat (round_half_even a b)"

text \<open>\<open>%.0f\<close> of a double given by its bits: sign, eleven bits of exponent, fifty-two bits of fraction.\<close>

definition format_f0 :: "64 word \<Rightarrow> string" where
  "format_f0 w =
     (let n = unat w; neg = (n \<ge> 2 ^ 63); e = (n div 2 ^ 52) mod 2 ^ 11; f = n mod 2 ^ 52;
          m = (if e = 0 then f else 2 ^ 52 + f); x = max e 1 in
      if e = 2047 then (if f \<noteq> 0 then ''NaN'' else if neg then ''-Inf'' else ''+Inf'')
      else (if neg then ''-'' else []) @ (if x \<ge> 1075 then fixed0 (m * 2 ^ (x - 1075)) 1 else fixed0 m (2 ^ (1075 - x))))"

subsection \<open>Lemmas\<close>

lemma round_error: "0 < b \<Longrightarrow> 2 * \<bar>int (round_half_even a b) * int b - int a\<bar> \<le> int b"
proof -
  assume b: "0 < b"
  have a: "int a = int (a div b) * int b + int (a mod b)" using div_mult_mod_eq [of a b] by (metis of_nat_add of_nat_mult)
  have "a mod b < b" using b by simp
  then show ?thesis unfolding round_half_even_def Let_def by (auto simp: a algebra_simps)
qed

lemma round_ge: "0 < b \<Longrightarrow> c * b \<le> a \<Longrightarrow> c \<le> round_half_even a b"
proof -
  assume "0 < b" "c * b \<le> a"
  then have "c \<le> a div b" by (simp add: less_eq_div_iff_mult_less_eq)
  then show ?thesis by (auto simp: round_half_even_def Let_def)
qed

lemma round_le: "0 < b \<Longrightarrow> a \<le> c * b \<Longrightarrow> round_half_even a b \<le> c"
proof -
  assume b: "0 < b" and a: "a \<le> c * b"
  show ?thesis
  proof (cases "a = c * b")
    case True
    with b show ?thesis by (simp add: round_half_even_def)
  next
    case False
    with a b have "a div b < c" by (simp add: div_less_iff_less_mult)
    then show ?thesis by (auto simp: round_half_even_def Let_def)
  qed
qed

lemma round_exact [simp]: "0 < b \<Longrightarrow> round_half_even (c * b) b = c"
  by (simp add: round_half_even_def)

lemma float64_exact: "n < 2 ^ 53 \<Longrightarrow> float64_of_uint n = n"
proof -
  assume "n < 2 ^ 53"
  then have "floorlog 2 n \<le> 53" by (simp add: floorlog_le_iff)
  then show ?thesis using round_exact [of 1 n] by (simp add: float64_of_uint_def)
qed

lemma norm_shift_ge: "0 < a \<Longrightarrow> b * 2 ^ 52 \<le> a * 2 ^ norm_shift a b"
proof (induction a b rule: norm_shift.induct)
  case (1 a b)
  then show ?case by (cases "b * 2 ^ 52 \<le> a") (simp_all add: norm_shift.simps [of a b] mult.assoc mult.left_commute)
qed

declare norm_shift.simps [simp del]

text \<open>The rounded quotient: its denominator is large, and it is within half a unit of the exact one.\<close>

lemma float_quot_spec:
  assumes "0 < a" and "0 < b" and "a < b * 2 ^ 53"
  obtains m k where "float_quot a b = (m, 2 ^ k)" "b * 2 ^ 52 \<le> a * 2 ^ k" "m = round_half_even (a * 2 ^ k) b"
  using that [OF _ norm_shift_ge [OF assms(1)]] assms by (simp add: float_quot_def Let_def)

end
