(* ===== verification/OutputFilter.thy ===== *)
theory OutputFilter
  imports Text Regex Float64 "HOL-Library.AList"
begin

section \<open>Filters for command output (tools/filter)\<close>

text \<open>
  The output of a command is shortened by the first registered filter whose prefix the command has.
  Output is a byte string; a line is what \<open>strings.Split\<close> leaves between newlines. The order in which
  Go iterates over the map of file extensions is the argument \<open>iter\<close>.
\<close>

abbreviation cr :: string where "cr \<equiv> [CHR 0x0D]"
abbreviation endl :: string where "endl \<equiv> [CHR 0x0A]"

subsection \<open>Utilities (utils.go)\<close>

definition ascii_letter :: "char \<Rightarrow> bool" where
  "ascii_letter c = ((CHR ''a'' \<le> c \<and> c \<le> CHR ''z'') \<or> (CHR ''A'' \<le> c \<and> c \<le> CHR ''Z''))"

definition ansiRE :: "string \<Rightarrow> string option" where
  "ansiRE s = do {
     s1 \<leftarrow> m_lit [CHR 0x1B, CHR ''[''] s;
     case dropWhile (\<lambda>c. is_digit c \<or> c = CHR '';'') s1 of
       c # t \<Rightarrow> if ascii_letter c then Some t else None
     | [] \<Rightarrow> None }"

definition stripANSI :: "string \<Rightarrow> string" where
  "stripANSI s = replace_matches ansiRE (\<lambda>_. []) s"

definition truncateLine :: "string \<Rightarrow> nat \<Rightarrow> string" where
  "truncateLine line width =
     (if length (runes line) \<le> width then line
      else concat (map encode_rune (take (width - 3) (runes line))) @ ''...'')"

definition humanSize :: "nat \<Rightarrow> string" where
  "humanSize bytes =
     (if bytes \<ge> 2 ^ 20 then fixed1 (float64_of_uint bytes) (2 ^ 20) @ ''M''
      else if bytes \<ge> 1024 then fixed1 (float64_of_uint bytes) 1024 @ ''K''
      else show_nat bytes @ ''B'')"

definition repeat_notice :: "nat \<Rightarrow> string" where
  "repeat_notice n = ''  (previous line repeated '' @ show_nat n @ '' times)''"

definition dedup_item :: "string \<Rightarrow> nat \<Rightarrow> string" where
  "dedup_item prev n = (if n > 1 then repeat_notice n else prev)"

fun dedup_loop :: "string \<Rightarrow> nat \<Rightarrow> string list \<Rightarrow> string list" where
  "dedup_loop prev n [] = [dedup_item prev n]"
| "dedup_loop prev n (line # ls) =
     (if line = prev then dedup_loop prev (Suc n) ls
      else dedup_item prev n # dedup_loop line 1 ls)"

definition dedupLines :: "string list \<Rightarrow> string list" where
  "dedupLines ls = (case ls of [] \<Rightarrow> [] | l # r \<Rightarrow> dedup_loop l 1 r)"

definition emptyLines :: "string list \<Rightarrow> string list" where
  "emptyLines ls = filter (\<lambda>l. TrimSpace l \<noteq> []) ls"

text \<open>The two nested loops of \<open>sortByValueDesc\<close>: the inner one leaves the larger value in front.\<close>

fun sort_inner :: "(string \<times> nat) \<Rightarrow> (string \<times> nat) list \<Rightarrow> (string \<times> nat) \<times> (string \<times> nat) list" where
  "sort_inner x [] = (x, [])"
| "sort_inner x (y # ys) =
     (if snd y > snd x then (case sort_inner y ys of (m, r) \<Rightarrow> (m, x # r))
      else (case sort_inner x ys of (m, r) \<Rightarrow> (m, y # r)))"

lemma sort_inner_length: "length (snd (sort_inner x ys)) = length ys"
  by (induction x ys rule: sort_inner.induct) (auto split: prod.splits)

function sort_outer :: "(string \<times> nat) list \<Rightarrow> (string \<times> nat) list" where
  "sort_outer [] = []"
| "sort_outer (x # xs) = fst (sort_inner x xs) # sort_outer (snd (sort_inner x xs))"
  by pat_completeness auto
termination
  by (relation "measure length") (auto simp: sort_inner_length)

definition sortByValueDesc :: "((string \<times> nat) list \<Rightarrow> (string \<times> nat) list) \<Rightarrow> (string \<times> nat) list \<Rightarrow> (string \<times> nat) list" where
  "sortByValueDesc iter m = sort_outer (iter m)"

definition minInt :: "nat \<Rightarrow> nat \<Rightarrow> nat" where "minInt a b = (if a < b then a else b)"

subsection \<open>The default filter (general.go)\<close>

definition noopFilter :: "string \<Rightarrow> string \<Rightarrow> string" where
  "noopFilter raw cmd =
     Join (dedupLines (emptyLines (map (\<lambda>l. stripANSI (TrimRight l cr)) (split_lines raw)))) endl @ endl"

subsection \<open>Git (git.go)\<close>

definition quote :: char where "quote = CHR 0x22"

definition status_noise :: "string \<Rightarrow> bool" where
  "status_noise trimmed =
     (HasPrefix trimmed (''(use '' @ [quote] @ ''git'') \<or> HasPrefix trimmed ''(create/copy files''
      \<or> Contains trimmed (''(use '' @ [quote] @ ''git add'') \<or> Contains trimmed (''(use '' @ [quote] @ ''git restore''))"

definition filterGitStatus :: "string \<Rightarrow> string \<Rightarrow> string" where
  "filterGitStatus raw cmd =
     (let out = filter (\<lambda>l. TrimSpace l \<noteq> [] \<and> \<not> status_noise (TrimSpace l)) (map (\<lambda>l. TrimRight l cr) (split_lines raw)) in
      if length out = 1 \<and> Contains (hd out) ''nothing to commit'' then ''clean'' @ endl
      else if out = [] then ''ok'' @ endl
      else Join out endl @ endl)"

fun log_loop :: "nat \<Rightarrow> string list \<Rightarrow> string list \<Rightarrow> string list" where
  "log_loop n out [] = out"
| "log_loop n out (l # ls) =
     (let line = TrimRight l cr in
      if length out \<ge> 10 then out @ [''  ... (+'' @ show_nat (n - 10) @ '' more commits)'']
      else if TrimSpace line = [] then log_loop n out ls
      else log_loop n (out @ [truncateLine line 100]) ls)"

definition filterGitLog :: "string \<Rightarrow> string \<Rightarrow> string" where
  "filterGitLog raw cmd = Join (log_loop (length (split_lines raw)) [] (split_lines raw)) endl @ endl"

record diff_state =
  ds_out :: "string list"
  ds_file :: string
  ds_shown :: nat
  ds_skipped :: nat
  ds_added :: nat
  ds_removed :: nat

definition maxHunk :: nat where "maxHunk = 50"

definition truncated_notice :: "nat \<Rightarrow> string" where
  "truncated_notice n = ''  ... ('' @ show_nat n @ '' lines truncated)''"

definition totals_line :: "nat \<Rightarrow> nat \<Rightarrow> string" where
  "totals_line a r = ''  +'' @ show_nat a @ '' -'' @ show_nat r"

definition flush_skipped :: "diff_state \<Rightarrow> diff_state" where
  "flush_skipped st = (if ds_skipped st > 0
     then st\<lparr>ds_out := ds_out st @ [truncated_notice (ds_skipped st)], ds_skipped := 0\<rparr> else st)"

definition flush_totals :: "diff_state \<Rightarrow> diff_state" where
  "flush_totals st = (if ds_file st \<noteq> []
     then st\<lparr>ds_out := ds_out st @ [totals_line (ds_added st) (ds_removed st)], ds_added := 0, ds_removed := 0\<rparr> else st)"

definition file_of :: "string \<Rightarrow> string" where
  "file_of line = (let parts = SplitStr line '' b/'' in
     if length parts > 1 then last parts else TrimPrefix line ''diff --git '')"

definition show_or_skip :: "string \<Rightarrow> diff_state \<Rightarrow> diff_state" where
  "show_or_skip line st = (if ds_shown st < maxHunk
     then st\<lparr>ds_out := ds_out st @ [''  '' @ line], ds_shown := ds_shown st + 1\<rparr>
     else st\<lparr>ds_skipped := ds_skipped st + 1\<rparr>)"

definition added_line :: "string \<Rightarrow> bool" where "added_line l = (HasPrefix l ''+'' \<and> \<not> HasPrefix l ''+++'')"
definition removed_line :: "string \<Rightarrow> bool" where "removed_line l = (HasPrefix l ''-'' \<and> \<not> HasPrefix l ''---'')"

definition diff_line :: "diff_state \<Rightarrow> string \<Rightarrow> diff_state" where
  "diff_line st l =
     (let line = TrimRight l cr in
      if HasPrefix line ''diff --git'' then
        (let st1 = flush_totals (flush_skipped st); f = file_of line
         in st1\<lparr>ds_file := f, ds_out := ds_out st1 @ [[], f], ds_shown := 0\<rparr>)
      else if HasPrefix line ''@@'' then
        (let st1 = flush_skipped st in st1\<lparr>ds_shown := 0, ds_out := ds_out st1 @ [''  '' @ line]\<rparr>)
      else if added_line line then show_or_skip line (st\<lparr>ds_added := ds_added st + 1\<rparr>)
      else if removed_line line then show_or_skip line (st\<lparr>ds_removed := ds_removed st + 1\<rparr>)
      else if ds_shown st > 0 \<and> ds_shown st < maxHunk \<and> \<not> HasPrefix line [CHR 0x5C] then
        st\<lparr>ds_out := ds_out st @ [''  '' @ line], ds_shown := ds_shown st + 1\<rparr>
      else st)"

definition diff_init :: diff_state where
  "diff_init = \<lparr>ds_out = [], ds_file = [], ds_shown = 0, ds_skipped = 0, ds_added = 0, ds_removed = 0\<rparr>"

definition filterGitDiff :: "string \<Rightarrow> string \<Rightarrow> string" where
  "filterGitDiff raw cmd =
     (let st = flush_totals (flush_skipped (foldl diff_line diff_init (split_lines raw))) in
      if ds_out st = [] then ''no changes'' @ endl else Join (ds_out st) endl @ endl)"

definition filterGitShow :: "string \<Rightarrow> string \<Rightarrow> string" where
  "filterGitShow raw cmd = filterGitDiff raw cmd"

definition branch_line :: "string \<Rightarrow> string list" where
  "branch_line l =
     (let line = TrimSpace l in
      if line = [] then []
      else if HasPrefix line ''remotes/'' then
        (let rest = TrimPrefix line ''remotes/'' in
         case Index rest ''/'' of
           Some idx \<Rightarrow> (let branch = drop (idx + 1) rest in if HasPrefix branch ''HEAD '' then [] else [branch])
         | None \<Rightarrow> [])
      else [line])"

definition filterGitBranch :: "string \<Rightarrow> string \<Rightarrow> string" where
  "filterGitBranch raw cmd = Join (concat (map branch_line (split_lines raw))) endl @ endl"

definition filterGitAdd :: "string \<Rightarrow> string \<Rightarrow> string" where
  "filterGitAdd raw cmd =
     (if \<not> (\<exists>l \<in> set (split_lines raw). TrimSpace l \<noteq> []) then ''ok'' @ endl else ''ok'' @ endl)"

text \<open>The value of the first line for which a loop returns, else the default.\<close>

fun first_some :: "(string \<Rightarrow> string option) \<Rightarrow> string list \<Rightarrow> string option" where
  "first_some f [] = None"
| "first_some f (l # ls) = (case f l of Some r \<Rightarrow> Some r | None \<Rightarrow> first_some f ls)"

definition or_ok :: "string option \<Rightarrow> string" where
  "or_ok r = (case r of Some s \<Rightarrow> s | None \<Rightarrow> ''ok'' @ endl)"

definition commit_line :: "string \<Rightarrow> string option" where
  "commit_line line =
     (if HasPrefix line ''['' then
        (case Index line '']'' of
           Some e \<Rightarrow>
             if e > 0 then
               (let fields = Fields (take (e - 1) (drop 1 line)) in
                if length fields \<ge> 2 \<and> length (last fields) \<ge> 7 then Some (''ok '' @ take 7 (last fields) @ endl) else None)
             else None
         | None \<Rightarrow> None)
      else None)"

definition filterGitCommit :: "string \<Rightarrow> string \<Rightarrow> string" where
  "filterGitCommit raw cmd = or_ok (first_some commit_line (split_lines raw))"

fun arrow_dest :: "string list \<Rightarrow> string option" where
  "arrow_dest (p # q # ps) = (if p = ''->'' then Some q else arrow_dest (q # ps))"
| "arrow_dest _ = None"

definition push_line :: "string \<Rightarrow> string option" where
  "push_line line =
     (case (if Contains line ''->'' then arrow_dest (Fields line) else None) of
        Some d \<Rightarrow> Some (''ok '' @ TrimRight d '':'' @ endl)
      | None \<Rightarrow> if Contains line ''Everything up-to-date'' then Some (''ok (up-to-date)'' @ endl) else None)"

definition filterGitPush :: "string \<Rightarrow> string \<Rightarrow> string" where
  "filterGitPush raw cmd = or_ok (first_some push_line (split_lines raw))"

definition filterGitPull :: "string \<Rightarrow> string \<Rightarrow> string" where
  "filterGitPull raw cmd =
     (if Contains raw ''Already up to date'' \<or> Contains raw ''Already up-to-date'' then ''ok (up-to-date)'' @ endl
      else or_ok (first_some (\<lambda>line. if Contains line ''file'' \<and> Contains line ''changed''
                                     then Some (TrimSpace line @ endl) else None) (split_lines raw)))"

text \<open>The text between the last two apostrophes; from the start if there is only one.\<close>

definition last_quoted :: "string \<Rightarrow> string option" where
  "last_quoted line = (case last_index (\<lambda>c. c = CHR 0x27) line of
     Some idx \<Rightarrow>
       if idx > 0 then
         (case last_index (\<lambda>c. c = CHR 0x27) (take idx line) of
            Some j \<Rightarrow> Some (drop (j + 1) (take idx line))
          | None \<Rightarrow> Some (take idx line))
       else None
   | None \<Rightarrow> None)"

definition checkout_line :: "string \<Rightarrow> string option" where
  "checkout_line l =
     (let line = TrimSpace l;
          try = (\<lambda>p suffix. if HasPrefix line p then map_option (\<lambda>b. ''ok '' @ b @ suffix @ endl) (last_quoted line) else None)
      in case try ''Switched to a new branch'' '' (new)'' of Some r \<Rightarrow> Some r
       | None \<Rightarrow> (case try ''Switched to branch'' [] of Some r \<Rightarrow> Some r
       | None \<Rightarrow> (case try ''Already on'' [] of Some r \<Rightarrow> Some r
       | None \<Rightarrow>
           if HasPrefix line ''HEAD is now at'' \<and> length (Fields line) \<ge> 5
           then Some (''ok HEAD '' @ Fields line ! 3 @ endl) else None)))"

definition filterGitCheckout :: "string \<Rightarrow> string \<Rightarrow> string" where
  "filterGitCheckout raw cmd = or_ok (first_some checkout_line (split_lines raw))"

definition filterGitGeneric :: "string \<Rightarrow> string \<Rightarrow> string" where
  "filterGitGeneric raw cmd = (if TrimSpace raw = [] then ''ok'' @ endl else raw)"

subsection \<open>Listings (ls.go)\<close>

definition noiseDirs :: "string list" where
  "noiseDirs = [''node_modules'', ''.git'', ''target'', ''__pycache__'', ''.next'', ''dist'', ''build'',
     ''.cache'', ''.turbo'', ''.vercel'', ''.pytest_cache'', ''.venv'', ''venv'', ''env'', ''coverage'',
     ''.nyc_output'', ''.DS_Store'', ''Thumbs.db'', ''.idea'', ''.vscode'', ''.vs'']"

definition m_month :: "string \<Rightarrow> string option" where
  "m_month s = (if (\<exists>m \<in> set [''Jan'', ''Feb'', ''Mar'', ''Apr'', ''May'', ''Jun'', ''Jul'', ''Aug'', ''Sep'', ''Oct'', ''Nov'', ''Dec''].
     HasPrefix s m) then Some (drop 3 s) else None)"

definition m_day :: "string \<Rightarrow> string option" where
  "m_day s = (case m_digits 2 s of Some t \<Rightarrow> Some t | None \<Rightarrow> m_digits 1 s)"

definition m_year_or_time :: "string \<Rightarrow> string option" where
  "m_year_or_time s = (case m_digits 4 s of
     Some t \<Rightarrow> Some t
   | None \<Rightarrow> do { s1 \<leftarrow> m_digits 2 s; s2 \<leftarrow> m_lit '':'' s1; m_digits 2 s2 })"

definition lsDateRE :: "string \<Rightarrow> string option" where
  "lsDateRE s = do { s1 \<leftarrow> m_many1 re_space s; s2 \<leftarrow> m_month s1; s3 \<leftarrow> m_many1 re_space s2; s4 \<leftarrow> m_day s3;
     s5 \<leftarrow> m_many1 re_space s4; s6 \<leftarrow> m_year_or_time s5; m_many1 re_space s6 }"

text \<open>\<open>fmt.Sscanf(tok, "%d", &rawSize)\<close> for a 64-bit unsigned target: the leading digits.\<close>

definition scan_uint :: "string \<Rightarrow> nat option" where
  "scan_uint tok = (let d = takeWhile is_digit tok in if d \<noteq> [] \<and> read_nat d < 2 ^ 64 then Some (read_nat d) else None)"

fun last_number :: "string list \<Rightarrow> nat" where
  "last_number [] = 0"
| "last_number (t # ts) = (case scan_uint t of Some n \<Rightarrow> n | None \<Rightarrow> last_number ts)"

definition parseLSLine :: "string \<Rightarrow> (char \<times> string \<times> string) option" where
  "parseLSLine line = (case find_match lsDateRE 0 line of
     None \<Rightarrow> None
   | Some (i, rest) \<Rightarrow>
       (let cols = Fields (take i line) in
        if length cols < 4 then None
        else Some (hd (hd cols), TrimSpace rest, humanSize (last_number (rev cols)))))"

definition isDotDir :: "string \<Rightarrow> bool" where
  "isDotDir line = (let t = TrimSpace line in t = ''.'' \<or> t = ''..'' \<or> HasSuffix t '' .'' \<or> HasSuffix t '' ..'')"

record ls_state =
  lss_dirs :: "string list"
  lss_files :: "(string \<times> string) list"
  lss_ext :: "(string \<times> nat) list"
  lss_parsed :: nat

definition bump :: "string \<Rightarrow> (string \<times> nat) list \<Rightarrow> (string \<times> nat) list" where
  "bump k m = AList.update k (Suc (case map_of m k of Some n \<Rightarrow> n | None \<Rightarrow> 0)) m"

definition ext_of :: "string \<Rightarrow> string" where
  "ext_of name = (case last_index (\<lambda>c. c = CHR ''.'') name of Some i \<Rightarrow> drop i name | None \<Rightarrow> ''(no ext)'')"

definition ls_line :: "bool \<Rightarrow> ls_state \<Rightarrow> string \<Rightarrow> ls_state" where
  "ls_line showAll st l =
     (let line = TrimRight l cr in
      if line = [] \<or> HasPrefix line ''total '' \<or> HasPrefix line ''  '' then st
      else if isDotDir line then st
      else case parseLSLine line of
        None \<Rightarrow> st
      | Some (ft, name, sz) \<Rightarrow>
          let st1 = st\<lparr>lss_parsed := lss_parsed st + 1\<rparr> in
          if \<not> showAll \<and> name \<in> set noiseDirs then st1
          else if ft = CHR ''d'' then st1\<lparr>lss_dirs := lss_dirs st1 @ [name]\<rparr>
          else st1\<lparr>lss_ext := bump (ext_of name) (lss_ext st1), lss_files := lss_files st1 @ [(name, sz)]\<rparr>)"

definition ext_summary :: "((string \<times> nat) list \<Rightarrow> (string \<times> nat) list) \<Rightarrow> (string \<times> nat) list \<Rightarrow> string" where
  "ext_summary iter m =
     (if m = [] then []
      else let entries = sortByValueDesc iter m; n = minInt 5 (length entries);
               parts = map (\<lambda>(k, v). show_nat v @ '' '' @ k) (take n entries)
           in '' ('' @ Join parts '', '' @ '')''
              @ (if length entries > n then '', +'' @ show_nat (length entries - n) @ '' more'' else []) @ '')'')"

definition compactLS :: "((string \<times> nat) list \<Rightarrow> (string \<times> nat) list) \<Rightarrow> string \<Rightarrow> bool \<Rightarrow> string \<times> string" where
  "compactLS iter raw showAll =
     (let st = foldl (ls_line showAll) \<lparr>lss_dirs = [], lss_files = [], lss_ext = [], lss_parsed = 0\<rparr> (split_lines raw) in
      if lss_dirs st = [] \<and> lss_files st = [] then
        (if lss_parsed st = 0 then ([], []) else (''(empty)'' @ endl, []))
      else
        (concat (map (\<lambda>d. d @ ''/'' @ endl) (lss_dirs st)) @ concat (map (\<lambda>(n, s). n @ ''  '' @ s @ endl) (lss_files st)),
         endl @ ''Summary: '' @ show_nat (length (lss_files st)) @ '' files, '' @ show_nat (length (lss_dirs st)) @ '' dirs''
           @ ext_summary iter (lss_ext st) @ endl))"

definition filterLS :: "((string \<times> nat) list \<Rightarrow> (string \<times> nat) list) \<Rightarrow> string \<Rightarrow> string \<Rightarrow> string" where
  "filterLS iter raw cmd =
     (let showAll = Contains cmd '' -a'' \<or> Contains cmd '' --all'' \<or> Contains cmd ''/a'' in
      case compactLS iter raw showAll of (entries, summary) \<Rightarrow> if entries = [] then raw else entries @ summary)"

subsection \<open>The registry (filter.go)\<close>

type_synonym filter_func = "string \<Rightarrow> string \<Rightarrow> string"

definition Register :: "(string \<times> filter_func) list \<Rightarrow> string \<Rightarrow> filter_func \<Rightarrow> (string \<times> filter_func) list" where
  "Register fs p fn = fs @ [(p, fn)]"

definition trimExe :: "string \<Rightarrow> string" where
  "trimExe cmd = (if length cmd > 4 \<and> drop (length cmd - 4) cmd = ''.exe'' then take (length cmd - 4) cmd else cmd)"

definition hasPrefix_cmd :: "string \<Rightarrow> string \<Rightarrow> bool" where
  "hasPrefix_cmd cmd p = (let c = trimExe cmd in length c \<ge> length p \<and> take (length p) c = p)"

definition filter_Run :: "(string \<times> filter_func) list \<Rightarrow> string \<Rightarrow> string \<Rightarrow> string" where
  "filter_Run fs raw command = (case find (\<lambda>(p, _). hasPrefix_cmd command p) fs of
     Some (_, fn) \<Rightarrow> fn raw command
   | None \<Rightarrow> noopFilter raw command)"

text \<open>The registrations of the two init functions; \<open>git.go\<close> comes before \<open>ls.go\<close>.\<close>

definition git_filters :: "(string \<times> filter_func) list" where
  "git_filters = foldl (\<lambda>fs (p, f). Register fs p f) []
     [(''git status'', filterGitStatus), (''git log'', filterGitLog), (''git diff'', filterGitDiff),
      (''git show'', filterGitShow), (''git branch'', filterGitBranch), (''git add'', filterGitAdd),
      (''git commit'', filterGitCommit), (''git push'', filterGitPush), (''git pull'', filterGitPull),
      (''git checkout'', filterGitCheckout), (''git stash'', filterGitGeneric), (''git fetch'', filterGitGeneric),
      (''git merge'', filterGitGeneric), (''git rebase'', filterGitGeneric)]"

definition default_filters :: "((string \<times> nat) list \<Rightarrow> (string \<times> nat) list) \<Rightarrow> (string \<times> filter_func) list" where
  "default_filters iter = Register (Register git_filters ''ls'' (filterLS iter)) ''dir'' (filterLS iter)"

subsection \<open>Lemmas\<close>

fun runs :: "string list \<Rightarrow> (string \<times> nat) list" where
  "runs [] = []"
| "runs (x # xs) = (case runs xs of
     (y, n) # r \<Rightarrow> if x = y then (y, Suc n) # r else (x, 1) # (y, n) # r
   | [] \<Rightarrow> [(x, 1)])"

lemma runs_nonempty: "xs \<noteq> [] \<Longrightarrow> \<exists>n r. runs xs = (hd xs, Suc n) # r"
  by (induction xs) (auto split: list.splits)

lemma runs_expand: "concat (map (\<lambda>(l, n). replicate n l) (runs xs)) = xs"
proof (induction xs)
  case (Cons x xs)
  then show ?case by (cases "runs xs") (auto split: prod.splits)
qed simp

lemma runs_adjacent: "successively (\<lambda>a b. fst a \<noteq> fst b) (runs xs)"
proof (induction xs)
  case (Cons x xs)
  then show ?case by (cases "runs xs") (auto simp: successively_Cons split: prod.splits if_splits)
qed simp

lemma dedup_loop_runs:
  "dedup_loop prev n ls = (case runs (prev # ls) of (p, k) # r \<Rightarrow> dedup_item prev (n + k - 1) # map (\<lambda>(l, n). dedup_item l n) r | [] \<Rightarrow> [])"
proof (induction prev n ls rule: dedup_loop.induct)
  case (2 prev n line ls)
  obtain k r where k: "runs (line # ls) = (line, Suc k) # r" using runs_nonempty [of "line # ls"] by auto
  show ?case
  proof (cases "line = prev")
    case True
    with 2 k show ?thesis by (auto split: list.splits)
  next
    case False
    with 2 k show ?thesis by (auto split: list.splits)
  qed
qed simp

lemma sort_inner_mset: "add_mset (fst (sort_inner x ys)) (mset (snd (sort_inner x ys))) = add_mset x (mset ys)"
  by (induction x ys rule: sort_inner.induct) (auto split: prod.splits)

lemma sort_inner_max: "\<forall>y \<in> insert x (set ys). snd y \<le> snd (fst (sort_inner x ys))"
  by (induction x ys rule: sort_inner.induct) (fastforce split: prod.splits)+

lemma sort_outer_mset: "mset (sort_outer xs) = mset xs"
  by (induction xs rule: sort_outer.induct) (simp_all add: sort_inner_mset)

lemma sort_outer_sorted: "sorted_wrt (\<lambda>a b. snd a \<ge> snd b) (sort_outer xs)"
proof (induction xs rule: sort_outer.induct)
  case (2 x xs)
  have "set (sort_outer (snd (sort_inner x xs))) = set (snd (sort_inner x xs))"
    using sort_outer_mset mset_eq_setD by blast
  moreover have "set (snd (sort_inner x xs)) \<subseteq> insert x (set xs)"
    using arg_cong [OF sort_inner_mset [of x xs], of set_mset] by auto
  ultimately show ?case using 2 sort_inner_max [of x xs] by auto
qed simp

text \<open>What a line that is no file header does to the counters.\<close>

lemma diff_flush [simp]:
  "ds_added (flush_skipped st) = ds_added st" "ds_removed (flush_skipped st) = ds_removed st"
  "ds_file (flush_skipped st) = ds_file st" "ds_added (show_or_skip l st) = ds_added st"
  "ds_removed (show_or_skip l st) = ds_removed st" "ds_file (show_or_skip l st) = ds_file st"
  by (simp_all add: flush_skipped_def show_or_skip_def)

lemma diff_line_counts:
  assumes "\<not> HasPrefix (TrimRight l cr) ''diff --git''"
  shows "ds_file (diff_line st l) = ds_file st"
    "ds_added (diff_line st l) = ds_added st + (if added_line (TrimRight l cr) then 1 else 0)"
    "ds_removed (diff_line st l) = ds_removed st + (if removed_line (TrimRight l cr) then 1 else 0)"
  using assms by (auto simp: diff_line_def Let_def added_line_def removed_line_def go_strings)

lemma diff_body_counts:
  assumes "\<forall>l \<in> set ls. \<not> HasPrefix (TrimRight l cr) ''diff --git''"
  shows "ds_file (foldl diff_line st ls) = ds_file st
    \<and> ds_added (foldl diff_line st ls) = ds_added st + length (filter (\<lambda>l. added_line (TrimRight l cr)) ls)
    \<and> ds_removed (foldl diff_line st ls) = ds_removed st + length (filter (\<lambda>l. removed_line (TrimRight l cr)) ls)"
  using assms
proof (induction ls arbitrary: st)
  case (Cons l ls)
  then show ?case using diff_line_counts [of l st] by simp
qed simp

definition diff_inv :: "diff_state \<Rightarrow> bool" where
  "diff_inv st \<longleftrightarrow> ds_shown st \<le> maxHunk \<and> (ds_skipped st > 0 \<longrightarrow> ds_shown st = maxHunk)"

lemma diff_inv_line: "diff_inv st \<Longrightarrow> diff_inv (diff_line st l)"
  by (auto simp: diff_inv_def diff_line_def Let_def flush_skipped_def flush_totals_def show_or_skip_def)

lemma Join_last: "xs \<noteq> [] \<Longrightarrow> \<exists>h. Join (xs @ [y]) sep = h @ sep @ y"
proof (induction xs)
  case (Cons x xs)
  show ?case
  proof (cases "xs = []")
    case False
    then obtain h where "Join (xs @ [y]) sep = h @ sep @ y" using Cons by blast
    then have "Join ((x # xs) @ [y]) sep = (x @ sep @ h) @ sep @ y" using False by (cases xs) auto
    then show ?thesis by blast
  qed auto
qed simp

lemma diff_reach_inv: "diff_inv (foldl diff_line diff_init ls)"
  by (induction ls rule: rev_induct) (simp_all add: diff_inv_line, simp add: diff_inv_def diff_init_def)

definition header_line :: "string \<Rightarrow> bool" where
  "header_line l = HasPrefix (TrimRight l cr) ''diff --git''"

definition change_line :: "string \<Rightarrow> bool" where
  "change_line l = (added_line (TrimRight l cr) \<or> removed_line (TrimRight l cr))"

text \<open>Counters are zero as long as no file is open, if changes only follow a header.\<close>

lemma no_file_no_counts:
  assumes "list_all (\<lambda>l. header_line l \<longrightarrow> file_of (TrimRight l cr) \<noteq> []) ls"
    and "list_all (\<lambda>l. \<not> change_line l) (takeWhile (\<lambda>l. \<not> header_line l) ls)"
  shows "ds_file (foldl diff_line diff_init ls) = [] \<Longrightarrow>
    ds_added (foldl diff_line diff_init ls) = 0 \<and> ds_removed (foldl diff_line diff_init ls) = 0"
  using assms
proof (induction ls rule: rev_induct)
  case (snoc l ls)
  let ?st = "foldl diff_line diff_init ls"
  show ?case
  proof (cases "header_line l")
    case True
    then have "ds_file (diff_line ?st l) = file_of (TrimRight l cr)" by (simp add: header_line_def diff_line_def Let_def)
    with True snoc.prems show ?thesis by simp
  next
    case False
    then have nf: "ds_file ?st = []" using snoc.prems(1) diff_line_counts(1) [of l ?st] by (simp add: header_line_def)
    have nh: "\<forall>x \<in> set ls. \<not> header_line x"
    proof (rule ccontr)
      assume "\<not> (\<forall>x \<in> set ls. \<not> header_line x)"
      then have "ds_file ?st \<noteq> []" using snoc.prems(2)
      proof (induction ls rule: rev_induct)
        case (snoc y ys)
        show ?case
        proof (cases "header_line y")
          case True
          then have "ds_file (diff_line (foldl diff_line diff_init ys) y) = file_of (TrimRight y cr)"
            by (simp add: header_line_def diff_line_def Let_def)
          with True snoc.prems(2) show ?thesis by simp
        next
          case False
          with snoc show ?thesis by (simp add: header_line_def diff_line_counts(1))
        qed
      qed simp
      with nf show False by simp
    qed
    then have w: "takeWhile (\<lambda>l. \<not> header_line l) (ls @ [l]) = ls @ [l]" "takeWhile (\<lambda>l. \<not> header_line l) ls = ls"
      using False by (simp_all add: takeWhile_eq_all_conv)
    have nc: "list_all (\<lambda>l. \<not> change_line l) (takeWhile (\<lambda>l. \<not> header_line l) ls)" "\<not> change_line l"
      using snoc.prems(3) unfolding w by simp_all
    have "ds_added ?st = 0 \<and> ds_removed ?st = 0" using snoc.IH [OF nf _ nc(1)] snoc.prems(2) by simp
    with nc(2) False show ?thesis by (simp add: diff_line_counts(2,3) header_line_def change_line_def)
  qed
qed (simp add: diff_init_def)

lemma log_loop_bounds:
  assumes "length out \<le> 10" and "list_all (\<lambda>l. length (runes l) \<le> 100) out"
  shows "length (log_loop n out ls) \<le> 11 \<and> list_all (\<lambda>l. length (runes l) \<le> 100) (take 10 (log_loop n out ls))"
proof -
  have t: "length (runes (truncateLine line 100)) \<le> 100" for line
  proof -
    have "list_all scalar (take 97 (runes line))"
      using runes_scalar [of line] by (auto simp: list_all_iff dest: in_set_takeD)
    then have "runes (concat (map encode_rune (take 97 (runes line))) @ ''...'') = take 97 (runes line) @ runes ''...''"
      by (rule runes_encode_all)
    moreover have "length (runes ''...'') = 3" by (subst runes_ascii) (simp_all add: byte_order)
    ultimately show ?thesis by (simp add: truncateLine_def)
  qed
  from assms show ?thesis
    by (induction n out ls rule: log_loop.induct) (auto simp: Let_def t list_all_iff dest: in_set_takeD)
qed

subsection \<open>Properties\<close>

text \<open>Collapsing repeated lines is exactly run-length compression: the lines split uniquely into runs
  of equal neighbours, a run of one is kept and a longer run becomes a notice with its length.\<close>

theorem dedup_is_run_length:
  "\<exists>rs. concat (map (\<lambda>(l, n). replicate n l) rs) = ls \<and> successively (\<lambda>a b. fst a \<noteq> fst b) rs
     \<and> dedupLines ls = map (\<lambda>(l, n). dedup_item l n) rs"
proof (intro exI conjI)
  show "dedupLines ls = map (\<lambda>(l, n). dedup_item l n) (runs ls)"
  proof (cases ls)
    case (Cons l r)
    then obtain k t where "runs ls = (l, Suc k) # t" using runs_nonempty [of ls] by auto
    with Cons show ?thesis by (simp add: dedupLines_def dedup_loop_runs)
  qed (simp add: dedupLines_def)
qed (rule runs_expand, rule runs_adjacent)

text \<open>The extension summary is sorted: whatever order Go iterates over the map in, the exchange sort
  returns its entries with descending counts, each entry once.\<close>

theorem extensions_sorted:
  assumes "mset (iter m) = mset m"
  shows "sorted_wrt (\<lambda>a b. snd a \<ge> snd b) (sortByValueDesc iter m) \<and> mset (sortByValueDesc iter m) = mset m"
  using assms by (simp add: sortByValueDesc_def sort_outer_sorted sort_outer_mset)

theorem extensions_sorted_witness:
  "mset (sortByValueDesc rev [(''.go'', 1), (''.md'', 3)]) = {#(''.go'', 1), (''.md'', 3)#}"
  using extensions_sorted [of rev "[(''.go'', 1), (''.md'', 3)]"] by simp

text \<open>The totals of a diff are exact: in a diff whose file headers name a file and that has no change
  line before the first header, the output ends with the number of added and removed lines that follow
  the last header, however many of them were cut from the output.\<close>

theorem git_diff_totals:
  assumes "split_lines raw = pre @ h # body" and "header_line h" and "list_all (\<lambda>l. \<not> header_line l) body"
    and "list_all (\<lambda>l. header_line l \<longrightarrow> file_of (TrimRight l cr) \<noteq> []) (pre @ [h])"
    and "list_all (\<lambda>l. \<not> change_line l) (takeWhile (\<lambda>l. \<not> header_line l) pre)"
  shows "\<exists>t. filterGitDiff raw cmd = t @ totals_line (length (filter (\<lambda>l. added_line (TrimRight l cr)) body))
      (length (filter (\<lambda>l. removed_line (TrimRight l cr)) body)) @ endl"
proof -
  let ?p = "foldl diff_line diff_init pre"
  let ?h = "diff_line ?p h" and ?e = "foldl diff_line (diff_line ?p h) body"
  have f: "ds_file ?h = file_of (TrimRight h cr)" "file_of (TrimRight h cr) \<noteq> []"
    using assms(2,4) by (simp_all add: header_line_def diff_line_def Let_def)
  have z: "ds_added ?h = 0 \<and> ds_removed ?h = 0"
    using no_file_no_counts [of pre] assms(2,4,5)
    by (auto simp: header_line_def diff_line_def Let_def flush_totals_def)
  have c: "ds_file ?e = ds_file ?h" "ds_added ?e = length (filter (\<lambda>l. added_line (TrimRight l cr)) body)"
    "ds_removed ?e = length (filter (\<lambda>l. removed_line (TrimRight l cr)) body)"
    using diff_body_counts [of body ?h] assms(3) z by (auto simp: header_line_def list_all_iff)
  let ?s = "flush_skipped ?e"
  have o: "ds_out (flush_totals ?s) = ds_out ?s @ [totals_line (ds_added ?e) (ds_removed ?e)]"
    using c(1) f by (simp add: flush_totals_def)
  have "\<exists>t. Join (ds_out ?s @ [totals_line (ds_added ?e) (ds_removed ?e)]) endl = t @ totals_line (ds_added ?e) (ds_removed ?e)"
  proof (cases "ds_out ?s = []")
    case False
    from Join_last [OF False, of "totals_line (ds_added ?e) (ds_removed ?e)" endl] show ?thesis by (metis append.assoc)
  qed simp
  then obtain t where "Join (ds_out ?s @ [totals_line (ds_added ?e) (ds_removed ?e)]) endl = t @ totals_line (ds_added ?e) (ds_removed ?e)"
    by blast
  with assms(1) o c(2,3) show ?thesis by (intro exI [of _ t]) (simp add: filterGitDiff_def)
qed

theorem git_diff_totals_witness:
  "\<exists>t. filterGitDiff (''diff --git a/x b/x'' @ endl @ ''+1'' @ endl @ ''+2'' @ endl @ ''-3'') [] = t @ ''  +2 -1'' @ endl"
proof -
  let ?raw = "''diff --git a/x b/x'' @ endl @ ''+1'' @ endl @ ''+2'' @ endl @ ''-3''"
  have s: "split_lines ?raw = [] @ ''diff --git a/x b/x'' # [''+1'', ''+2'', ''-3'']" by simp
  have h: "header_line ''diff --git a/x b/x''" "list_all (\<lambda>l. \<not> header_line l) [''+1'', ''+2'', ''-3'']"
    "list_all (\<lambda>l. header_line l \<longrightarrow> file_of (TrimRight l cr) \<noteq> []) ([] @ [''diff --git a/x b/x''])"
    "list_all (\<lambda>l. \<not> change_line l) (takeWhile (\<lambda>l. \<not> header_line l) [])"
    by (simp_all add: header_line_def TrimRight_def file_of_def SplitStr.simps)
  have "length (filter (\<lambda>l. added_line (TrimRight l cr)) [''+1'', ''+2'', ''-3'']) = 2"
    "length (filter (\<lambda>l. removed_line (TrimRight l cr)) [''+1'', ''+2'', ''-3'']) = 1"
    by (simp_all add: added_line_def removed_line_def TrimRight_def)
  with git_diff_totals [OF s h, of "[]"] show ?thesis
    by (simp add: totals_line_def show_nat.simps digit_char_def char_of_def bit_0)
qed

text \<open>The git log filter bounds its output: at most ten commits of at most 100 characters each and
  one notice, whatever the length of the log.\<close>

theorem git_log_bounded:
  "\<exists>ls. filterGitLog raw cmd = Join ls endl @ endl \<and> length ls \<le> 11 \<and> list_all (\<lambda>l. length (runes l) \<le> 100) (take 10 ls)"
  using log_loop_bounds [of "[]" "length (split_lines raw)" "split_lines raw"] unfolding filterGitLog_def by auto

end
