(* ===== verification/Terminal.thy ===== *)
theory Terminal
  imports OutputFilter Chain "HOL-Library.AList"
begin

section \<open>Shell commands (tools/cache.go, tools/interceptor.go, tools/terminal.go)\<close>

text \<open>
  \<open>RunTerminal\<close> answers a command from the cache of recent results or runs it: the registered interceptors
  see and may rewrite or stop the command, the operating system runs it, the interceptors see the result, and
  the output filter of the command shortens what is returned. The two package variables \<open>cmdCache\<close> and
  \<open>globalRegistry\<close> are the state \<open>Terminal\<close>. The cache is an association list with distinct keys; the key that
  Go's map iteration happens to yield first is chosen by the argument \<open>victim\<close>. The operating system (processes,
  temporary files, the clock) acts on a world of type \<open>'s\<close> and is the record \<open>term_env\<close>.
\<close>

subsection \<open>The command cache (tools/cache.go)\<close>

record cacheEntry =
  ce_result :: string
  ce_timestamp :: int

type_synonym cmd_cache = "(string \<times> cacheEntry) list"

definition cacheTTL_default :: int where "cacheTTL_default = 30 * 10 ^ 9"

definition cacheablePrefixes :: "string list" where
  "cacheablePrefixes = [''ls'', ''dir'', ''git status'', ''git log'', ''git diff'', ''git branch'',
     ''git stash list'', ''git tag'', ''where'', ''which'', ''type'', ''echo'',
     ''more'', ''help'', ''ver'', ''systeminfo'', ''tasklist'']"

definition writePrefixes :: "string list" where
  "writePrefixes = [''git add'', ''git commit'', ''git push'', ''git pull'', ''git checkout'',
     ''git merge'', ''git rebase'', ''git reset'', ''git rm'', ''git clean'',
     ''git stash push'', ''git stash drop'', ''git tag -d'', ''git branch -d'',
     ''git branch -D'', ''mkdir'', ''rmdir'', ''del'', ''copy'', ''move'',
     ''ren'', ''attrib'', ''icacls'', ''takeown'']"

text \<open>The value of \<open>CACHE_TTL\<close>, with what \<open>time.ParseDuration\<close> makes of it.\<close>

definition cache_init :: "(string \<Rightarrow> int option) \<Rightarrow> string \<Rightarrow> int" where
  "cache_init ParseDuration t =
     (if t \<noteq> [] then (case ParseDuration t of Some d \<Rightarrow> d | None \<Rightarrow> cacheTTL_default) else cacheTTL_default)"

definition lookupCache :: "int \<Rightarrow> int \<Rightarrow> cmd_cache \<Rightarrow> string \<Rightarrow> cmd_cache \<times> string option" where
  "lookupCache ttl now cache cmd =
     (case map_of cache cmd of
        None \<Rightarrow> (cache, None)
      | Some entry \<Rightarrow>
          if now - ce_timestamp entry > ttl then (AList.delete cmd cache, None)
          else (cache, Some (ce_result entry)))"

definition evict :: "nat \<Rightarrow> cmd_cache \<Rightarrow> cmd_cache" where
  "evict victim cache = AList.delete (fst (cache ! (victim mod length cache))) cache"

definition storeCache :: "nat \<Rightarrow> int \<Rightarrow> cmd_cache \<Rightarrow> string \<Rightarrow> string \<Rightarrow> cmd_cache" where
  "storeCache victim now cache cmd result =
     AList.update cmd \<lparr>ce_result = result, ce_timestamp = now\<rparr>
       (if length cache > 200 then evict victim cache else cache)"

definition isCacheable :: "(nat \<Rightarrow> nat) \<Rightarrow> string \<Rightarrow> bool" where
  "isCacheable low cmd =
     (let lower = ToLower_utf8 low (TrimSpace cmd) in
      if list_ex (HasPrefix lower) writePrefixes then False
      else list_ex (HasPrefix lower) cacheablePrefixes)"

subsection \<open>Interceptors (tools/interceptor.go)\<close>

record CommandContext =
  cc_Command :: string
  cc_SessionID :: string

record CommandResult =
  cr_Output :: string
  cr_Err :: "gerror option"

record 's Interceptor =
  ic_Name :: string
  ic_Before :: "'s \<Rightarrow> CommandContext \<Rightarrow> 's \<times> CommandContext \<times> gerror option"
  ic_After :: "'s \<Rightarrow> CommandContext \<Rightarrow> CommandResult \<Rightarrow> 's \<times> CommandResult \<times> gerror option"

definition RegisterInterceptor :: "'s Interceptor list \<Rightarrow> 's Interceptor option \<Rightarrow> 's Interceptor list" where
  "RegisterInterceptor items i = (case i of None \<Rightarrow> items | Some k \<Rightarrow> items @ [k])"

definition ClearInterceptors :: "'s Interceptor list \<Rightarrow> 's Interceptor list" where
  "ClearInterceptors items = []"

text \<open>With an error the caller gets the context as the failing interceptor returned it.\<close>

fun RunBeforeInterceptors :: "'s Interceptor list \<Rightarrow> 's \<Rightarrow> CommandContext \<Rightarrow> 's \<times> (CommandContext \<times> gerror + CommandContext)" where
  "RunBeforeInterceptors [] s cmd = (s, Inr cmd)"
| "RunBeforeInterceptors (i # is) s cmd =
     (case ic_Before i s cmd of (s1, cmd1, err) \<Rightarrow>
        (case err of Some e \<Rightarrow> (s1, Inl (cmd1, e)) | None \<Rightarrow> RunBeforeInterceptors is s1 cmd1))"

fun RunAfterInterceptors :: "'s Interceptor list \<Rightarrow> 's \<Rightarrow> CommandContext \<Rightarrow> CommandResult \<Rightarrow> 's \<times> CommandResult" where
  "RunAfterInterceptors [] s cmd result = (s, result)"
| "RunAfterInterceptors (i # is) s cmd result =
     (case ic_After i s cmd result of (s1, result1, err) \<Rightarrow>
        (case err of Some e \<Rightarrow> (s1, result1\<lparr>cr_Err := Some e\<rparr>) | None \<Rightarrow> RunAfterInterceptors is s1 cmd result1))"

text \<open>Both loops are chains: the second one with the failure kept in the result.\<close>

definition before_interceptor :: "'s Interceptor \<Rightarrow> 's \<Rightarrow> CommandContext \<Rightarrow> 's \<times> (CommandContext \<times> gerror + CommandContext)" where
  "before_interceptor i s cmd = (case ic_Before i s cmd of (s1, cmd1, err) \<Rightarrow>
     (s1, case err of Some e \<Rightarrow> Inl (cmd1, e) | None \<Rightarrow> Inr cmd1))"

interpretation before_interceptors: fallible_chain before_interceptor RunBeforeInterceptors
  by unfold_locales (auto simp: before_interceptor_def split: prod.splits option.splits)

definition after_interceptor :: "CommandContext \<Rightarrow> 's Interceptor \<Rightarrow> 's \<Rightarrow> CommandResult \<Rightarrow> 's \<times> (CommandResult + CommandResult)" where
  "after_interceptor cmd i s res = (case ic_After i s cmd res of (s1, res1, err) \<Rightarrow>
     (s1, case err of Some e \<Rightarrow> Inl (res1\<lparr>cr_Err := Some e\<rparr>) | None \<Rightarrow> Inr res1))"

fun after_chain :: "CommandContext \<Rightarrow> 's Interceptor list \<Rightarrow> 's \<Rightarrow> CommandResult \<Rightarrow> 's \<times> (CommandResult + CommandResult)" where
  "after_chain cmd [] s res = (s, Inr res)"
| "after_chain cmd (i # is) s res = (case after_interceptor cmd i s res of (s1, r) \<Rightarrow>
     (case r of Inl e \<Rightarrow> (s1, Inl e) | Inr b \<Rightarrow> after_chain cmd is s1 b))"

interpretation after_interceptors: fallible_chain "after_interceptor cmd" "after_chain cmd" for cmd
  by unfold_locales auto

lemma RunAfterInterceptors_chain:
  "RunAfterInterceptors is s cmd res = (case after_chain cmd is s res of (s1, r) \<Rightarrow> (s1, case r of Inl e \<Rightarrow> e | Inr b \<Rightarrow> b))"
  by (induction "is" arbitrary: s res) (auto simp: after_interceptor_def split: prod.splits option.splits)

subsection \<open>Running a command (tools/terminal.go)\<close>

record 's term_env =
  te_exec :: "'s \<Rightarrow> string \<Rightarrow> string list \<Rightarrow> 's \<times> string \<times> gerror option"
  te_openDrive :: "'s \<Rightarrow> 's \<times> gerror option"
  te_CreateTemp :: "'s \<Rightarrow> 's \<times> (gerror + string)"
  te_ReadFile :: "'s \<Rightarrow> string \<Rightarrow> gerror + string"
  te_Remove :: "'s \<Rightarrow> string \<Rightarrow> 's"
  te_now :: "'s \<Rightarrow> int"
  te_lower :: "nat \<Rightarrow> nat"
  te_victim :: "'s \<Rightarrow> nat"

record 's Terminal =
  cmdCache :: cmd_cache
  cacheTTL :: int
  term_items :: "'s Interceptor list"

definition runCmd :: "'s term_env \<Rightarrow> 's \<Rightarrow> string \<Rightarrow> string list \<Rightarrow> 's \<times> string \<times> gerror option" where
  "runCmd env s name args = te_exec env s name args"

definition isAccessDenied :: "(nat \<Rightarrow> nat) \<Rightarrow> gerror option \<Rightarrow> bool" where
  "isAccessDenied low err = (case err of None \<Rightarrow> False | Some e \<Rightarrow>
     (let msg = ToLower_utf8 low (error_string e) in
      Contains msg ''access is denied'' \<or> Contains msg (utf8 [0x62D2, 0x7EDD, 0x8BBF, 0x95EE]) \<or> Contains msg ''permission denied''))"

definition isAdmin :: "'s term_env \<Rightarrow> 's \<Rightarrow> 's \<times> bool" where
  "isAdmin env s = (case te_openDrive env s of (s1, err) \<Rightarrow> (s1, err = None))"

text \<open>The PowerShell command of \<open>runElevated\<close>; a quote in the command is doubled.\<close>

definition elevated_cmd :: "string \<Rightarrow> string \<Rightarrow> string" where
  "elevated_cmd command tmp =
     (let q = [CHR 0x27]; dq = [CHR 0x22] in
      ''Start-Process cmd -Verb RunAs -ArgumentList '' @ q @ ''/c,'' @ ReplaceAll command q (q @ q) @ '' > '' @ dq @ tmp @ dq
      @ '' 2>&1'' @ q @ '' -Wait -WindowStyle Hidden'')"

definition runElevated :: "'s term_env \<Rightarrow> 's \<Rightarrow> string \<Rightarrow> 's \<times> string \<times> gerror option" where
  "runElevated env s command =
     (case te_CreateTemp env s of (s1, tmp) \<Rightarrow>
       (case tmp of
          Inl e \<Rightarrow> (s1, [], Some (ErrWrap (utf8 [0x521B, 0x5EFA, 0x4E34, 0x65F6, 0x6587, 0x4EF6, 0x5931, 0x8D25]) e))
        | Inr name \<Rightarrow>
           (case runCmd env s1 ''powershell'' [''-NoProfile'', ''-Command'', elevated_cmd command name] of (s2, _, err) \<Rightarrow>
             (case err of
                Some e \<Rightarrow> (te_Remove env s2 name, [], Some e)
              | None \<Rightarrow>
                 (case te_ReadFile env s2 name of
                    Inl e \<Rightarrow> (te_Remove env s2 name, [], Some (ErrWrap
                      (utf8 [0x63D0, 0x6743, 0x6210, 0x529F, 0x4F46, 0x8BFB, 0x53D6, 0x8F93, 0x51FA, 0x5931, 0x8D25]) e))
                  | Inr out \<Rightarrow> (te_Remove env s2 name, out, None))))))"

text \<open>The two failure texts that \<open>RunTerminal\<close> returns as a result, not as an error.\<close>

definition failure_text :: "nat list \<Rightarrow> gerror \<Rightarrow> string \<Rightarrow> string" where
  "failure_text label e out = utf8 label @ '': '' @ error_string e @ [nl] @ utf8 [0x8F93, 0x51FA] @ '': '' @ out"

definition need_admin :: gerror where
  "need_admin = ErrMsg (utf8 [0x547D, 0x4EE4, 0x9700, 0x8981, 0x7BA1, 0x7406, 0x5458, 0x6743, 0x9650, 0xFF0C, 0x8BF7, 0x4EE5,
     0x7BA1, 0x7406, 0x5458, 0x8EAB, 0x4EFD, 0x8FD0, 0x884C, 0x672C, 0x7A0B, 0x5E8F, 0x540E, 0x91CD, 0x8BD5, 0x3002, 0x5F53,
     0x524D, 0x65E0, 0x7BA1, 0x7406, 0x5458, 0x6743, 0x9650, 0x3002])"

text \<open>After the interceptors have let the command through.\<close>

definition run_and_filter ::
  "'s term_env \<Rightarrow> (string \<times> filter_func) list \<Rightarrow> 's Terminal \<Rightarrow> 's \<Rightarrow> CommandContext \<Rightarrow> 's Terminal \<times> 's \<times> (gerror + string)" where
  "run_and_filter env fs t s cmdCtx =
     (case runCmd env s ''cmd'' [''/c'', cc_Command cmdCtx] of (s1, out, runErr) \<Rightarrow>
       (case RunAfterInterceptors (term_items t) s1 cmdCtx \<lparr>cr_Output = out, cr_Err = runErr\<rparr> of (s2, result) \<Rightarrow>
         (case cr_Err result of
            None \<Rightarrow>
              (let filtered = filter_Run fs (cr_Output result) (cc_Command cmdCtx) in
               (if isCacheable (te_lower env) (cc_Command cmdCtx)
                then t\<lparr>cmdCache := storeCache (te_victim env s2) (te_now env s2) (cmdCache t) (cc_Command cmdCtx) filtered\<rparr>
                else t, s2, Inr filtered))
          | Some e \<Rightarrow>
              if isAccessDenied (te_lower env) (cr_Err result) then
                (case isAdmin env s2 of (s3, admin) \<Rightarrow>
                  if \<not> admin then (t, s3, Inl need_admin)
                  else (case runElevated env s3 (cc_Command cmdCtx) of (s4, elevatedOut, elevErr) \<Rightarrow>
                    (case elevErr of
                       None \<Rightarrow> (t, s4, Inr (filter_Run fs elevatedOut (cc_Command cmdCtx)))
                     | Some ee \<Rightarrow> (t, s4, Inr (failure_text [0x63D0, 0x6743, 0x6267, 0x884C, 0x5931, 0x8D25] ee elevatedOut)))))
              else (t, s2, Inr (failure_text [0x6267, 0x884C, 0x5931, 0x8D25] e (cr_Output result))))))"

definition RunTerminal ::
  "'s term_env \<Rightarrow> (string \<times> filter_func) list \<Rightarrow> 's Terminal \<Rightarrow> 's \<Rightarrow> string \<Rightarrow> 's Terminal \<times> 's \<times> (gerror + string)" where
  "RunTerminal env fs t s command =
     (let (cache, hit) = (if isCacheable (te_lower env) command
            then lookupCache (cacheTTL t) (te_now env s) (cmdCache t) command else (cmdCache t, None));
          t1 = t\<lparr>cmdCache := cache\<rparr> in
      case hit of
        Some cached \<Rightarrow> (t1, s, Inr cached)
      | None \<Rightarrow>
          (case RunBeforeInterceptors (term_items t1) s \<lparr>cc_Command = command, cc_SessionID = []\<rparr> of (s1, r) \<Rightarrow>
            (case r of
               Inl (_, e) \<Rightarrow> (t1, s1, Inl (ErrWrap (utf8 [0x62E6, 0x622A, 0x5668, 0x963B, 0x6B62]) e))
             | Inr cmdCtx \<Rightarrow> run_and_filter env fs t1 s1 cmdCtx)))"


subsection \<open>Runs of the terminal\<close>

text \<open>A completed execution is recorded with its command, what the caller was given and when.\<close>

definition completed ::
  "'s term_env \<Rightarrow> (string \<times> filter_func) list \<Rightarrow> 's Terminal \<Rightarrow> 's \<Rightarrow> string \<Rightarrow> (string \<times> string \<times> int) list" where
  "completed env fs t s command =
     (if isCacheable (te_lower env) command \<and> snd (lookupCache (cacheTTL t) (te_now env s) (cmdCache t) command) \<noteq> None then []
      else case RunBeforeInterceptors (term_items t) s \<lparr>cc_Command = command, cc_SessionID = []\<rparr> of
        (_, Inl _) \<Rightarrow> []
      | (s1, Inr c) \<Rightarrow>
          (case te_exec env s1 ''cmd'' [''/c'', cc_Command c] of (s2, out, err) \<Rightarrow>
            (case RunAfterInterceptors (term_items t) s2 c \<lparr>cr_Output = out, cr_Err = err\<rparr> of (s3, res) \<Rightarrow>
              if cr_Err res = None then [(cc_Command c, filter_Run fs (cr_Output res) (cc_Command c), te_now env s3)] else [])))"

text \<open>The states the package can be in, with the completed executions so far. Between two calls the world
  may change in any way.\<close>

inductive term_reach ::
  "'s term_env \<Rightarrow> (string \<times> filter_func) list \<Rightarrow> (string \<times> string \<times> int) list \<Rightarrow> 's Terminal \<Rightarrow> 's \<Rightarrow> bool"
  for env fs where
  term_start: "term_reach env fs [] \<lparr>cmdCache = [], cacheTTL = ttl, term_items = []\<rparr> s"
| term_call: "term_reach env fs tr t s \<Longrightarrow> RunTerminal env fs t s command = (t1, s1, r) \<Longrightarrow>
    term_reach env fs (tr @ completed env fs t s command) t1 s1"
| term_register: "term_reach env fs tr t s \<Longrightarrow> term_reach env fs tr (t\<lparr>term_items := RegisterInterceptor (term_items t) i\<rparr>) s"
| term_clear: "term_reach env fs tr t s \<Longrightarrow> term_reach env fs tr (t\<lparr>term_items := ClearInterceptors (term_items t)\<rparr>) s"
| term_world: "term_reach env fs tr t s \<Longrightarrow> term_reach env fs tr t s1"

text \<open>The effect of a call on the cache: an expired entry may go, and a completed execution of a cacheable
  command is stored.\<close>

definition after_lookup :: "'s term_env \<Rightarrow> 's Terminal \<Rightarrow> 's \<Rightarrow> string \<Rightarrow> cmd_cache" where
  "after_lookup env t s command = (if isCacheable (te_lower env) command
     then fst (lookupCache (cacheTTL t) (te_now env s) (cmdCache t) command) else cmdCache t)"

lemma RunTerminal_cache:
  assumes "RunTerminal env fs t s command = (t1, s1, r)"
  shows "(completed env fs t s command = [] \<or> (\<exists>c out now. completed env fs t s command = [(c, out, now)] \<and> \<not> isCacheable (te_lower env) c))
      \<and> cmdCache t1 = after_lookup env t s command
    \<or> (\<exists>v c out now. completed env fs t s command = [(c, out, now)] \<and> isCacheable (te_lower env) c
      \<and> cmdCache t1 = storeCache v now (after_lookup env t s command) c out)"
  using assms
  by (auto simp: RunTerminal_def run_and_filter_def completed_def after_lookup_def runCmd_def Let_def
      split: prod.splits option.splits if_splits sum.splits)

lemma after_lookup_le:
  "map_of (after_lookup env t s command) k = Some e \<Longrightarrow> map_of (cmdCache t) k = Some e"
  by (auto simp: after_lookup_def lookupCache_def delete_conv split: option.splits if_splits)

lemma storeCache_lookup:
  "map_of (storeCache v now cache cmd out) k = Some e \<Longrightarrow>
     k = cmd \<and> e = \<lparr>ce_result = out, ce_timestamp = now\<rparr> \<or> k \<noteq> cmd \<and> map_of cache k = Some e"
  by (auto simp: storeCache_def evict_def update_conv' delete_conv split: if_splits)

definition cache_ok :: "'s term_env \<Rightarrow> (string \<times> string \<times> int) list \<Rightarrow> cmd_cache \<Rightarrow> bool" where
  "cache_ok env tr cache \<longleftrightarrow> (\<forall>k e. map_of cache k = Some e \<longrightarrow>
     isCacheable (te_lower env) k \<and> map_of (rev tr) k = Some (ce_result e, ce_timestamp e))"

lemma cache_ok_step:
  assumes "cache_ok env tr (cmdCache t)" and "RunTerminal env fs t s command = (t1, s1, r)"
  shows "cache_ok env (tr @ completed env fs t s command) (cmdCache t1)"
proof -
  let ?ok = "\<lambda>tr k e. isCacheable (te_lower env) k \<and> map_of (rev tr) k = Some (ce_result e, ce_timestamp e)"
  have old: "?ok tr k e" if "map_of (after_lookup env t s command) k = Some e" for k e
    using assms(1) after_lookup_le [OF that] by (auto simp: cache_ok_def)
  show ?thesis using RunTerminal_cache [OF assms(2)]
  proof (elim disjE conjE exE)
    fix v c out now
    assume "completed env fs t s command = [(c, out, now)]" "isCacheable (te_lower env) c"
      and st: "cmdCache t1 = storeCache v now (after_lookup env t s command) c out"
    then have "?ok (tr @ completed env fs t s command) k e" if "map_of (cmdCache t1) k = Some e" for k e
      using storeCache_lookup [OF that [unfolded st]] old [of k e] by auto
    then show ?thesis by (simp add: cache_ok_def)
  next
    fix c out now
    assume "cmdCache t1 = after_lookup env t s command" "completed env fs t s command = [(c, out, now)]"
      and c: "\<not> isCacheable (te_lower env) c"
    moreover have "k \<noteq> c" if "map_of (after_lookup env t s command) k = Some e" for k e using old [OF that] c by auto
    ultimately show ?thesis using old by (auto simp: cache_ok_def)
  qed (auto simp: cache_ok_def dest: old)
qed

lemma term_reach_cache_ok: "term_reach env fs tr t s \<Longrightarrow> cache_ok env tr (cmdCache t)"
  by (induction rule: term_reach.induct) (auto simp: cache_ok_def [of _ "[]"] intro: cache_ok_step)

lemma delete_shorter: "k \<in> fst ` set xs \<Longrightarrow> length (AList.delete k xs) < length xs"
  by (auto simp: AList.delete_eq intro: length_filter_less)

lemma length_update_le: "length (AList.update k v xs) \<le> Suc (length xs)"
  by (induction xs) auto

lemma after_lookup_length: "length (after_lookup env t s command) \<le> length (cmdCache t)"
  by (auto simp: after_lookup_def lookupCache_def AList.length_delete_le split: option.splits if_splits)

lemma storeCache_length:
  assumes "length cache \<le> 201"
  shows "length (storeCache v now cache cmd out) \<le> 201"
proof (cases "length cache > 200")
  case True
  then have "cache ! (v mod length cache) \<in> set cache" by (intro nth_mem mod_less_divisor) auto
  then have "length (evict v cache) < length cache" unfolding evict_def by (intro delete_shorter) simp
  with True assms show ?thesis
    using length_update_le [of cmd "\<lparr>ce_result = out, ce_timestamp = now\<rparr>" "evict v cache"] by (simp add: storeCache_def)
next
  case False
  then show ?thesis
    using length_update_le [of cmd "\<lparr>ce_result = out, ce_timestamp = now\<rparr>" cache] by (simp add: storeCache_def)
qed

lemma term_call_length:
  assumes "length (cmdCache t) \<le> 201" and "RunTerminal env fs t s command = (t1, s1, r)"
  shows "length (cmdCache t1) \<le> 201"
proof -
  have "length (after_lookup env t s command) \<le> 201" by (rule order_trans [OF after_lookup_length assms(1)])
  with RunTerminal_cache [OF assms(2)] show ?thesis by (auto simp: storeCache_length)
qed

lemma RunTerminal_hit:
  assumes "isCacheable (te_lower env) c" and "snd (lookupCache (cacheTTL t) (te_now env s) (cmdCache t) c) = Some out"
  shows "RunTerminal env fs t s c = (t, s, Inr out)"
    and "\<exists>e. map_of (cmdCache t) c = Some e \<and> ce_result e = out \<and> te_now env s - ce_timestamp e \<le> cacheTTL t"
  using assms by (auto simp: RunTerminal_def lookupCache_def split: option.splits if_splits)

text \<open>A world that is only a clock: every process takes one second and prints \<open>ok\<close>.\<close>

definition clock_env :: "int term_env" where
  "clock_env = \<lparr>te_exec = (\<lambda>s _ _. (s + 1000000000, ''ok'', None)), te_openDrive = (\<lambda>s. (s, None)),
     te_CreateTemp = (\<lambda>s. (s, Inr ''t'')), te_ReadFile = (\<lambda>_ _. Inr []), te_Remove = (\<lambda>s _. s), te_now = (\<lambda>s. s),
     te_lower = (\<lambda>r. r), te_victim = (\<lambda>_. 0)\<rparr>"

definition empty_terminal :: "'s Terminal" where
  "empty_terminal = \<lparr>cmdCache = [], cacheTTL = cacheTTL_default, term_items = []\<rparr>"

definition blocking :: "int Interceptor" where
  "blocking = \<lparr>ic_Name = ''deny'', ic_Before = (\<lambda>s c. (s + 7, c, Some (ErrMsg ''no''))), ic_After = (\<lambda>s c r. (s, r, None))\<rparr>"

lemma clock_reach:
  "term_reach clock_env [] (completed clock_env [] empty_terminal 0 ''echo hi'')
     (fst (RunTerminal clock_env [] empty_terminal 0 ''echo hi'')) s"
proof -
  have "term_reach clock_env [] [] empty_terminal 0" unfolding empty_terminal_def by (rule term_start)
  from term_call [OF this, of "''echo hi''"] show ?thesis by (cases "RunTerminal clock_env [] empty_terminal 0 ''echo hi''") (auto intro: term_world)
qed

subsection \<open>Properties\<close>

text \<open>C24: Whatever was run before, an answer served from the cache is the one the latest completed execution of
  exactly that command gave, not older than the time to live; nothing is executed and neither the world nor
  the state changes.\<close>

theorem cache_answer_is_latest_run:
  assumes "term_reach env fs tr t s" and "isCacheable (te_lower env) c"
    and "snd (lookupCache (cacheTTL t) (te_now env s) (cmdCache t) c) = Some out"
  shows "RunTerminal env fs t s c = (t, s, Inr out)
    \<and> (\<exists>time. map_of (rev tr) c = Some (out, time) \<and> te_now env s - time \<le> cacheTTL t)"
  using RunTerminal_hit [OF assms(2,3)] term_reach_cache_ok [OF assms(1)] by (auto simp: cache_ok_def)

theorem cache_answer_is_latest_run_witness:
  "snd (snd (RunTerminal clock_env [] (fst (RunTerminal clock_env [] empty_terminal 0 ''echo hi'')) 9000000000 ''echo hi'')) = Inr (noopFilter ''ok'' [])"
proof -
  have c: "isCacheable (te_lower clock_env) ''echo hi''" by code_simp
  have l: "snd (lookupCache (cacheTTL (fst (RunTerminal clock_env [] empty_terminal 0 ''echo hi''))) (te_now clock_env 9000000000)
    (cmdCache (fst (RunTerminal clock_env [] empty_terminal 0 ''echo hi''))) ''echo hi'') = Some (noopFilter ''ok'' [])"
    using c by (simp add: RunTerminal_def run_and_filter_def runCmd_def lookupCache_def storeCache_def filter_Run_def noopFilter_def [of _ "[]"] noopFilter_def [of _ "''echo hi''"]
        clock_env_def empty_terminal_def cacheTTL_default_def Let_def)
  from cache_answer_is_latest_run [OF clock_reach c l] show ?thesis by simp
qed

text \<open>The cache never holds more than 201 results, for any sequence of calls and whichever entry map
  iteration offers for eviction.\<close>

theorem cache_bounded:
  assumes "term_reach env fs tr t s"
  shows "length (cmdCache t) \<le> 201"
  using assms by (induction rule: term_reach.induct) (auto intro: term_call_length)

theorem cache_bounded_witness:
  "length (cmdCache (fst (RunTerminal clock_env [] empty_terminal 0 ''echo hi''))) \<le> 201"
  by (rule cache_bounded [OF clock_reach [of 0]])

text \<open>An interceptor that fails stops the command: the interceptors before it have run, those after it, the
  shell and the output filter have not, and the caller gets the interceptor's error.\<close>

theorem interceptor_stops_command:
  assumes "\<not> isCacheable (te_lower env) c \<or> map_of (cmdCache t) c = None"
    and "term_items t = pre @ i # post"
    and "RunBeforeInterceptors pre s \<lparr>cc_Command = c, cc_SessionID = []\<rparr> = (s1, Inr ctx)"
    and "ic_Before i s1 ctx = (s2, ctx2, Some e)"
  shows "RunTerminal env fs t s c = (t, s2, Inl (ErrWrap (utf8 [0x62E6, 0x622A, 0x5668, 0x963B, 0x6B62]) e))"
proof -
  have "RunBeforeInterceptors (term_items t) s \<lparr>cc_Command = c, cc_SessionID = []\<rparr> = (s2, Inl (ctx2, e))"
    using assms(2-4) by (simp add: before_interceptors.run_append)
  with assms(1) show ?thesis by (auto simp: RunTerminal_def lookupCache_def Let_def)
qed

theorem interceptor_stops_command_witness:
  "RunTerminal clock_env [] (empty_terminal\<lparr>term_items := [blocking]\<rparr>) 0 ''rm x'' =
     (empty_terminal\<lparr>term_items := [blocking]\<rparr>, 7, Inl (ErrWrap (utf8 [0x62E6, 0x622A, 0x5668, 0x963B, 0x6B62]) (ErrMsg ''no'')))"
proof -
  have c: "\<not> isCacheable (te_lower clock_env) ''rm x''" by code_simp
  show ?thesis
    by (rule interceptor_stops_command [where pre = "[]" and i = blocking and post = "[]"])
      (simp_all add: c blocking_def)
qed

end
