(* ===== verification/FileOps.thy ===== *)
theory FileOps
  imports Types Text
begin

section \<open>File tools (tools/fileops.go)\<close>

text \<open>
  Reading, writing, editing, globbing and searching files below the workspace root. The functions of
  \<open>path/filepath\<close> are those of its Unix build, stated on path segments. Files are a map from cleaned absolute
  paths to contents, so two paths that name one file through links are two files here. What the operating
  system refuses, the order of \<open>filepath.Walk\<close>, the matches of \<open>filepath.Glob\<close> and the regular expressions
  are the record \<open>file_env\<close>.
\<close>

subsection \<open>Paths (path/filepath)\<close>

abbreviation slash :: char where "slash \<equiv> CHR ''/''"

definition IsAbs :: "string \<Rightarrow> bool" where "IsAbs p = HasPrefix p ''/''"

text \<open>One segment of \<open>Clean\<close>; the segments kept so far are in reverse order. Above the root \<open>..\<close> is dropped.\<close>

definition clean_seg :: "bool \<Rightarrow> string list \<Rightarrow> string \<Rightarrow> string list" where
  "clean_seg rooted acc w =
     (if w = [] \<or> w = ''.'' then acc
      else if w = ''..'' then
        (case acc of
           [] \<Rightarrow> if rooted then [] else [''..'']
         | x # xs \<Rightarrow> if x = ''..'' then ''..'' # acc else xs)
      else w # acc)"

definition segs :: "string \<Rightarrow> string list" where
  "segs p = rev (foldl (clean_seg (IsAbs p)) [] (SplitChar slash p))"

definition path_of :: "bool \<Rightarrow> string list \<Rightarrow> string" where
  "path_of rooted ws = (if rooted then ''/'' @ Join ws ''/'' else if ws = [] then ''.'' else Join ws ''/'')"

definition Clean :: "string \<Rightarrow> string" where
  "Clean p = path_of (IsAbs p) (segs p)"

definition path_Join :: "string \<Rightarrow> string \<Rightarrow> string" where
  "path_Join a b =
     (if a \<noteq> [] then (if b = [] then Clean a else Clean (a @ ''/'' @ b))
      else if b \<noteq> [] then Clean b else [])"

definition path_Abs :: "(gerror + string) \<Rightarrow> string \<Rightarrow> gerror + string" where
  "path_Abs wd p = (if IsAbs p then Inr (Clean p)
     else case wd of Inl e \<Rightarrow> Inl e | Inr d \<Rightarrow> Inr (path_Join d p))"

definition path_Dir :: "string \<Rightarrow> string" where
  "path_Dir p = Clean (case last_index (\<lambda>c. c = slash) p of None \<Rightarrow> [] | Some i \<Rightarrow> take (Suc i) p)"

fun strip_common :: "string list \<Rightarrow> string list \<Rightarrow> string list \<times> string list" where
  "strip_common (x # xs) (y # ys) = (if x = y then strip_common xs ys else (x # xs, y # ys))"
| "strip_common xs ys = (xs, ys)"

text \<open>\<open>filepath.Rel\<close>: its error is ignored by the callers, which then use the empty string.\<close>

definition path_Rel :: "string \<Rightarrow> string \<Rightarrow> string option" where
  "path_Rel base targ =
     (if IsAbs base \<noteq> IsAbs targ then None
      else case strip_common (segs base) (segs targ) of (bs, ts) \<Rightarrow>
        (if bs \<noteq> [] \<and> hd bs = ''..'' then None
         else if bs = [] \<and> ts = [] then Some ''.''
         else Some (Join (replicate (length bs) ''..'' @ ts) ''/'')))"

subsection \<open>The environment\<close>

record walk_item =
  wi_path :: string
  wi_err :: bool
  wi_isDir :: bool
  wi_done :: "gerror option"

text \<open>A refused write reports what is left in the file, if it was already truncated.\<close>

record file_env =
  fe_Getwd :: "gerror + string"
  fe_read_err :: "string \<Rightarrow> gerror option"
  fe_noent :: "string \<Rightarrow> gerror"
  fe_mkdir_err :: "string \<Rightarrow> gerror option"
  fe_write_err :: "string \<Rightarrow> (gerror \<times> string option) option"
  fe_Glob :: "string \<Rightarrow> gerror + string list"
  fe_Walk :: "string \<Rightarrow> walk_item list"
  fe_Compile :: "string \<Rightarrow> gerror + (string \<Rightarrow> bool)"

type_synonym files = "string \<rightharpoonup> string"

definition os_ReadFile :: "file_env \<Rightarrow> files \<Rightarrow> string \<Rightarrow> gerror + string" where
  "os_ReadFile env fs p = (case fe_read_err env p of Some e \<Rightarrow> Inl e
     | None \<Rightarrow> (case fs p of Some d \<Rightarrow> Inr d | None \<Rightarrow> Inl (fe_noent env p)))"

definition os_WriteFile :: "file_env \<Rightarrow> files \<Rightarrow> string \<Rightarrow> string \<Rightarrow> files \<times> gerror option" where
  "os_WriteFile env fs p data = (case fe_write_err env p of
     Some (e, left) \<Rightarrow> ((case left of None \<Rightarrow> fs | Some d \<Rightarrow> fs(p \<mapsto> d)), Some e)
   | None \<Rightarrow> (fs(p \<mapsto> data), None))"

subsection \<open>The workspace root\<close>

definition SetWorkspaceRoot :: "(gerror + string) \<Rightarrow> string \<Rightarrow> string" where
  "SetWorkspaceRoot wd root = Clean (case path_Abs wd root of Inl _ \<Rightarrow> root | Inr a \<Rightarrow> a)"

definition ValidatePath :: "(gerror + string) \<Rightarrow> string \<Rightarrow> string \<Rightarrow> gerror + string" where
  "ValidatePath wd workspaceRoot path =
     (if path = [] then Inl (ErrMsg ''path is empty'')
      else case path_Abs wd path of
        Inl e \<Rightarrow> Inl (ErrWrap ''invalid path'' e)
      | Inr a \<Rightarrow>
          (let cleaned = Clean a in
           if workspaceRoot \<noteq> [] \<and> \<not> HasPrefix cleaned workspaceRoot
           then Inl (ErrMsg (''path '' @ cleaned @ '' is outside workspace root '' @ workspaceRoot))
           else Inr cleaned))"

subsection \<open>Reading and writing\<close>

record ReadFileInput =
  rf_Path :: string
  rf_Offset :: int
  rf_Limit :: int

fun numbered :: "int \<Rightarrow> string list \<Rightarrow> string" where
  "numbered n [] = []"
| "numbered n (l # ls) = show_int n @ '': '' @ l @ [nl] @ numbered (n + 1) ls"

definition read_failed :: "gerror \<Rightarrow> gerror" where
  "read_failed e = ErrWrap (utf8 [0x8BFB, 0x53D6, 0x6587, 0x4EF6, 0x5931, 0x8D25]) e"

definition write_failed :: "gerror \<Rightarrow> gerror" where
  "write_failed e = ErrWrap (utf8 [0x5199, 0x5165, 0x6587, 0x4EF6, 0x5931, 0x8D25]) e"

definition beyond_end :: "int \<Rightarrow> nat \<Rightarrow> gerror" where
  "beyond_end off n = ErrMsg (utf8 [0x8D77, 0x59CB, 0x884C] @ '' '' @ show_int off @ '' ''
     @ utf8 [0x8D85, 0x51FA, 0x6587, 0x4EF6, 0x957F, 0x5EA6] @ '' '' @ show_nat n)"

text \<open>\<open>start + Limit\<close> wraps around; a slice with a negative bound panics.\<close>

definition ReadFile :: "file_env \<Rightarrow> string \<Rightarrow> files \<Rightarrow> ReadFileInput \<Rightarrow> string outcome" where
  "ReadFile env root fs inp =
     (case ValidatePath (fe_Getwd env) root (rf_Path inp) of
        Inl e \<Rightarrow> Err e
      | Inr path \<Rightarrow>
         (case os_ReadFile env fs path of
            Inl e \<Rightarrow> Err (read_failed e)
          | Inr data \<Rightarrow>
             (let lines = split_lines data;
                  start = (if rf_Offset inp > 1 then rf_Offset inp - 1 else 0) in
              if start \<ge> int (length lines) then Err (beyond_end (rf_Offset inp) (length lines))
              else if rf_Limit inp > 0 \<and> wrap64 (start + rf_Limit inp) < int (length lines) then
                (if wrap64 (start + rf_Limit inp) < start then Panic
                 else Ok (numbered (start + 1) (take (nat (wrap64 (start + rf_Limit inp) - start)) (drop (nat start) lines))))
              else Ok (numbered (start + 1) (drop (nat start) lines)))))"

record WriteFileInput =
  wf_Path :: string
  wf_Content :: string

definition WriteFile :: "file_env \<Rightarrow> string \<Rightarrow> files \<Rightarrow> WriteFileInput \<Rightarrow> files \<times> (gerror + string)" where
  "WriteFile env root fs inp =
     (case ValidatePath (fe_Getwd env) root (wf_Path inp) of
        Inl e \<Rightarrow> (fs, Inl e)
      | Inr path \<Rightarrow>
         (case fe_mkdir_err env (path_Dir path) of
            Some e \<Rightarrow> (fs, Inl (ErrWrap (utf8 [0x521B, 0x5EFA, 0x76EE, 0x5F55, 0x5931, 0x8D25]) e))
          | None \<Rightarrow>
             (case os_WriteFile env fs path (wf_Content inp) of (fs1, err) \<Rightarrow>
               (fs1, case err of
                  Some e \<Rightarrow> Inl (write_failed e)
                | None \<Rightarrow> Inr (utf8 [0x5DF2, 0x5199, 0x5165] @ '' '' @ show_nat (length (wf_Content inp)) @ '' ''
                    @ utf8 [0x5B57, 0x8282, 0x5230] @ '' '' @ path)))))"

record EditFileInput =
  ef_Path :: string
  ef_OldText :: string
  ef_NewText :: string

definition EditFile :: "file_env \<Rightarrow> string \<Rightarrow> files \<Rightarrow> EditFileInput \<Rightarrow> files \<times> (gerror + string)" where
  "EditFile env root fs inp =
     (case ValidatePath (fe_Getwd env) root (ef_Path inp) of
        Inl e \<Rightarrow> (fs, Inl e)
      | Inr path \<Rightarrow>
         (case os_ReadFile env fs path of
            Inl e \<Rightarrow> (fs, Inl (read_failed e))
          | Inr data \<Rightarrow>
             (let n = Count_str data (ef_OldText inp) in
              if n = 0 then (fs, Inl (ErrMsg (utf8 [0x5728] @ '' '' @ ef_Path inp @ '' ''
                @ utf8 [0x4E2D, 0x672A, 0x627E, 0x5230, 0x5339, 0x914D, 0x7684, 0x539F, 0x6587])))
              else (case os_WriteFile env fs path (ReplaceAll data (ef_OldText inp) (ef_NewText inp)) of (fs1, err) \<Rightarrow>
                (fs1, case err of
                   Some e \<Rightarrow> Inl (write_failed e)
                 | None \<Rightarrow> Inr (utf8 [0x5DF2, 0x5728] @ '' '' @ ef_Path inp @ '' ''
                     @ utf8 [0x4E2D, 0x66FF, 0x6362] @ '' '' @ show_nat n @ '' '' @ utf8 [0x5904]))))))"

subsection \<open>Searching\<close>

definition search_root :: "string \<Rightarrow> string" where
  "search_root r = (if r = [] then ''.'' else r)"

definition rel_or_empty :: "string \<Rightarrow> string \<Rightarrow> string" where
  "rel_or_empty root p = (case path_Rel root p of None \<Rightarrow> [] | Some r \<Rightarrow> r)"

definition indented :: "string list \<Rightarrow> string" where
  "indented ls = concat (map (\<lambda>l. ''  '' @ l @ [nl]) ls)"

record GlobInput =
  gl_Pattern :: string
  gl_Root :: string

definition GlobFiles :: "file_env \<Rightarrow> string \<Rightarrow> GlobInput \<Rightarrow> gerror + string" where
  "GlobFiles env workspaceRoot inp =
     (case ValidatePath (fe_Getwd env) workspaceRoot (search_root (gl_Root inp)) of
        Inl e \<Rightarrow> Inl e
      | Inr root \<Rightarrow>
         (case fe_Glob env (path_Join root (gl_Pattern inp)) of
            Inl e \<Rightarrow> Inl (ErrWrap (''glob '' @ utf8 [0x5339, 0x914D, 0x5931, 0x8D25]) e)
          | Inr ms \<Rightarrow>
             if ms = [] then Inr (utf8 [0x672A, 0x5339, 0x914D, 0x5230, 0x4EFB, 0x4F55, 0x6587, 0x4EF6])
             else Inr (utf8 [0x627E, 0x5230] @ '' '' @ show_nat (length ms) @ '' ''
               @ utf8 [0x4E2A, 0x6587, 0x4EF6] @ '':'' @ [nl] @ indented (map (rel_or_empty root) ms))))"

record GrepInput =
  gr_Pattern :: string
  gr_Root :: string
  gr_Include :: string

text \<open>The lines of one file that match, numbered from 1.\<close>

definition grep_file :: "(string \<Rightarrow> bool) \<Rightarrow> string \<Rightarrow> string \<Rightarrow> string \<Rightarrow> string list" where
  "grep_file re root path data =
     map (\<lambda>(i, l). rel_or_empty root path @ '':'' @ show_nat (i + 1) @ '': '' @ TrimSpace l)
       (filter (\<lambda>(i, l). re l) (enumerate 0 (split_lines data)))"

definition too_many :: gerror where
  "too_many = ErrMsg (utf8 [0x7ED3, 0x679C, 0x592A, 0x591A, 0xFF0C, 0x5DF2, 0x622A, 0x65AD])"

text \<open>The callback of the walk: the results so far and the error it returns.\<close>

definition grep_visit ::
  "file_env \<Rightarrow> files \<Rightarrow> (string \<Rightarrow> bool) \<Rightarrow> string \<Rightarrow> string \<Rightarrow> string list \<Rightarrow> walk_item \<Rightarrow> string list \<times> gerror option" where
  "grep_visit env fs re root incl results w =
     (case wi_done w of
        Some e \<Rightarrow> (results, Some e)
      | None \<Rightarrow>
          if wi_err w \<or> wi_isDir w then (results, None)
          else if incl \<noteq> [] \<and> \<not> HasSuffix (wi_path w) incl then (results, None)
          else (case os_ReadFile env fs (wi_path w) of
             Inl _ \<Rightarrow> (results, None)
           | Inr data \<Rightarrow>
               (let results1 = results @ grep_file re root (wi_path w) data in
                (results1, if length results1 > 200 then Some too_many else None))))"

fun grep_walk ::
  "file_env \<Rightarrow> files \<Rightarrow> (string \<Rightarrow> bool) \<Rightarrow> string \<Rightarrow> string \<Rightarrow> string list \<Rightarrow> walk_item list \<Rightarrow> string list \<times> gerror option" where
  "grep_walk env fs re root incl results [] = (results, None)"
| "grep_walk env fs re root incl results (w # ws) =
     (case grep_visit env fs re root incl results w of
        (results1, Some e) \<Rightarrow> (results1, Some e)
      | (results1, None) \<Rightarrow> grep_walk env fs re root incl results1 ws)"

definition grep_text :: "string list \<Rightarrow> string" where
  "grep_text rs = utf8 [0x627E, 0x5230] @ '' '' @ show_nat (length rs) @ '' '' @ utf8 [0x5904, 0x5339, 0x914D] @ '':'' @ [nl] @ indented rs"

definition GrepFiles :: "file_env \<Rightarrow> string \<Rightarrow> files \<Rightarrow> GrepInput \<Rightarrow> gerror + string" where
  "GrepFiles env workspaceRoot fs inp =
     (case ValidatePath (fe_Getwd env) workspaceRoot (search_root (gr_Root inp)) of
        Inl e \<Rightarrow> Inl e
      | Inr root \<Rightarrow>
         (case fe_Compile env (gr_Pattern inp) of
            Inl e \<Rightarrow> Inl (ErrWrap (utf8 [0x6B63, 0x5219, 0x8868, 0x8FBE, 0x5F0F, 0x65E0, 0x6548]) e)
          | Inr re \<Rightarrow>
             (case grep_walk env fs re root (gr_Include inp) [] (fe_Walk env root) of (results, err) \<Rightarrow>
               (case err of
                  Some e \<Rightarrow> if results = [] then Inl e else Inr (grep_text results)
                | None \<Rightarrow> if results = [] then Inr (utf8 [0x672A, 0x627E, 0x5230, 0x5339, 0x914D]) else Inr (grep_text results)))))"


subsection \<open>Lemmas on paths\<close>

definition seg_ok :: "string \<Rightarrow> bool" where
  "seg_ok w \<longleftrightarrow> w \<noteq> [] \<and> w \<noteq> ''.'' \<and> w \<noteq> ''..'' \<and> slash \<notin> set w"

lemma IsAbs_iff [simp]: "IsAbs (slash # p)" "\<not> IsAbs []" "IsAbs (c # p) \<longleftrightarrow> c = slash"
  by (auto simp: IsAbs_def)

lemma IsAbs_append: "IsAbs d \<Longrightarrow> IsAbs (d @ t)"
  by (auto simp: IsAbs_def HasPrefix_iff)

lemma clean_seg_ok:
  "list_all seg_ok acc \<Longrightarrow> slash \<notin> set w \<Longrightarrow> list_all seg_ok (clean_seg True acc w)"
  by (auto simp: clean_seg_def seg_ok_def split: list.splits)

lemma clean_segs_ok:
  "list_all seg_ok acc \<Longrightarrow> \<forall>w \<in> set ws. slash \<notin> set w \<Longrightarrow> list_all seg_ok (foldl (clean_seg True) acc ws)"
  by (induction ws arbitrary: acc) (auto simp: clean_seg_ok)

lemma segs_ok: "IsAbs p \<Longrightarrow> list_all seg_ok (segs p)"
  using clean_segs_ok [of "[]" "SplitChar slash p"] SplitChar_no_sep by (fastforce simp: segs_def list_all_iff)

lemma clean_seg_keep: "list_all seg_ok ws \<Longrightarrow> foldl (clean_seg b) acc ws = rev ws @ acc"
  by (induction ws arbitrary: acc) (auto simp: clean_seg_def seg_ok_def)

lemma segs_path_of: "list_all seg_ok ws \<Longrightarrow> segs (path_of True ws) = ws"
proof (cases "ws = []")
  case False
  assume ok: "list_all seg_ok ws"
  then have "SplitChar slash (Join ws ''/'') = ws" using False SplitChar_Join [of ws slash] by (auto simp: seg_ok_def list_all_iff)
  with ok show ?thesis by (simp add: segs_def path_of_def clean_seg_keep) (simp add: clean_seg_def clean_seg_keep)
qed (simp add: segs_def path_of_def clean_seg_def)

lemma IsAbs_path_of [simp]: "IsAbs (path_of True ws)" by (simp add: path_of_def)

lemma Clean_abs: "IsAbs p \<Longrightarrow> \<exists>ws. list_all seg_ok ws \<and> Clean p = path_of True ws"
  using segs_ok by (auto simp: Clean_def)

lemma Clean_path_of: "list_all seg_ok ws \<Longrightarrow> Clean (path_of True ws) = path_of True ws"
  by (simp add: Clean_def segs_path_of)

lemma path_Abs_shape:
  assumes "path_Abs wd p = Inr a" and "\<And>d. wd = Inr d \<Longrightarrow> IsAbs d"
  shows "\<exists>ws. list_all seg_ok ws \<and> a = path_of True ws"
  using assms Clean_abs by (auto simp: path_Abs_def path_Join_def IsAbs_append split: if_splits sum.splits)

lemma ValidatePath_shape:
  assumes "ValidatePath wd root path = Inr p" and "\<And>d. wd = Inr d \<Longrightarrow> IsAbs d"
  shows "\<exists>ws. list_all seg_ok ws \<and> p = path_of True ws \<and> (root \<noteq> [] \<longrightarrow> HasPrefix p root)"
  using assms path_Abs_shape [of wd path]
  by (auto simp: ValidatePath_def Let_def Clean_path_of split: if_splits sum.splits)

lemma clean_seg_length: "length (foldl (clean_seg b) acc ws) \<le> length acc + length ws"
proof (induction ws arbitrary: acc)
  case (Cons w ws)
  have "length (clean_seg b acc w) \<le> Suc (length acc)" by (auto simp: clean_seg_def split: list.splits)
  with Cons [of "clean_seg b acc w"] show ?case by simp
qed simp

lemma clean_seg_stable: "foldl (clean_seg b) [] ws = acc \<Longrightarrow> foldl (clean_seg b) [] (rev acc) = acc"
proof (induction ws arbitrary: acc rule: rev_induct)
  case (snoc w ws)
  define a where "a = foldl (clean_seg b) [] ws"
  have ih: "foldl (clean_seg b) [] (rev a) = a" using snoc.IH by (simp add: a_def)
  have drop_last: "foldl (clean_seg b) [] (rev xs) = xs" if "a = x # xs" "x \<noteq> ''..''" for x xs
  proof -
    have "clean_seg b (foldl (clean_seg b) [] (rev xs)) x = x # xs" using ih that by simp
    moreover have "length (foldl (clean_seg b) [] (rev xs)) \<le> length xs" using clean_seg_length [of b "[]" "rev xs"] by simp
    ultimately show ?thesis using that(2) by (auto simp: clean_seg_def split: if_splits)
  qed
  have acc: "acc = clean_seg b a w" using snoc.prems by (simp add: a_def)
  have push: "foldl (clean_seg b) [] (rev (v # a)) = clean_seg b a v" for v using ih by simp
  consider "acc = a" | "acc = w # a" | x where "a = x # acc" "x \<noteq> ''..''" | "acc = []" | "a = []" "acc = [''..'']" "\<not> b"
    using acc by (auto simp: clean_seg_def split: if_splits list.splits)
  then show ?case
  proof cases
    case 2
    then show ?thesis using push [of w] acc by simp
  next
    case 5
    then show ?thesis by (simp add: clean_seg_def)
  qed (use ih drop_last in auto)
qed simp

lemma segs_stable: "foldl (clean_seg (IsAbs p)) [] (segs p) = rev (segs p)"
  using clean_seg_stable [OF refl, of "IsAbs p" "SplitChar slash p"] by (simp add: segs_def)

lemma clean_seg_words: "\<forall>w \<in> set acc. w \<noteq> [] \<and> slash \<notin> set w \<Longrightarrow> \<forall>w \<in> set ws. slash \<notin> set w \<Longrightarrow>
    \<forall>w \<in> set (foldl (clean_seg b) acc ws). w \<noteq> [] \<and> slash \<notin> set w"
proof (induction ws arbitrary: acc)
  case (Cons w ws)
  have v: "v = ''..'' \<or> v \<in> set acc \<or> v = w \<and> w \<noteq> []" if "v \<in> set (clean_seg b acc w)" for v
    using that unfolding clean_seg_def by (cases acc) (simp_all split: if_splits, blast+)
  have "v \<noteq> [] \<and> slash \<notin> set v" if "v \<in> set (clean_seg b acc w)" for v
    using v [OF that] Cons.prems by (elim disjE) simp_all
  then have "\<forall>v \<in> set (clean_seg b acc w). v \<noteq> [] \<and> slash \<notin> set v" by blast
  moreover have "\<forall>v \<in> set ws. slash \<notin> set v" using Cons.prems(2) by simp
  ultimately show ?case using Cons.IH [of "clean_seg b acc w"] by simp
qed simp

lemma segs_words: "list_all (\<lambda>w. w \<noteq> [] \<and> slash \<notin> set w) (segs p)"
  using clean_seg_words [of "[]" "SplitChar slash p" "IsAbs p"] SplitChar_no_sep
  by (fastforce simp: segs_def list_all_iff)

lemma segs_path_of_stable:
  assumes "foldl (clean_seg b) [] ws = rev ws" and "list_all (\<lambda>w. w \<noteq> [] \<and> slash \<notin> set w) ws"
  shows "segs (path_of b ws) = ws \<and> IsAbs (path_of b ws) = b"
proof (cases "ws = []")
  case True
  then show ?thesis by (cases b) (simp_all add: segs_def path_of_def clean_seg_def)
next
  case False
  then have sp: "SplitChar slash (Join ws ''/'') = ws"
    using assms(2) SplitChar_Join [of ws slash] by (auto simp: list_all_iff)
  obtain c w ws' where "ws = (c # w) # ws'" using False assms(2) by (cases ws; cases "hd ws") auto
  then have "IsAbs (Join ws ''/'') = False" using assms(2) by (auto simp: Join_head_Cons)
  moreover have "clean_seg b [] [] = []" by (simp add: clean_seg_def)
  ultimately show ?thesis using sp assms(1) False by (cases b) (simp_all add: segs_def path_of_def)
qed

lemma segs_Clean: "segs (Clean p) = segs p" "IsAbs (Clean p) = IsAbs p"
  using segs_path_of_stable [OF segs_stable segs_words, of p] by (simp_all add: Clean_def)

lemma SplitChar_sep_append: "SplitChar sep (a @ sep # b) = SplitChar sep a @ SplitChar sep b"
proof (induction a)
  case (Cons c a)
  obtain w ws where "SplitChar sep a = w # ws" by (cases "SplitChar sep a") auto
  with Cons show ?case by simp
qed simp

lemma Join_snoc: "xs \<noteq> [] \<Longrightarrow> Join (xs @ [y]) sep = Join xs sep @ sep @ y"
proof (induction xs)
  case (Cons x xs)
  then show ?case by (cases "xs = []") (simp_all add: Join_Cons_nonempty)
qed simp

text \<open>The directory of a file in a cleaned directory other than the root.\<close>

lemma path_Join_name:
  assumes "seg_ok name" and "segs d \<noteq> []"
  shows "path_Join d name = path_of (IsAbs d) (segs d @ [name])"
    and "path_Dir (path_of (IsAbs d) (segs d @ [name])) = Clean d"
proof -
  have d: "d \<noteq> []" using assms(2) by (auto simp: segs_def clean_seg_def)
  have n: "name \<noteq> []" "slash \<notin> set name" using assms(1) by (auto simp: seg_ok_def)
  have "IsAbs (d @ slash # name) = IsAbs d" using d by (cases d) simp_all
  moreover have "clean_seg b acc name = name # acc" for b acc using assms(1) by (simp add: clean_seg_def seg_ok_def)
  ultimately have "segs (d @ slash # name) = segs d @ [name]" "IsAbs (d @ slash # name) = IsAbs d"
    by (simp_all add: segs_def SplitChar_sep_append SplitChar_id [OF n(2)])
  then show "path_Join d name = path_of (IsAbs d) (segs d @ [name])" using d n(1) by (simp add: path_Join_def Clean_def)
  have f: "path_of (IsAbs d) (segs d @ [name]) = Clean d @ slash # name"
    using assms(2) by (simp add: path_of_def Clean_def Join_snoc)
  have tw: "takeWhile (\<lambda>c. c \<noteq> slash) (rev name @ slash # rev (Clean d)) = rev name"
    using n(2) by (subst takeWhile_append2) auto
  then have "path_Dir (Clean d @ slash # name) = Clean (Clean d @ [slash])"
    by (simp add: path_Dir_def last_index_def tw)
  also have "\<dots> = Clean d"
  proof -
    have c: "Clean d \<noteq> []" using segs_Clean(1) [of d] assms(2) by (auto simp: segs_def clean_seg_def)
    have a: "IsAbs (Clean d @ [slash]) = IsAbs (Clean d)" using c by (cases "Clean d") simp_all
    have "clean_seg b acc [] = acc" for b acc by (simp add: clean_seg_def)
    then have "segs (Clean d @ [slash]) = segs (Clean d)"
      using a SplitChar_sep_append [of slash "Clean d" "[]"] by (simp add: segs_def)
    with a have "segs (Clean d @ [slash]) = segs d" "IsAbs (Clean d @ [slash]) = IsAbs d" by (simp_all add: segs_Clean)
    then show ?thesis by (simp add: Clean_def)
  qed
  finally show "path_Dir (path_of (IsAbs d) (segs d @ [name])) = Clean d" by (simp add: f)
qed

lemma prefix_first_slash:
  assumes "slash \<notin> set r" and "slash \<notin> set p"
  shows "prefix (r @ slash # s) (p @ slash # t) \<longleftrightarrow> r = p \<and> prefix s t"
  using assms by (induction r p rule: list_induct2') auto

lemma prefix_no_slash: "slash \<notin> set r \<Longrightarrow> prefix r (p @ slash # t) \<longleftrightarrow> prefix r p"
  by (induction r p rule: list_induct2') auto

text \<open>A byte prefix of a path, in terms of its segments: all but the last segment agree, and the last one
  is only a prefix of the corresponding segment.\<close>

lemma prefix_Join:
  assumes "list_all seg_ok R" and "list_all seg_ok P" and "R \<noteq> []"
  shows "prefix (Join R ''/'') (Join P ''/'') \<longleftrightarrow> (\<exists>x rest. P = butlast R @ (last R @ x) # rest)"
  using assms
proof (induction R arbitrary: P rule: induct_list012)
  case (2 r)
  show ?case
  proof (cases P)
    case (Cons p ps)
    with 2 have "prefix r (Join P ''/'') \<longleftrightarrow> prefix r p"
      by (cases ps) (auto simp: seg_ok_def prefix_no_slash)
    with Cons show ?thesis by (auto simp: prefix_def)
  qed (use 2 in \<open>simp add: seg_ok_def\<close>)
next
  case (3 r r2 rs)
  show ?case
  proof (cases P)
    case Nil
    with 3 show ?thesis by (simp add: seg_ok_def)
  next
    case (Cons p ps)
    show ?thesis
    proof (cases ps)
      case Nil
      have "slash \<notin> set p" using 3 Cons by (simp add: seg_ok_def)
      then have "\<not> prefix (r @ slash # s) p" for s by (auto simp: prefix_def)
      with Cons Nil show ?thesis by auto
    next
      case (Cons q qs)
      then have "prefix (Join (r # r2 # rs) ''/'') (Join P ''/'') \<longleftrightarrow> r = p \<and> prefix (Join (r2 # rs) ''/'') (Join ps ''/'')"
        using 3 \<open>P = p # ps\<close> by (simp add: prefix_first_slash seg_ok_def)
      also have "\<dots> \<longleftrightarrow> r = p \<and> (\<exists>x rest. ps = butlast (r2 # rs) @ (last (r2 # rs) @ x) # rest)"
        using 3 \<open>P = p # ps\<close> by simp
      finally show ?thesis using \<open>P = p # ps\<close> by auto
    qed
  qed
qed simp

lemma HasPrefix_path_of:
  assumes "list_all seg_ok R" and "list_all seg_ok P" and "R \<noteq> []"
  shows "HasPrefix (path_of True P) (path_of True R) \<longleftrightarrow> (\<exists>x rest. P = butlast R @ (last R @ x) # rest)"
  using prefix_Join [OF assms] by (simp add: HasPrefix_iff_prefix path_of_def)

lemma ValidatePath_abs:
  assumes "IsAbs d" and "path \<noteq> []"
  shows "\<exists>ws. list_all seg_ok ws \<and> path_Abs (Inr d) path = Inr (path_of True ws)
    \<and> ValidatePath (Inr d) root path =
       (if root \<noteq> [] \<and> \<not> HasPrefix (path_of True ws) root
        then Inl (ErrMsg (''path '' @ path_of True ws @ '' is outside workspace root '' @ root)) else Inr (path_of True ws))"
proof -
  obtain a where a: "path_Abs (Inr d) path = Inr a" by (cases "IsAbs path") (simp_all add: path_Abs_def)
  with path_Abs_shape [OF a] assms(1) obtain ws where "list_all seg_ok ws" "a = path_of True ws" by auto
  with a assms(2) show ?thesis by (intro exI [of _ ws]) (simp add: ValidatePath_def Clean_path_of)
qed

lemma SetWorkspaceRoot_shape:
  assumes "IsAbs d"
  shows "\<exists>R. list_all seg_ok R \<and> SetWorkspaceRoot (Inr d) root = path_of True R"
proof -
  obtain a where a: "path_Abs (Inr d) root = Inr a" by (cases "IsAbs root") (simp_all add: path_Abs_def)
  with path_Abs_shape [OF a] assms show ?thesis by (auto simp: SetWorkspaceRoot_def Clean_path_of)
qed

lemma os_WriteFile_other: "os_WriteFile env fs p d = (fs1, r) \<Longrightarrow> q \<noteq> p \<Longrightarrow> fs1 q = fs q"
  by (auto simp: os_WriteFile_def split: option.splits prod.splits)

lemma os_WriteFile_ok: "os_WriteFile env fs p d = (fs1, None) \<Longrightarrow> fs1 = fs(p \<mapsto> d)"
  by (auto simp: os_WriteFile_def split: option.splits prod.splits)

text \<open>What one visited file contributes to a search.\<close>

definition visit_lines :: "file_env \<Rightarrow> files \<Rightarrow> (string \<Rightarrow> bool) \<Rightarrow> string \<Rightarrow> string \<Rightarrow> walk_item \<Rightarrow> string list" where
  "visit_lines env fs re root incl w =
     (if wi_err w \<or> wi_isDir w \<or> incl \<noteq> [] \<and> \<not> HasSuffix (wi_path w) incl then []
      else case os_ReadFile env fs (wi_path w) of Inl _ \<Rightarrow> [] | Inr data \<Rightarrow> grep_file re root (wi_path w) data)"

lemma grep_visit_lines:
  assumes "wi_done w = None"
  shows "fst (grep_visit env fs re root incl acc w) = acc @ visit_lines env fs re root incl w"
    and "snd (grep_visit env fs re root incl acc w) = Some e \<Longrightarrow> length (acc @ visit_lines env fs re root incl w) > 200"
    and "snd (grep_visit env fs re root incl acc w) = None \<Longrightarrow> length acc \<le> 200 \<Longrightarrow> length (acc @ visit_lines env fs re root incl w) \<le> 200"
  using assms by (auto simp: grep_visit_def visit_lines_def Let_def split: sum.splits if_splits)

lemma grep_walk_prefix:
  "\<exists>k \<le> length ws. fst (grep_walk env fs re root incl acc ws) = acc @ concat (map (visit_lines env fs re root incl) (take k ws))
     \<and> (list_all (\<lambda>w. wi_done w = None) ws \<longrightarrow> k < length ws \<longrightarrow> length (fst (grep_walk env fs re root incl acc ws)) > 200)"
proof (induction ws arbitrary: acc)
  case (Cons w ws)
  obtain acc1 r where v: "grep_visit env fs re root incl acc w = (acc1, r)" by fastforce
  show ?case
  proof (cases "wi_done w")
    case (Some e)
    then have "grep_walk env fs re root incl acc (w # ws) = (acc, Some e)" by (simp add: grep_visit_def)
    with Some show ?thesis by (intro exI [of _ 0]) simp
  next
    case None
    then have a: "acc1 = acc @ visit_lines env fs re root incl w" using grep_visit_lines(1) [OF None, of env fs re root incl acc] v by simp
    show ?thesis
    proof (cases r)
      case (Some e)
      with v a None grep_visit_lines(2) [OF None, of env fs re root incl acc e] show ?thesis
        by (intro exI [of _ 1]) simp
    next
      case r: None
      obtain k where "k \<le> length ws"
        "fst (grep_walk env fs re root incl acc1 ws) = acc1 @ concat (map (visit_lines env fs re root incl) (take k ws))"
        "list_all (\<lambda>w. wi_done w = None) ws \<longrightarrow> k < length ws \<longrightarrow> length (fst (grep_walk env fs re root incl acc1 ws)) > 200"
        using Cons.IH by blast
      with r v a show ?thesis by (intro exI [of _ "Suc k"]) simp
    qed
  qed
qed simp

subsection \<open>Properties\<close>

text \<open>C27: Which paths the file tools accept, with a workspace root set from an absolute working directory: the
  cleaned path is absolute without empty, \<open>.\<close> and \<open>..\<close> segments, and it is accepted exactly if it agrees with
  the root in all segments, except that its segment in the place of the root's last one may be longer. So
  no \<open>..\<close> leads out of the root's parent directory, but a sibling whose name starts with the root's name is
  accepted.\<close>

theorem accepted_paths:
  assumes "IsAbs wd" and "path \<noteq> []"
  shows "\<exists>P R. list_all seg_ok P \<and> list_all seg_ok R \<and> path_Abs (Inr wd) path = Inr (path_of True P)
    \<and> SetWorkspaceRoot (Inr wd) root = path_of True R
    \<and> ValidatePath (Inr wd) (SetWorkspaceRoot (Inr wd) root) path =
       (if R = [] \<or> (\<exists>x rest. P = butlast R @ (last R @ x) # rest) then Inr (path_of True P)
        else Inl (ErrMsg (''path '' @ path_of True P @ '' is outside workspace root '' @ path_of True R)))"
proof -
  obtain R where R: "list_all seg_ok R" "SetWorkspaceRoot (Inr wd) root = path_of True R"
    using SetWorkspaceRoot_shape [OF assms(1)] by blast
  obtain P where P: "list_all seg_ok P" "path_Abs (Inr wd) path = Inr (path_of True P)"
      "ValidatePath (Inr wd) (path_of True R) path = (if path_of True R \<noteq> [] \<and> \<not> HasPrefix (path_of True P) (path_of True R)
        then Inl (ErrMsg (''path '' @ path_of True P @ '' is outside workspace root '' @ path_of True R)) else Inr (path_of True P))"
    using ValidatePath_abs [OF assms] by blast
  have "path_of True R \<noteq> []" by (simp add: path_of_def)
  moreover have "HasPrefix (path_of True P) (path_of True R) \<longleftrightarrow> R = [] \<or> (\<exists>x rest. P = butlast R @ (last R @ x) # rest)"
    using HasPrefix_path_of [OF R(1) P(1)] by (cases "R = []") (auto simp: path_of_def)
  ultimately show ?thesis using P R by (intro exI [of _ P] exI [of _ R]) simp
qed

theorem accepted_paths_witness:
  "\<exists>P. path_Abs (Inr ''/home'') ''../etc/passwd'' = Inr (path_of True P) \<and> list_all seg_ok P"
  using accepted_paths [of "''/home''" "''../etc/passwd''" "''ws''"] by (auto simp: IsAbs_def)

text \<open>What a successful write stores is what a read of the same path returns, line by line with numbers, from
  the requested line on; no other file changes.\<close>

theorem write_then_read:
  assumes "WriteFile env root fs \<lparr>wf_Path = p, wf_Content = d\<rparr> = (fs1, Inr msg)"
    and "ValidatePath (fe_Getwd env) root p = Inr q" and "fe_read_err env q = None"
    and "off < int (length (split_lines d))"
  shows "ReadFile env root fs1 \<lparr>rf_Path = p, rf_Offset = off, rf_Limit = 0\<rparr> =
      Ok (numbered (max 1 off) (drop (nat (max 1 off - 1)) (split_lines d)))
    \<and> fs1 = fs(q \<mapsto> d)"
proof -
  have w: "fs1 = fs(q \<mapsto> d)"
    using assms(1,2) os_WriteFile_ok [of env fs q d] by (auto simp: WriteFile_def split: option.splits prod.splits)
  have "length (split_lines d) > 0" by simp
  with assms(2-4) w show ?thesis by (auto simp: ReadFile_def os_ReadFile_def Let_def max_def)
qed

definition plain_env :: file_env where
  "plain_env = \<lparr>fe_Getwd = Inr ''/ws'', fe_read_err = (\<lambda>_. None), fe_noent = (\<lambda>_. ErrMsg ''no such file''),
     fe_mkdir_err = (\<lambda>_. None), fe_write_err = (\<lambda>_. None), fe_Glob = (\<lambda>_. Inr []), fe_Walk = (\<lambda>_. []),
     fe_Compile = (\<lambda>_. Inr (\<lambda>_. True))\<rparr>"

theorem write_then_read_witness:
  "ReadFile plain_env ''/ws'' (fst (WriteFile plain_env ''/ws'' (\<lambda>_. None) \<lparr>wf_Path = ''a/../b'', wf_Content = ''x''\<rparr>))
     \<lparr>rf_Path = ''a/../b'', rf_Offset = 0, rf_Limit = 0\<rparr> = Ok (numbered 1 [''x''])"
proof -
  let ?w = "WriteFile plain_env ''/ws'' (\<lambda>_. None) \<lparr>wf_Path = ''a/../b'', wf_Content = ''x''\<rparr>"
  have v: "ValidatePath (fe_Getwd plain_env) ''/ws'' ''a/../b'' = Inr ''/ws/b''" by code_simp
  obtain msg where "?w = (fst ?w, Inr msg)" using v by (simp add: WriteFile_def os_WriteFile_def plain_env_def)
  from conjunct1 [OF write_then_read [OF this v, of 0]] show ?thesis by (simp add: plain_env_def [THEN arg_cong, of fe_read_err])
qed

text \<open>An edit of a non-empty text replaces every occurrence and nothing else: without an occurrence the file
  system is unchanged and the call fails; otherwise, if the system accepts the write, the file holds the text
  with each of the counted occurrences replaced, its length changed accordingly, and no other file changed.\<close>

theorem edit_replaces_occurrences:
  assumes "ValidatePath (fe_Getwd env) root p = Inr q" and "os_ReadFile env fs q = Inr d"
    and "fe_write_err env q = None" and "old \<noteq> []"
  shows "case EditFile env root fs \<lparr>ef_Path = p, ef_OldText = old, ef_NewText = new\<rparr> of (fs1, r) \<Rightarrow>
    if Contains d old
    then fs1 = fs(q \<mapsto> Join (SplitStr d old) new) \<and> Join (SplitStr d old) old = d \<and> (\<exists>msg. r = Inr msg)
      \<and> length (the (fs1 q)) + Count_str d old * length old = length d + Count_str d old * length new
    else fs1 = fs \<and> (\<exists>e. r = Inl e)"
proof -
  have "ReplaceAll d old new = Join (SplitStr d old) new" using assms(4) by (simp add: ReplaceAll_def)
  with assms Count_str_zero [OF assms(4), of d] length_ReplaceAll [OF assms(4), of d new] Join_SplitStr [OF assms(4), of d]
  show ?thesis by (auto simp: EditFile_def os_WriteFile_def Let_def)
qed

theorem edit_replaces_occurrences_witness:
  "fst (EditFile plain_env ''/ws'' (\<lambda>_. Some ''aba'') \<lparr>ef_Path = ''f'', ef_OldText = ''a'', ef_NewText = ''xy''\<rparr>) ''/ws/f'' = Some ''xybxy''"
proof -
  have v: "ValidatePath (fe_Getwd plain_env) ''/ws'' ''f'' = Inr ''/ws/f''" by code_simp
  have s: "SplitStr ''aba'' ''a'' = [[], ''b'', []]" "Contains ''aba'' ''a''" by code_simp+
  from edit_replaces_occurrences [OF v, of "\<lambda>_. Some ''aba''" "''aba''" "''a''" "''xy''"] s
  show ?thesis by (auto simp: os_ReadFile_def plain_env_def split: prod.splits)
qed

text \<open>A search reports exactly the matching lines of the files it visited, in the order of the walk: of all
  files if there are at most 200 matches, otherwise of the first files up to the one that exceeded 200.\<close>

theorem grep_results:
  assumes "list_all (\<lambda>w. wi_done w = None) ws"
  shows "let all = map (visit_lines env fs re root incl) ws; found = fst (grep_walk env fs re root incl [] ws) in
    (\<exists>k \<le> length ws. found = concat (take k all)) \<and> (length (concat all) \<le> 200 \<longrightarrow> found = concat all)
    \<and> (length (concat all) > 200 \<longrightarrow> length found > 200)"
proof -
  let ?v = "visit_lines env fs re root incl" and ?f = "fst (grep_walk env fs re root incl [] ws)"
  obtain k where k: "k \<le> length ws" "?f = concat (take k (map ?v ws))" "k < length ws \<longrightarrow> length ?f > 200"
    using grep_walk_prefix [of ws env fs re root incl "[]"] assms by (auto simp: take_map)
  have "concat (map ?v ws) = concat (take k (map ?v ws)) @ concat (drop k (map ?v ws))"
    by (metis append_take_drop_id concat_append)
  then have "length ?f \<le> length (concat (map ?v ws))" using k(2) by simp
  moreover have "k = length ws \<Longrightarrow> ?f = concat (map ?v ws)" using k(2) by simp
  ultimately show ?thesis using k by (fastforce simp: Let_def)
qed

theorem grep_results_witness:
  "let w = \<lparr>wi_path = ''/ws/f'', wi_err = False, wi_isDir = False, wi_done = None\<rparr> in
   fst (grep_walk plain_env (\<lambda>_. Some ''ab'') (\<lambda>_. True) ''/ws'' [] [] [w]) = [''f:1: ab'']"
proof -
  let ?w = "\<lparr>wi_path = ''/ws/f'', wi_err = False, wi_isDir = False, wi_done = None\<rparr>"
  have "visit_lines plain_env (\<lambda>_. Some ''ab'') (\<lambda>_. True) ''/ws'' [] ?w = [''f:1: ab'']" by code_simp
  with grep_results [of "[?w]" plain_env "\<lambda>_. Some ''ab''" "\<lambda>_. True" "''/ws''" "[]"] show ?thesis by (simp add: Let_def)
qed

text \<open>A limit near the largest integer overflows: reading from line 2 of a longer file panics.\<close>

theorem read_limit_panics:
  assumes "ValidatePath (fe_Getwd env) root p = Inr q" and "os_ReadFile env fs q = Inr d"
    and "off > 1" and "off \<le> int (length (split_lines d))" and "off < 2 ^ 62"
  shows "ReadFile env root fs \<lparr>rf_Path = p, rf_Offset = off, rf_Limit = 2 ^ 63 - 1\<rparr> = Panic"
proof -
  have "(18446744073709551614 + off) mod 18446744073709551616 = (off - 2 + 18446744073709551616) mod 18446744073709551616"
    by (simp add: algebra_simps)
  also have "\<dots> = off - 2" using assms(3,5) by (simp only: mod_add_self2) simp
  finally have "wrap64 (off - 1 + (2 ^ 63 - 1)) = off - 2 - 2 ^ 63" by (simp add: wrap64_def)
  with assms show ?thesis by (simp add: ReadFile_def Let_def)
qed

end
