(* ===== verification/Redact.thy ===== *)
theory Redact
  imports Types Text Regex
begin

section \<open>Secret redaction (protocol/redact.go)\<close>

text \<open>
  Secrets are masked in free text by ten regular expressions, in JSON bodies also by the names of their
  keys, in headers by the header's name and in URLs by position. The case-insensitive patterns also fold
  the two non-ASCII letters that are equivalent to ASCII ones, U+017F (s) and U+212A (k). The case tables
  beyond ASCII, \<open>json.Unmarshal\<close> and \<open>json.Marshal\<close>, and \<open>url.Parse\<close> with \<open>URL.String\<close>, which keep the
  parts of a URL this file does not look at, are arguments.
\<close>

subsection \<open>Case-insensitive matching\<close>

definition fold_rest :: "(char \<Rightarrow> bool) \<Rightarrow> string \<Rightarrow> string option" where
  "fold_rest p s =
     (case s of
        [] \<Rightarrow> None
      | c # t \<Rightarrow>
          if p (to_lower c) then Some t
          else if p CHR ''s'' \<and> HasPrefix s [CHR 0xC5, CHR 0xBF] then Some (drop 2 s)
          else if p CHR ''k'' \<and> HasPrefix s [CHR 0xE2, CHR 0x84, CHR 0xAA] then Some (drop 3 s)
          else None)"

lemma fold_rest_suffix: "fold_rest p s = Some t \<Longrightarrow> \<exists>u. u \<noteq> [] \<and> s = u @ t"
proof -
  assume a: "fold_rest p s = Some t"
  then obtain k where k: "0 < k" "k \<le> length s" "t = drop k s"
    by (fastforce simp: fold_rest_def HasPrefix_iff split: list.splits if_splits)
  then show ?thesis by (intro exI [of _ "take k s"]) auto
qed

fun fold_lit :: "string \<Rightarrow> string \<Rightarrow> string option" where
  "fold_lit [] s = Some s"
| "fold_lit (c # cs) s = do { t \<leftarrow> fold_rest (\<lambda>x. x = c) s; fold_lit cs t }"

fun fold_times :: "nat \<Rightarrow> (char \<Rightarrow> bool) \<Rightarrow> string \<Rightarrow> string option" where
  "fold_times 0 p s = Some s"
| "fold_times (Suc k) p s = do { t \<leftarrow> fold_rest p s; fold_times k p t }"

text \<open>As many characters of the class as there are.\<close>

function fold_many :: "(char \<Rightarrow> bool) \<Rightarrow> string \<Rightarrow> string" where
  "fold_many p s = (case fold_rest p s of None \<Rightarrow> s | Some t \<Rightarrow> fold_many p t)"
  by pat_completeness auto
termination
proof (relation "measure (\<lambda>(p, s). length s)")
  fix p s t assume "fold_rest p s = Some t"
  then show "((p, t), (p, s)) \<in> measure (\<lambda>(p, s). length s)" using fold_rest_suffix by fastforce
qed simp

declare fold_many.simps [simp del]

definition fold_atleast :: "nat \<Rightarrow> (char \<Rightarrow> bool) \<Rightarrow> string \<Rightarrow> string option" where
  "fold_atleast k p s = map_option (fold_many p) (fold_times k p s)"

subsection \<open>The patterns\<close>

text \<open>Classes are tested on the lower-cased character.\<close>

definition alnum :: "char \<Rightarrow> bool" where
  "alnum c = (is_digit c \<or> CHR ''a'' \<le> c \<and> c \<le> CHR ''z'')"

definition dash :: "char \<Rightarrow> bool" where
  "dash c = (c = CHR ''-'' \<or> c = CHR ''_'')"

definition name_char :: "char \<Rightarrow> bool" where
  "name_char c = (alnum c \<or> dash c)"

definition token68 :: "char \<Rightarrow> bool" where
  "token68 c = (alnum c \<or> c \<in> set ''-._~+/'')"

definition re_sk :: "string \<Rightarrow> string option" where
  "re_sk s = do {
     s1 \<leftarrow> fold_lit ''sk'' s;
     s2 \<leftarrow> fold_rest dash s1;
     s3 \<leftarrow> Some (case fold_lit ''live'' s2 of Some t \<Rightarrow> t | None \<Rightarrow>
       (case fold_lit ''test'' s2 of Some t \<Rightarrow> t | None \<Rightarrow> m_opt (fold_lit ''prod'') s2));
     s4 \<leftarrow> fold_rest dash s3;
     fold_atleast 20 alnum s4 }"

definition re_anthropic :: "string \<Rightarrow> string option" where
  "re_anthropic s = do { s1 \<leftarrow> fold_lit ''sk-ant-api'' s; s2 \<leftarrow> fold_rest dash s1; fold_atleast 20 alnum s2 }"

definition re_google :: "string \<Rightarrow> string option" where
  "re_google s = do { s1 \<leftarrow> fold_lit ''aiza'' s; fold_times 35 name_char s1 }"

definition re_ghp :: "string \<Rightarrow> string option" where
  "re_ghp s = do { s1 \<leftarrow> fold_lit ''ghp_'' s; fold_times 36 alnum s1 }"

definition re_github_pat :: "string \<Rightarrow> string option" where
  "re_github_pat s = do { s1 \<leftarrow> fold_lit ''github_pat_'' s; fold_atleast 60 (\<lambda>c. alnum c \<or> c = CHR ''_'') s1 }"

definition re_aws :: "string \<Rightarrow> string option" where
  "re_aws s = do { s1 \<leftarrow> fold_lit ''akia'' s; fold_times 16 alnum s1 }"

definition re_jwt :: "string \<Rightarrow> string option" where
  "re_jwt s = do {
     s1 \<leftarrow> fold_lit ''eyj'' s; s2 \<leftarrow> fold_atleast 10 name_char s1;
     s3 \<leftarrow> fold_lit ''.eyj'' s2; s4 \<leftarrow> fold_atleast 10 name_char s3;
     s5 \<leftarrow> fold_lit ''.'' s4; fold_atleast 10 name_char s5 }"

definition re_scheme :: "string \<Rightarrow> string \<Rightarrow> string option" where
  "re_scheme name s = do {
     s1 \<leftarrow> fold_lit name s; s2 \<leftarrow> m_many1 re_space s1; s3 \<leftarrow> fold_atleast 1 token68 s2;
     Some (dropWhile (\<lambda>c. c = CHR ''='') s3) }"

definition re_slack :: "string \<Rightarrow> string option" where
  "re_slack s = do {
     s1 \<leftarrow> fold_lit ''xox'' s; s2 \<leftarrow> fold_rest (\<lambda>c. c \<in> set ''baprs'') s1; s3 \<leftarrow> fold_lit ''-'' s2;
     fold_atleast 1 (\<lambda>c. alnum c \<or> c = CHR ''-'') s3 }"

definition secretPatterns :: "(string \<Rightarrow> string option) list" where
  "secretPatterns = [re_sk, re_anthropic, re_google, re_ghp, re_github_pat, re_aws, re_jwt,
     re_scheme ''bearer'', re_scheme ''basic'', re_slack]"

definition sensitiveJSONKeys :: "string list" where
  "sensitiveJSONKeys = [''api_key'', ''apikey'', ''api_secret'', ''apisecret'', ''token'', ''access_token'', ''refresh_token'',
     ''password'', ''passwd'', ''secret'', ''client_secret'', ''authorization'', ''x-api-key'', ''x-auth-token'']"

subsection \<open>Operations\<close>

abbreviation star :: char where "star \<equiv> CHR ''*''"

definition mask_secret :: "string \<Rightarrow> string" where
  "mask_secret m = (if length m \<le> 8 then replicate (length m) star
     else take 4 m @ replicate (length m - 8) star @ drop (length m - 4) m)"

definition RedactString :: "string \<Rightarrow> string" where
  "RedactString s = (if s = [] then s else foldl (\<lambda>r pat. replace_matches pat mask_secret r) s secretPatterns)"

definition isSensitiveHeader :: "(nat \<Rightarrow> nat) \<Rightarrow> string \<Rightarrow> bool" where
  "isSensitiveHeader low key =
     (ToLower_utf8 low key \<in> set [''authorization'', ''x-api-key'', ''x-auth-token'', ''proxy-authorization'', ''cookie''])"

definition redactValue :: "string list \<Rightarrow> string" where
  "redactValue vals = (case vals of [] \<Rightarrow> [] | v # _ \<Rightarrow> mask_secret v)"

text \<open>A nil map stays nil (\<open>None\<close>).\<close>

definition RedactHeaders :: "(nat \<Rightarrow> nat) \<Rightarrow> (string \<rightharpoonup> string list) option \<Rightarrow> (string \<rightharpoonup> string list) option" where
  "RedactHeaders low h = (case h of None \<Rightarrow> None
     | Some m \<Rightarrow> Some (\<lambda>k. map_option (\<lambda>v. if isSensitiveHeader low k then [redactValue v] else v) (m k)))"

definition isSensitiveKey :: "string \<Rightarrow> bool" where
  "isSensitiveKey key = list_ex (\<lambda>sk. key = sk) sensitiveJSONKeys"

abbreviation REDACTED :: string where "REDACTED \<equiv> ''[REDACTED]''"

text \<open>The value under a key that is not sensitive, and an element of an array.\<close>

function (sequential) redact_value :: "(nat \<Rightarrow> nat) \<Rightarrow> gany \<Rightarrow> gany" where
  "redact_value low (GObj m) =
     GObj (map (\<lambda>(k, v). (k, if isSensitiveKey (ToLower_utf8 low k) then GStr REDACTED else redact_value low v)) m)"
| "redact_value low (GArr xs) = GArr (map (redact_value low) xs)"
| "redact_value low (GStr s) = GStr (RedactString s)"
| "redact_value low v = v"
  by pat_completeness auto
termination
proof (relation "measure (\<lambda>(_, v). size v)")
  show "wf (measure (\<lambda>(_, v). size v))" by simp
next
  fix low :: "nat \<Rightarrow> nat" and m :: "(string \<times> gany) list" and z x y
  assume z: "z \<in> set m" "(x, y) = z"
  have "size_prod (\<lambda>_. 0) size z \<le> size_list (size_prod (\<lambda>_. 0) size) m"
    using z(1) by (simp add: size_list_estimation')
  with z(2) show "((low, y), (low, GObj m)) \<in> measure (\<lambda>(_, v). size v)" by auto
next
  fix low :: "nat \<Rightarrow> nat" and xs :: "gany list" and z
  assume "z \<in> set xs"
  then show "((low, z), (low, GArr xs)) \<in> measure (\<lambda>(_, v). size v)"
    using size_list_estimation' [of z xs "size z" size] by auto
qed

definition redactMap :: "(nat \<Rightarrow> nat) \<Rightarrow> (string \<times> gany) list \<Rightarrow> (string \<times> gany) list" where
  "redactMap low m = map (\<lambda>(k, v). (k, if isSensitiveKey (ToLower_utf8 low k) then GStr REDACTED else redact_value low v)) m"

definition redactSlice :: "(nat \<Rightarrow> nat) \<Rightarrow> gany list \<Rightarrow> gany list" where
  "redactSlice low arr = map (redact_value low) arr"

function utf8_Valid :: "string \<Rightarrow> bool" where
  "utf8_Valid [] = True"
| "utf8_Valid (a # s) = (case decode_rune a s of (r, t) \<Rightarrow> if r = 65533 \<and> t = s then False else utf8_Valid t)"
  by pat_completeness auto
termination
  by (relation "measure length") (simp, metis decode_rune_length in_measure le_imp_less_Suc length_Cons snd_conv)

definition RedactBody ::
  "(nat \<Rightarrow> nat) \<Rightarrow> (string \<Rightarrow> (string \<times> gany) list option) \<Rightarrow> ((string \<times> gany) list \<Rightarrow> string) \<Rightarrow> string \<Rightarrow> string" where
  "RedactBody low unmarshal marshal b =
     (if b = [] then b
      else if \<not> utf8_Valid b then RedactString b
      else case unmarshal b of
        None \<Rightarrow> RedactString b
      | Some obj \<Rightarrow> marshal (redactMap low obj))"

text \<open>A parsed URL: the parts \<open>RedactURL\<close> reads, and the others.\<close>

record 'r full_url =
  fu_user :: "(string \<times> string option) option"
  fu_query :: "(string \<times> string list) list"
  fu_other :: 'r

definition mask_param :: "string \<Rightarrow> string" where
  "mask_param v = (if length v > 8 then take 4 v @ ''****'' @ drop (length v - 4) v else ''****'')"

definition RedactURL ::
  "(string \<Rightarrow> 'r full_url option) \<Rightarrow> ('r full_url \<Rightarrow> string) \<Rightarrow> string \<Rightarrow> string" where
  "RedactURL parse print rawURL =
     (if rawURL = [] then rawURL
      else case parse rawURL of
        None \<Rightarrow> RedactString rawURL
      | Some u \<Rightarrow> print (u\<lparr>
          fu_user := (case fu_user u of Some (name, Some pwd) \<Rightarrow> Some (name, Some REDACTED) | x \<Rightarrow> x),
          fu_query := map (\<lambda>(k, vs). (k, map mask_param vs)) (fu_query u)\<rparr>))"


subsection \<open>What the matchers leave\<close>

definition leaves :: "(string \<Rightarrow> string option) \<Rightarrow> bool" where
  "leaves m \<longleftrightarrow> (\<forall>s t. m s = Some t \<longrightarrow> (\<exists>u. s = u @ t))"

named_theorems matcher_intros \<open>which matchers leave a suffix and which consume\<close>

lemma leaves_bind [matcher_intros]: "leaves m \<Longrightarrow> leaves k \<Longrightarrow> leaves (\<lambda>s. m s \<bind> k)"
  by (fastforce simp: leaves_def bind_eq_Some_conv)

lemma consumes_bind [matcher_intros]: "consumes m \<Longrightarrow> leaves k \<Longrightarrow> consumes (\<lambda>s. m s \<bind> k)"
  by (fastforce simp: leaves_def consumes_def bind_eq_Some_conv)

lemma consumes_leaves: "consumes m \<Longrightarrow> leaves m"
  unfolding leaves_def consumes_def by blast

lemma consumes_fold_rest [matcher_intros]: "consumes (fold_rest p)"
  using fold_rest_suffix by (auto simp: consumes_def)

lemma leaves_fold_rest [matcher_intros]: "leaves (fold_rest p)"
  by (rule consumes_leaves [OF consumes_fold_rest])

lemma leaves_fold_lit [matcher_intros]: "leaves (fold_lit cs)"
proof (induction cs)
  case (Cons c cs)
  have "fold_lit (c # cs) = (\<lambda>s. fold_rest (\<lambda>x. x = c) s \<bind> fold_lit cs)" by (rule ext) simp
  with Cons show ?case by (simp add: leaves_bind leaves_fold_rest)
qed (simp add: leaves_def)

lemma consumes_fold_lit [matcher_intros]: "cs \<noteq> [] \<Longrightarrow> consumes (fold_lit cs)"
proof (cases cs)
  case (Cons c ds)
  have "fold_lit (c # ds) = (\<lambda>s. fold_rest (\<lambda>x. x = c) s \<bind> fold_lit ds)" by (rule ext) simp
  with Cons show ?thesis by (simp add: consumes_bind consumes_fold_rest leaves_fold_lit)
qed simp

lemma leaves_fold_times [matcher_intros]: "leaves (fold_times k p)"
proof (induction k)
  case (Suc k)
  have "fold_times (Suc k) p = (\<lambda>s. fold_rest p s \<bind> fold_times k p)" by (rule ext) simp
  with Suc show ?case by (simp add: leaves_bind leaves_fold_rest)
qed (simp add: leaves_def)

lemma fold_many_suffix: "\<exists>u. s = u @ fold_many p s"
proof (induction p s rule: fold_many.induct)
  case (1 p s)
  show ?case
  proof (cases "fold_rest p s")
    case (Some t)
    then obtain u v where "s = u @ t" "t = v @ fold_many p t" using fold_rest_suffix 1 by blast
    with Some show ?thesis by (metis append.assoc fold_many.simps option.simps(5))
  qed (simp add: fold_many.simps)
qed

lemma leaves_fold_atleast [matcher_intros]: "leaves (fold_atleast k p)"
proof -
  have "leaves (\<lambda>s. Some (fold_many p s))" using fold_many_suffix by (auto simp: leaves_def)
  moreover have "fold_atleast k p = (\<lambda>s. fold_times k p s \<bind> (\<lambda>s. Some (fold_many p s)))"
  proof (rule ext)
    show "fold_atleast k p s = fold_times k p s \<bind> (\<lambda>s. Some (fold_many p s))" for s
      by (cases "fold_times k p s") (simp_all add: fold_atleast_def)
  qed
  ultimately show ?thesis using leaves_bind [OF leaves_fold_times [of k p]] by simp
qed

lemma leaves_dropWhile [matcher_intros]: "leaves (\<lambda>s. Some (dropWhile p s))"
  unfolding leaves_def by (metis option.inject takeWhile_dropWhile_id)

lemma leaves_many1 [matcher_intros]: "leaves (m_many1 p)"
  unfolding leaves_def
proof (intro allI impI)
  fix s t assume "m_many1 p s = Some t"
  then obtain c r where "s = c # r" "t = dropWhile p r" by (auto simp: m_many1_def split: list.splits if_splits)
  then have "s = (c # takeWhile p r) @ t" by simp
  then show "\<exists>u. s = u @ t" by blast
qed

lemma leaves_opt [matcher_intros]: "leaves m \<Longrightarrow> leaves (\<lambda>s. Some (m_opt m s))"
  by (auto simp: leaves_def m_opt_def split: option.splits)

lemma leaves_choice [matcher_intros]:
  "leaves m \<Longrightarrow> leaves (\<lambda>s. Some (f s)) \<Longrightarrow> leaves (\<lambda>s. Some (case m s of Some t \<Rightarrow> t | None \<Rightarrow> f s))"
  by (auto simp: leaves_def split: option.splits)

lemma secretPatterns_consume: "list_all consumes secretPatterns"
  unfolding secretPatterns_def re_sk_def [abs_def] re_anthropic_def [abs_def] re_google_def [abs_def] re_ghp_def [abs_def]
    re_github_pat_def [abs_def] re_aws_def [abs_def] re_jwt_def [abs_def] re_scheme_def [abs_def] re_slack_def [abs_def]
  unfolding list.pred_inject by (intro conjI TrueI matcher_intros) simp_all

text \<open>Masking turns bytes into stars and keeps the others, in place.\<close>

definition starred :: "char \<Rightarrow> char \<Rightarrow> bool" where
  "starred a b \<longleftrightarrow> b = a \<or> b = star"

lemma starred_all_refl: "list_all2 starred w w"
  by (simp add: starred_def list_all2_refl)

lemma mask_starred: "list_all2 starred w (mask_secret w)"
proof (cases "length w \<le> 8")
  case True
  then show ?thesis by (auto simp: mask_secret_def list_all2_conv_all_nth starred_def)
next
  case False
  have "list_all2 starred (take (length w - 8) (drop 4 w)) (replicate (length w - 8) star)"
    using False by (auto simp: list_all2_conv_all_nth starred_def)
  moreover have "w = take 4 w @ take (length w - 8) (drop 4 w) @ drop (length w - 8) (drop 4 w)" by (simp only: append_take_drop_id)
  moreover have "drop (length w - 8) (drop 4 w) = drop (length w - 4) w" using False by simp
  ultimately have "list_all2 starred (take 4 w @ take (length w - 8) (drop 4 w) @ drop (length w - 4) w)
    (take 4 w @ replicate (length w - 8) star @ drop (length w - 4) w)"
    by (intro list_all2_appendI starred_all_refl)
  then show ?thesis using False \<open>drop (length w - 8) (drop 4 w) = drop (length w - 4) w\<close>
    by (metis append_take_drop_id mask_secret_def)
qed


lemma starred_trans: "starred a b \<Longrightarrow> starred b c \<Longrightarrow> starred a c"
  by (auto simp: starred_def)

abbreviation redact_all :: "(string \<Rightarrow> string option) list \<Rightarrow> string \<Rightarrow> string" where
  "redact_all pats s \<equiv> foldl (\<lambda>r pat. replace_matches pat mask_secret r) s pats"

lemma redact_all_starred: "list_all consumes pats \<Longrightarrow> list_all2 starred s (redact_all pats s)"
proof (induction pats arbitrary: s)
  case (Cons p ps)
  have "list_all2 starred s (replace_matches p mask_secret s)"
    using Cons.prems by (intro replace_matches_rel mask_starred) (simp_all add: starred_def)
  with Cons show ?case by (auto intro: list_all2_trans [OF starred_trans])
qed (simp add: starred_all_refl)

lemma mask_inner: "i < length w \<Longrightarrow> length w \<le> 8 \<or> 4 \<le> i \<and> i + 4 < length w \<Longrightarrow> mask_secret w ! i = star"
  by (auto simp: mask_secret_def nth_append)

lemma length_mask [simp]: "length (mask_secret w) = length w"
  using mask_starred list_all2_lengthD by metis

text \<open>Where a value may show: a sensitive key with its value, and the strings of a value.\<close>

inductive leaks :: "(nat \<Rightarrow> nat) \<Rightarrow> gany \<Rightarrow> bool" for low where
  leak_here: "(k, v) \<in> set m \<Longrightarrow> isSensitiveKey (ToLower_utf8 low k) \<Longrightarrow> v \<noteq> GStr REDACTED \<Longrightarrow> leaks low (GObj m)"
| leak_obj: "(k, v) \<in> set m \<Longrightarrow> leaks low v \<Longrightarrow> leaks low (GObj m)"
| leak_arr: "v \<in> set xs \<Longrightarrow> leaks low v \<Longrightarrow> leaks low (GArr xs)"

inductive_cases leaksE: "leaks low (GObj m)" "leaks low (GArr xs)" "leaks low (GStr s)"

inductive string_at :: "gany \<Rightarrow> string \<Rightarrow> bool" where
  string_here: "string_at (GStr s) s"
| string_obj: "(k, v) \<in> set m \<Longrightarrow> string_at v s \<Longrightarrow> string_at (GObj m) s"
| string_arr: "v \<in> set xs \<Longrightarrow> string_at v s \<Longrightarrow> string_at (GArr xs) s"

inductive_simps string_at_simps [simp]:
  "string_at (GStr s) x" "string_at (GObj m) x" "string_at (GArr xs) x"

lemma redact_value_hides: "\<not> leaks low (redact_value low v)"
proof (induction low v rule: redact_value.induct)
  case (1 low m)
  show ?case
  proof
    assume "leaks low (redact_value low (GObj m))"
    then show False using 1 by (auto elim!: leaksE split: if_splits)
  qed
next
  case (2 low xs)
  then show ?case by (auto elim!: leaksE)
qed (auto elim: leaks.cases)

lemma redact_value_strings:
  "string_at (redact_value low v) s \<Longrightarrow> s = REDACTED \<or> (\<exists>s0. string_at v s0 \<and> s = RedactString s0)"
proof (induction low v arbitrary: s rule: redact_value.induct)
  case (1 low m)
  then show ?case by (fastforce split: if_splits)
next
  case (2 low xs)
  then show ?case by fastforce
qed (auto elim: string_at.cases)

lemma redactMap_value: "GObj (redactMap low m) = redact_value low (GObj m)"
  by (simp add: redactMap_def)

subsection \<open>Properties\<close>

text \<open>Redaction never moves or adds text: the result has the length of the input, and every byte is the
  one that was there or a star.\<close>

theorem redact_in_place: "length (RedactString s) = length s \<and> list_all2 starred s (RedactString s)"
  using redact_all_starred [OF secretPatterns_consume, of s] list_all2_lengthD [of starred s "RedactString s"]
  by (auto simp: RedactString_def)



text \<open>C26: In a redacted JSON object no sensitive key keeps its value at any depth, the keys of the object are
  unchanged, and every string in it is the redaction mark or the redaction of a string of the original.\<close>

theorem redacted_object_hides_secrets:
  "\<not> leaks low (GObj (redactMap low m)) \<and> map fst (redactMap low m) = map fst m
   \<and> {s. string_at (GObj (redactMap low m)) s} \<subseteq> {REDACTED} \<union> RedactString ` {s. string_at (GObj m) s}"
  using redact_value_hides [of low "GObj m"] redact_value_strings [of low "GObj m"]
  unfolding redactMap_value [symmetric] by (auto simp: redactMap_def simp del: string_at_simps)

text \<open>A key of the common form \<open>sk-\<close> and 32 letters and digits is not recognized: the first pattern wants two
  separators.\<close>

theorem plain_key_not_masked:
  "RedactString ''sk-0123456789abcdef0123456789abcdef'' = ''sk-0123456789abcdef0123456789abcdef''"
  by code_simp

end
