(* ===== verification/ChatModel.thy ===== *)
theory ChatModel
  imports Bridge Text "HOL-Library.AList"
begin

section \<open>The server's chat model (internal/server/chatmodel.go)\<close>

text \<open>
  The server package has a chat model of its own on top of the protocol client, an older twin of the
  bridge. It converts messages by its own functions and collects a stream by its own loop. The chunks are
  those the client delivers before it closes the channel, the answer of the recovery call is an argument,
  and the items are what the goroutine sends into the pipe; a nil tool call in a \<open>ChunkToolCall\<close> is
  dereferenced, which panics.
\<close>

record ChatModel =
  cm_tools :: "(string \<times> string \<times> string option) list"
  cm_model :: string

definition NewChatModel :: "string \<Rightarrow> ChatModel" where
  "NewChatModel model = \<lparr>cm_tools = [], cm_model = model\<rparr>"

definition WithTools :: "ChatModel \<Rightarrow> (string \<times> string \<times> string option) list \<Rightarrow> ChatModel" where
  "WithTools m tools = \<lparr>cm_tools = tools, cm_model = cm_model m\<rparr>"

text \<open>The telemetry of the protocol, if it has one, as a line and as a map that may fail to marshal.\<close>

definition StatsLine :: "ChatModel \<Rightarrow> string option \<Rightarrow> string" where
  "StatsLine m telemetry = (case telemetry of None \<Rightarrow> cm_model m | Some line \<Rightarrow> line)"

definition StatsJSON :: "(gerror + string) option \<Rightarrow> string" where
  "StatsJSON telemetry = (case telemetry of Some (Inr data) \<Rightarrow> data | _ \<Rightarrow> [])"

subsection \<open>Conversion\<close>

definition map_put :: "(string \<times> gany) list \<Rightarrow> string \<Rightarrow> gany \<Rightarrow> (string \<times> gany) list" where
  "map_put m k v = AList.update k v m"

definition image_item :: "EImage \<Rightarrow> (string \<times> gany) list" where
  "image_item im =
     (let img = [];
          img1 = (case img_URL im of Some u \<Rightarrow> map_put img ''url'' (GStr u) | None \<Rightarrow> img)
      in (case img_Base64 im of
            Some d \<Rightarrow> map_put img1 ''url'' (GStr (''data:'' @ img_MIME im @ '';base64,'' @ d))
          | None \<Rightarrow> img1))"

definition part_item :: "InputPart \<Rightarrow> (string \<times> gany) list" where
  "part_item p =
     (let item = [(''type'', GStr (ip_Type p))];
          item1 = (if ip_Text p \<noteq> [] then map_put item ''text'' (GStr (ip_Text p)) else item)
      in (case ip_Image p of Some im \<Rightarrow> map_put item1 ''image_url'' (GObj (image_item im)) | None \<Rightarrow> item1))"

definition ToProtoMsg :: "EMessage option \<Rightarrow> Message option" where
  "ToProtoMsg m = (case m of
     None \<Rightarrow> None
   | Some e \<Rightarrow> Some \<lparr>m_Role = em_Role e, m_Content = em_Content e, m_ReasoningContent = em_ReasoningContent e,
       m_ToolCalls = map (\<lambda>tc. \<lparr>tc_ID = tc_ID tc, tc_Type = tc_Type tc, tc_Name = tc_Name tc, tc_Arguments = tc_Arguments tc\<rparr>)
         (em_ToolCalls e),
       m_ToolCallID = em_ToolCallID e, m_Name = em_Name e,
       m_MultiContent = (if length (em_UserParts e) > 0 then map part_item (em_UserParts e) else [])\<rparr>)"

text \<open>\<open>None\<close>: one of the messages is nil and the conversion panics.\<close>

definition ToProtoMsgs :: "EMessage option list \<Rightarrow> Message list option" where
  "ToProtoMsgs msgs = those (map ToProtoMsg msgs)"

definition ToProtoTools :: "(string \<times> string \<times> string option) list \<Rightarrow> ToolSchema list" where
  "ToProtoTools tools = map (\<lambda>(n, d, js). \<lparr>ts_Name = n, ts_Description = d,
     ts_Parameters = (case js of Some s \<Rightarrow> s
       | None \<Rightarrow> ''{'' @ [CHR 0x22] @ ''type'' @ [CHR 0x22] @ '':'' @ [CHR 0x22] @ ''object'' @ [CHR 0x22] @ '','' @ [CHR 0x22]
                 @ ''properties'' @ [CHR 0x22] @ '':{}}'')\<rparr>) tools"

definition FromProtoResp :: "Response \<Rightarrow> EMessage" where
  "FromProtoResp resp = zero_EMessage\<lparr>em_Role := RoleAssistant, em_Content := r_Content resp,
     em_ReasoningContent := r_ReasoningContent resp,
     em_ToolCalls := map (\<lambda>tc. \<lparr>tc_ID = tc_ID tc, tc_Type = tc_Type tc, tc_Name = tc_Name tc, tc_Arguments = tc_Arguments tc\<rparr>)
       (r_ToolCalls resp)\<rparr>"

definition chat_request ::
  "(32 word \<Rightarrow> 64 word) \<Rightarrow> ChatModel \<Rightarrow> EMessage option list \<Rightarrow> common_options \<Rightarrow> Request option" where
  "chat_request float64 m input common = map_option (\<lambda>msgs.
     \<lparr>rq_Model = [], rq_Messages = msgs, rq_Tools = ToProtoTools (cm_tools m),
      rq_Temperature = (case co_Temperature common of Some t \<Rightarrow> Some (float64 t) | None \<Rightarrow> None),
      rq_TopP = (case co_TopP common of Some t \<Rightarrow> Some (float64 t) | None \<Rightarrow> None),
      rq_MaxTokens = co_MaxTokens common, rq_Stop = co_Stop common\<rparr>) (ToProtoMsgs input)"

subsection \<open>Generate and Stream\<close>

definition empty_message :: gerror where
  "empty_message = ErrMsg (''API'' @ utf8 [0x8FD4, 0x56DE, 0x7A7A, 0x6D88, 0x606F])"

text \<open>\<open>Chat\<close> of the protocol acts on a world; without an error it returns a response.\<close>

definition Generate ::
  "('w \<Rightarrow> Request \<Rightarrow> 'w \<times> (gerror + Response)) \<Rightarrow> (32 word \<Rightarrow> 64 word) \<Rightarrow> ChatModel \<Rightarrow> 'w \<Rightarrow> EMessage option list \<Rightarrow>
   common_options \<Rightarrow> 'w \<times> EMessage outcome" where
  "Generate chat float64 m w input common = (case chat_request float64 m input common of
     None \<Rightarrow> (w, Panic)
   | Some req \<Rightarrow> (case chat w req of (w1, r) \<Rightarrow> (w1, case r of
       Inl e \<Rightarrow> Err e
     | Inr resp \<Rightarrow> if r_Content resp = [] \<and> length (r_ToolCalls resp) = 0 then Err empty_message
                   else Ok (FromProtoResp resp))))"

fun set_call_args :: "ToolCall list \<Rightarrow> ToolCall \<Rightarrow> ToolCall list" where
  "set_call_args [] new = []"
| "set_call_args (tc # tcs) new =
     (if tc_ID tc = tc_ID new then tc\<lparr>tc_Arguments := tc_Arguments new\<rparr> # tcs else tc # set_call_args tcs new)"

definition stream_notice :: EMessage where
  "stream_notice = zero_EMessage\<lparr>em_Role := RoleAssistant,
     em_Content := ''['' @ utf8 [0x6D41, 0x4E2D, 0x65AD, 0xFF0C, 0x6B63, 0x5728, 0x6062, 0x590D] @ ''...]''\<rparr>"

definition stream_msg :: "string \<Rightarrow> string \<Rightarrow> ToolCall list \<Rightarrow> EMessage" where
  "stream_msg content reasoning calls = zero_EMessage\<lparr>em_Role := RoleAssistant, em_Content := content,
     em_ReasoningContent := reasoning, em_ToolCalls := (if length calls > 0 then calls else [])\<rparr>"

text \<open>The goroutine of \<open>Stream\<close>: the items it sends and whether it panics. An empty list is the closed
  channel. No path reaches the end of the loop after an interruption.\<close>

fun chatmodel_loop :: "(gerror + Response) \<Rightarrow> string \<Rightarrow> string \<Rightarrow> ToolCall list \<Rightarrow> Chunk list \<Rightarrow> pipe_item list \<times> bool" where
  "chatmodel_loop recover content reasoning calls [] =
     ([PMsg (stream_msg content reasoning calls)], False)"
| "chatmodel_loop recover content reasoning calls (chunk # ch) =
     (case ch_Type chunk of
        ChunkText \<Rightarrow> chatmodel_loop recover (content @ ch_Text chunk) reasoning calls ch
      | ChunkReasoning \<Rightarrow> chatmodel_loop recover content (reasoning @ ch_Text chunk) calls ch
      | ChunkToolCallStart \<Rightarrow>
          (case ch_ToolCall chunk of
             Some tc \<Rightarrow> chatmodel_loop recover content reasoning
               (calls @ [\<lparr>tc_ID = tc_ID tc, tc_Type = ''function'', tc_Name = tc_Name tc, tc_Arguments = []\<rparr>]) ch
           | None \<Rightarrow> chatmodel_loop recover content reasoning calls ch)
      | ChunkToolCall \<Rightarrow>
          (case ch_ToolCall chunk of
             Some tc \<Rightarrow> chatmodel_loop recover content reasoning (set_call_args calls tc) ch
           | None \<Rightarrow> if calls \<noteq> [] then ([], True) else chatmodel_loop recover content reasoning calls ch)
      | ChunkDone \<Rightarrow>
          (case chatmodel_loop recover [] [] [] ch of (items, panic) \<Rightarrow>
             (PMsg (stream_msg content reasoning calls) # items, panic))
      | ChunkError \<Rightarrow>
          (case ch_Error chunk of
             Some e \<Rightarrow>
               if errors_As e is_StreamInterrupted \<noteq> None then
                 (PMsg stream_notice # (case recover of Inl err \<Rightarrow> [PErr err] | Inr resp \<Rightarrow> [PMsg (FromProtoResp resp)]), False)
               else ([], False)
           | None \<Rightarrow> ([], False))
      | _ \<Rightarrow> chatmodel_loop recover content reasoning calls ch)"

definition chat_stream :: "(gerror + Response) \<Rightarrow> Chunk list \<Rightarrow> pipe_item list \<times> bool" where
  "chat_stream recover chunks = chatmodel_loop recover [] [] [] chunks"

subsection \<open>Lemmas\<close>

lemma image_item_from_image: "image_item im = from_image im"
  by (auto simp: image_item_def from_image_def map_put_def split: option.splits)

lemma part_item_from_part: "part_item p = from_part p"
  by (auto simp: part_item_def from_part_def map_put_def image_item_from_image Let_def split: option.splits)

lemma call_copy: "map (\<lambda>tc. \<lparr>tc_ID = tc_ID tc, tc_Type = tc_Type tc, tc_Name = tc_Name tc, tc_Arguments = tc_Arguments tc\<rparr>) cs = cs"
  by (rule map_idI) simp

lemma ToProtoMsg_eq: "ToProtoMsg m = toProtoMsg m"
proof -
  have "part_item = from_part" by (rule ext) (rule part_item_from_part)
  then show ?thesis
    by (auto simp: ToProtoMsg_def toProtoMsg_def zero_Message_def call_copy split: option.splits)
qed

lemma ToProtoTools_eq: "ToProtoTools = toProtoTools"
  by (rule ext) (simp add: ToProtoTools_def toProtoTools_def)

lemma FromProtoResp_eq: "FromProtoResp = fromProtoResp"
  by (rule ext) (simp add: FromProtoResp_def fromProtoResp_def call_copy)

lemma set_call_args_eq: "set_call_args tcs tc = set_args tcs (tc_ID tc) (tc_Arguments tc)"
  by (induction tcs) auto

lemma stream_msg_eq: "stream_msg (fullContent t) (fullReasoning t) (toolCalls t) = collected_msg t"
  by (simp add: stream_msg_def collected_msg_def)

lemma stream_notice_eq: "em_Content stream_notice = recovering_notice"
  by (simp add: stream_notice_def recovering_notice_def zero_EMessage_def utf8_def encode_rune_def)
    (intro conjI; rule char_of_lit; simp)

text \<open>Before the end of the answer, the two loops keep the same state.\<close>

definition calls_present :: "Chunk list \<Rightarrow> bool" where
  "calls_present cs \<longleftrightarrow> list_all (\<lambda>c. ch_Type c = ChunkToolCall \<longrightarrow> ch_ToolCall c \<noteq> None) cs"

lemma chat_loop_collects:
  assumes "no_end cs" and "calls_present cs"
  shows "chatmodel_loop recover (fullContent s) (fullReasoning s) (toolCalls s) (cs @ ds) =
     (let t = foldl collect s cs in chatmodel_loop recover (fullContent t) (fullReasoning t) (toolCalls t) ds)"
  using assms
proof (induction cs arbitrary: s)
  case (Cons c cs)
  have "no_end cs" "calls_present cs" "ch_Type c \<noteq> ChunkDone" "ch_Type c \<noteq> ChunkError"
    "ch_Type c = ChunkToolCall \<longrightarrow> ch_ToolCall c \<noteq> None"
    using Cons.prems by (auto simp: no_end_def calls_present_def)
  then show ?case
    using Cons.IH [of "collect s c"]
    by (cases "ch_Type c") (auto simp: collect_def set_call_args_eq Let_def split: option.splits)
qed simp

subsection \<open>Properties\<close>

text \<open>The server's conversion functions are the bridge's: for every input they build the same request, panic
  on the same inputs and make the same message of a response.\<close>

theorem chatmodel_converts_like_bridge:
  "chat_request float64 m input common = buildRequest float64 input (cm_tools m) common \<and> FromProtoResp resp = fromProtoResp resp"
proof -
  have "map ToProtoMsg input = map toProtoMsg input" by (rule map_cong) (simp_all add: ToProtoMsg_eq)
  then have "ToProtoMsgs input = toProtoMsgs input" unfolding ToProtoMsgs_def toProtoMsgs_def by (rule arg_cong)
  then show ?thesis
    by (simp add: chat_request_def buildRequest_def ToProtoTools_eq FromProtoResp_eq map_option_case)
qed

text \<open>The two stream collectors compared: for an answer that ends with a done chunk the server's loop sends the
  message the bridge sends, followed by a second, empty message; for one that ends with a plain error the
  bridge reports the error and the server's loop ends as if nothing had been answered; for an interrupted
  one both send the notice and the recovered answer, but only the server's loop reports a failed recovery.\<close>

theorem chatmodel_stream_vs_bridge:
  assumes "no_end body" and "calls_present body" and "errors_As e is_StreamInterrupted = None"
    and "errors_As ie is_StreamInterrupted \<noteq> None"
  shows "chat_stream rec (body @ [zero_Chunk ChunkDone]) =
      (bridge_stream rec (body @ [zero_Chunk ChunkDone]) @ [PMsg (zero_EMessage\<lparr>em_Role := RoleAssistant\<rparr>)], False)
    \<and> bridge_stream rec (body @ [(zero_Chunk ChunkError)\<lparr>ch_Error := Some e\<rparr>]) = [PErr e]
    \<and> chat_stream rec (body @ [(zero_Chunk ChunkError)\<lparr>ch_Error := Some e\<rparr>]) = ([], False)
    \<and> chat_stream rec (body @ [(zero_Chunk ChunkError)\<lparr>ch_Error := Some ie\<rparr>]) =
      (bridge_stream rec (body @ [(zero_Chunk ChunkError)\<lparr>ch_Error := Some ie\<rparr>])
         @ (case rec of Inl err \<Rightarrow> [PErr err] | Inr _ \<Rightarrow> []), False)"
proof -
  let ?t = "foldl collect collected_init body"
  have c: "chat_stream rec (body @ ds) = chatmodel_loop rec (fullContent ?t) (fullReasoning ?t) (toolCalls ?t) ds" for ds
    using chat_loop_collects [OF assms(1,2), of rec collected_init ds] by (simp add: chat_stream_def collected_init_def Let_def)
  have b: "bridge_stream rec (body @ ds) = bridge_loop rec None (length body) ?t ds" for ds
    using bridge_loop_collects [OF assms(1), of rec 0 collected_init ds] by (simp add: bridge_stream_def)
  have n: "stream_notice = zero_EMessage\<lparr>em_Role := RoleAssistant, em_Content := recovering_notice\<rparr>"
    using stream_notice_eq by (simp add: stream_notice_def zero_EMessage_def)
  have m: "stream_msg [] [] [] = zero_EMessage\<lparr>em_Role := RoleAssistant\<rparr>" by (simp add: stream_msg_def zero_EMessage_def)
  show ?thesis unfolding c b
    using assms(3,4) by (auto simp: zero_Chunk_def stream_msg_eq m n FromProtoResp_eq split: sum.splits)
qed

theorem chatmodel_stream_vs_bridge_witness:
  "fst (chat_stream (Inl ErrCanceled) ([text_chunk ChunkText ''hi''] @ [zero_Chunk ChunkDone])) =
     [PMsg (zero_EMessage\<lparr>em_Role := RoleAssistant, em_Content := ''hi''\<rparr>), PMsg (zero_EMessage\<lparr>em_Role := RoleAssistant\<rparr>)]"
proof -
  have "no_end [text_chunk ChunkText ''hi'']" "calls_present [text_chunk ChunkText ''hi'']"
    by (simp_all add: no_end_def calls_present_def text_chunk_def zero_Chunk_def)
  from chatmodel_stream_vs_bridge [OF this, of ErrEOF "StreamInterruptedError True ErrEOF" "Inl ErrCanceled"]
  show ?thesis
    by (simp add: errors_As_def bridge_stream_def collect_def collected_init_def collected_msg_def text_chunk_def zero_Chunk_def
        zero_EMessage_def)
qed

end
