(* ===== verification/WebTools.thy ===== *)
theory WebTools
  imports UrlValidator Types Text
begin

section \<open>Tools that call web services (tools/vision.go, tools/compress.go, tools/websearch.go)\<close>

text \<open>
  The three tools post JSON to a service and turn its answer into text. The environment variables, the JSON
  codec and the network are arguments: \<open>http\<close> gives the outcome of a request after the requests made so far,
  which are threaded through as a list, so that what is sent is visible.
\<close>

subsection \<open>HTTP\<close>

record http_req =
  hr_Method :: string
  hr_URL :: string
  hr_Header :: "(string \<times> string) list"
  hr_Body :: string

text \<open>\<open>NewRequest\<close> may refuse, \<open>client.Do\<close> and reading the body may fail.\<close>

datatype http_result = BadRequest gerror | DoFailed gerror | ReadFailed nat gerror | Answer nat string

record web_env =
  we_getenv :: "string \<Rightarrow> string"
  we_http :: "http_req list \<Rightarrow> http_req \<Rightarrow> http_result"
  we_marshal :: "gany \<Rightarrow> gerror + string"
  we_api_error :: "string \<Rightarrow> string option"
  we_choices :: "string \<Rightarrow> gerror + string list"
  we_search :: "string \<Rightarrow> gerror + (bool \<times> (string \<times> string \<times> string) list)"
  we_parse_error :: "string \<Rightarrow> gerror"

definition issue :: "http_req \<Rightarrow> http_result \<Rightarrow> http_req list \<Rightarrow> http_req list" where
  "issue req r tr = (case r of BadRequest _ \<Rightarrow> tr | _ \<Rightarrow> tr @ [req])"

definition EqualFold_true :: "string \<Rightarrow> bool" where
  "EqualFold_true s = (ToLower s = ''true'')"

subsection \<open>Base64 (encoding/base64)\<close>

definition b64_char :: "nat \<Rightarrow> char" where
  "b64_char n = (if n < 26 then char_of (65 + n) else if n < 52 then char_of (71 + n)
     else if n < 62 then char_of (n - 4) else if n = 62 then CHR ''+'' else CHR ''/'')"

fun EncodeToString :: "string \<Rightarrow> string" where
  "EncodeToString [] = []"
| "EncodeToString [a] = (let n = of_char a * 65536 in [b64_char (n div 262144), b64_char (n div 4096 mod 64)] @ ''=='')"
| "EncodeToString [a, b] = (let n = of_char a * 65536 + of_char b * 256 in
     [b64_char (n div 262144), b64_char (n div 4096 mod 64), b64_char (n div 64 mod 64)] @ ''='')"
| "EncodeToString (a # b # c # s) = (let n = of_char a * 65536 + of_char b * 256 + of_char c in
     [b64_char (n div 262144), b64_char (n div 4096 mod 64), b64_char (n div 64 mod 64), b64_char (n mod 64)] @ EncodeToString s)"

subsection \<open>Calling a chat completion\<close>

text \<open>What \<open>RunVision\<close> and \<open>RunCompress\<close> do with a request body: the same calls with the same error texts.\<close>

definition post_chat :: "web_env \<Rightarrow> http_req list \<Rightarrow> string \<Rightarrow> string \<Rightarrow> gany \<Rightarrow> http_req list \<times> (gerror + string)" where
  "post_chat env tr apiKey apiURL reqBody =
     (case we_marshal env reqBody of
        Inl e \<Rightarrow> (tr, Inl (ErrWrap (utf8 [0x5E8F, 0x5217, 0x5316, 0x8BF7, 0x6C42, 0x5931, 0x8D25]) e))
      | Inr body \<Rightarrow>
         (let req = \<lparr>hr_Method = ''POST'', hr_URL = apiURL,
                hr_Header = [(''Content-Type'', ''application/json''), (''Authorization'', ''Bearer '' @ apiKey)], hr_Body = body\<rparr>;
              r = we_http env tr req in
          (issue req r tr,
           case r of
             BadRequest e \<Rightarrow> Inl (ErrWrap (utf8 [0x521B, 0x5EFA, 0x8BF7, 0x6C42, 0x5931, 0x8D25]) e)
           | DoFailed e \<Rightarrow> Inl (ErrWrap (''API'' @ utf8 [0x8BF7, 0x6C42, 0x5931, 0x8D25]) e)
           | ReadFailed _ e \<Rightarrow> Inl (ErrWrap (utf8 [0x8BFB, 0x53D6, 0x54CD, 0x5E94, 0x5931, 0x8D25]) e)
           | Answer _ respBody \<Rightarrow>
               (case we_api_error env respBody of
                  Some msg \<Rightarrow> Inl (ErrMsg (''API'' @ utf8 [0x9519, 0x8BEF] @ '': '' @ msg))
                | None \<Rightarrow>
                   (case we_choices env respBody of
                      Inl e \<Rightarrow> Inl (ErrWrap (utf8 [0x89E3, 0x6790, 0x54CD, 0x5E94, 0x5931, 0x8D25]) e)
                    | Inr cs \<Rightarrow> (case cs of [] \<Rightarrow> Inl (ErrMsg (''API'' @ utf8 [0x8FD4, 0x56DE, 0x7A7A, 0x7ED3, 0x679C])) | c # _ \<Rightarrow> Inr c))))))"

definition chat_url :: "string \<Rightarrow> string" where
  "chat_url baseURL = TrimRight baseURL ''/'' @ ''/chat/completions''"

subsection \<open>Vision (tools/vision.go)\<close>

definition private_image :: gerror where
  "private_image = ErrMsg ''image URL points to private/internal address (set ALLOW_PRIVATE_IMAGE_URLS=true to override)''"

definition fetchImage :: "web_env \<Rightarrow> http_req list \<Rightarrow> string \<Rightarrow> http_req list \<times> (gerror + string)" where
  "fetchImage env tr rawURL =
     (case url_parse rawURL of
        None \<Rightarrow> (tr, Inl (ErrWrap ''invalid image URL'' (we_parse_error env rawURL)))
      | Some u \<Rightarrow>
         (let host = url_Hostname u in
          if host \<noteq> [] \<and> isPrivateHost host \<and> \<not> EqualFold_true (we_getenv env ''ALLOW_PRIVATE_IMAGE_URLS'') then (tr, Inl private_image)
          else let req = \<lparr>hr_Method = ''GET'', hr_URL = rawURL,
                     hr_Header = [(''User-Agent'', ''Mozilla/5.0 (Windows NT 10.0; Win64; x64)'')], hr_Body = []\<rparr>;
                   r = we_http env tr req in
               (issue req r tr,
                case r of
                  BadRequest e \<Rightarrow> Inl e
                | DoFailed e \<Rightarrow> Inl e
                | ReadFailed status e \<Rightarrow> if status \<noteq> 200 then Inl (ErrMsg (''HTTP '' @ show_nat status)) else Inl e
                | Answer status data \<Rightarrow> if status \<noteq> 200 then Inl (ErrMsg (''HTTP '' @ show_nat status)) else Inr data)))"

definition vision_body :: "string \<Rightarrow> string \<Rightarrow> string \<Rightarrow> gany" where
  "vision_body modelID prompt imgURL = GObj [(''model'', GStr modelID), (''messages'', GArr [GObj [(''role'', GStr ''user''),
     (''content'', GArr [GObj [(''type'', GStr ''text''), (''text'', GStr prompt)],
        GObj [(''type'', GStr ''image_url''), (''image_url'', GObj [(''url'', GStr imgURL)])]])]])]"

definition RunVision :: "web_env \<Rightarrow> http_req list \<Rightarrow> string \<Rightarrow> string \<Rightarrow> http_req list \<times> (gerror + string)" where
  "RunVision env tr imageURL prompt0 =
     (let apiKey = we_getenv env ''VISION_API_KEY''; baseURL = we_getenv env ''VISION_BASE_URL'';
          modelID = (if we_getenv env ''VISION_MODEL'' = [] then ''gpt-4o'' else we_getenv env ''VISION_MODEL'');
          prompt = (if prompt0 = [] then utf8 [0x8BF7, 0x8BE6, 0x7EC6, 0x63CF, 0x8FF0, 0x8FD9, 0x5F20, 0x56FE, 0x7247, 0x7684, 0x5185, 0x5BB9] else prompt0) in
      if apiKey = [] \<or> baseURL = [] then
        (tr, Inl (ErrMsg (utf8 [0x8BF7, 0x8BBE, 0x7F6E] @ '' VISION_API_KEY '' @ utf8 [0x548C] @ '' VISION_BASE_URL'')))
      else
        (case (if HasPrefix imageURL ''data:'' then (tr, Inr imageURL)
               else case fetchImage env tr imageURL of (tr1, r) \<Rightarrow>
                 (tr1, case r of Inl e \<Rightarrow> Inl (ErrWrap (utf8 [0x4E0B, 0x8F7D, 0x56FE, 0x7247, 0x5931, 0x8D25]) e)
                       | Inr data \<Rightarrow> Inr (''data:image/png;base64,'' @ EncodeToString data))) of
           (tr1, Inl e) \<Rightarrow> (tr1, Inl e)
         | (tr1, Inr imgURL) \<Rightarrow> post_chat env tr1 apiKey (chat_url baseURL) (vision_body modelID prompt imgURL)))"

subsection \<open>Compression by a model (tools/compress.go)\<close>

definition compress_body :: "string \<Rightarrow> string \<Rightarrow> gany" where
  "compress_body modelID prompt = GObj [(''model'', GStr modelID),
     (''messages'', GArr [GObj [(''role'', GStr ''user''), (''content'', GStr prompt)]])]"

definition RunCompress :: "web_env \<Rightarrow> http_req list \<Rightarrow> string \<Rightarrow> string \<Rightarrow> http_req list \<times> (gerror + string)" where
  "RunCompress env tr content instruction =
     (let apiKey = we_getenv env ''COMPRESS_API_KEY''; baseURL = we_getenv env ''COMPRESS_BASE_URL'';
          modelID = (if we_getenv env ''COMPRESS_MODEL'' = [] then ''gpt-4o-mini'' else we_getenv env ''COMPRESS_MODEL'') in
      if apiKey = [] \<or> baseURL = [] then
        (tr, Inl (ErrMsg (utf8 [0x8BF7, 0x8BBE, 0x7F6E] @ '' COMPRESS_API_KEY '' @ utf8 [0x548C] @ '' COMPRESS_BASE_URL'')))
      else
        (let prompt = (if instruction = [] then utf8 [0x8BF7, 0x538B, 0x7F29, 0x4EE5, 0x4E0B, 0x5185, 0x5BB9, 0xFF0C, 0x4FDD, 0x7559, 0x6240, 0x6709, 0x5173, 0x952E, 0x4FE1, 0x606F, 0xFF0C, 0x53BB, 0x9664, 0x5197, 0x4F59, 0xFF0C, 0x8BED, 0x8A00, 0x4FDD, 0x6301, 0x4E0D, 0x53D8]
               else instruction) @ [nl, nl] @ content in
         post_chat env tr apiKey (chat_url baseURL) (compress_body modelID prompt)))"

subsection \<open>Search (tools/websearch.go)\<close>

definition search_item :: "nat \<Rightarrow> string \<times> string \<times> string \<Rightarrow> string" where
  "search_item i r = (case r of (url, title, descr) \<Rightarrow>
     show_nat (i + 1) @ ''. '' @ title @ [nl] @ ''   URL: '' @ url @ [nl]
     @ (if descr \<noteq> [] then ''   '' @ utf8 [0x6458, 0x8981] @ '': '' @ descr @ [nl] else []) @ [nl])"

definition search_text :: "(string \<times> string \<times> string) list \<Rightarrow> string" where
  "search_text web = utf8 [0x627E, 0x5230] @ '' '' @ show_nat (length web) @ '' '' @ utf8 [0x6761, 0x7ED3, 0x679C] @ '':'' @ [nl, nl]
     @ concat (map (\<lambda>(i, r). search_item i r) (enumerate 0 web))"

definition search_instruction :: string where
  "search_instruction = utf8 [0x538B, 0x7F29, 0x4EE5, 0x4E0B, 0x641C, 0x7D22, 0x7ED3, 0x679C, 0xFF0C, 0x4FDD, 0x7559, 0x6240, 0x6709, 0x6807, 0x9898, 0x548C] @ '' URL''
     @ utf8 [0xFF0C, 0x5BF9, 0x6BCF, 0x4E2A, 0x7ED3, 0x679C, 0x7528, 0x4E00, 0x53E5, 0x8BDD, 0x6982, 0x62EC, 0xFF0C, 0x4FDD, 0x6301, 0x8BED, 0x8A00, 0x4E0D, 0x53D8, 0xFF1A]"

definition WebSearch :: "web_env \<Rightarrow> http_req list \<Rightarrow> string \<Rightarrow> http_req list \<times> (gerror + string)" where
  "WebSearch env tr query =
     (let apiKey = we_getenv env ''FIRECRAWL_API_KEY'' in
      case we_marshal env (GObj [(''query'', GStr query), (''limit'', GInt 5)]) of
        Inl e \<Rightarrow> (tr, Inl (ErrWrap (utf8 [0x5E8F, 0x5217, 0x5316, 0x8BF7, 0x6C42, 0x5931, 0x8D25]) e))
      | Inr body \<Rightarrow>
         (let req = \<lparr>hr_Method = ''POST'', hr_URL = ''https://api.firecrawl.dev/v2/search'',
                hr_Header = (''Content-Type'', ''application/json'')
                  # (if apiKey \<noteq> [] then [(''Authorization'', ''Bearer '' @ apiKey)] else []), hr_Body = body\<rparr>;
              r = we_http env tr req; tr1 = issue req r tr in
          case r of
            BadRequest e \<Rightarrow> (tr1, Inl (ErrWrap (utf8 [0x521B, 0x5EFA, 0x8BF7, 0x6C42, 0x5931, 0x8D25]) e))
          | DoFailed e \<Rightarrow> (tr1, Inl (ErrWrap (''API '' @ utf8 [0x8BF7, 0x6C42, 0x5931, 0x8D25]) e))
          | ReadFailed _ e \<Rightarrow> (tr1, Inl (ErrWrap (utf8 [0x8BFB, 0x53D6, 0x54CD, 0x5E94, 0x5931, 0x8D25]) e))
          | Answer _ respBody \<Rightarrow>
              (case we_search env respBody of
                 Inl e \<Rightarrow> (tr1, Inl (ErrWrap (utf8 [0x89E3, 0x6790, 0x54CD, 0x5E94, 0x5931, 0x8D25]) e))
               | Inr (success, web) \<Rightarrow>
                   if \<not> success \<or> web = [] then (tr1, Inr (utf8 [0x672A, 0x627E, 0x5230, 0x7ED3, 0x679C]))
                   else let output = search_text web in
                     if length output > 2000 then
                       (case RunCompress env tr1 output search_instruction of
                          (tr2, Inr compressed) \<Rightarrow> (tr2, Inr compressed)
                        | (tr2, Inl _) \<Rightarrow> (tr2, Inr output))
                     else (tr1, Inr output))))"


subsection \<open>Properties\<close>

definition api_call :: "string \<Rightarrow> string \<Rightarrow> http_req \<Rightarrow> bool" where
  "api_call baseURL apiKey q \<longleftrightarrow> hr_Method q = ''POST'' \<and> hr_URL q = chat_url baseURL
     \<and> hr_Header q = [(''Content-Type'', ''application/json''), (''Authorization'', ''Bearer '' @ apiKey)]"

text \<open>A download of an image that does not reach into the private network, unless that was allowed.\<close>

definition image_get :: "bool \<Rightarrow> string \<Rightarrow> http_req \<Rightarrow> bool" where
  "image_get allowed img q \<longleftrightarrow> hr_Method q = ''GET'' \<and> hr_URL q = img \<and> ''Authorization'' \<notin> fst ` set (hr_Header q)
     \<and> (\<exists>u. url_parse img = Some u \<and> (allowed \<or> url_Hostname u = [] \<or> \<not> isPrivateHost (url_Hostname u)))"

lemma fetchImage_requests:
  "\<exists>gets. fst (fetchImage env tr img) = tr @ gets \<and> length gets \<le> 1
     \<and> list_all (image_get (EqualFold_true (we_getenv env ''ALLOW_PRIVATE_IMAGE_URLS'')) img) gets"
  by (auto simp: fetchImage_def issue_def image_get_def Let_def split: option.splits http_result.splits)

lemma post_chat_requests:
  "\<exists>posts. fst (post_chat env tr apiKey (chat_url base) b) = tr @ posts \<and> length posts \<le> 1 \<and> list_all (api_call base apiKey) posts"
  by (auto simp: post_chat_def issue_def api_call_def Let_def split: sum.splits http_result.splits)

text \<open>What the vision tool sends: at most one download of the image, which never goes to a private or internal
  host unless that was allowed and carries no credentials, and then at most one call of the configured
  service, the only request that carries the API key.\<close>

theorem vision_requests:
  "\<exists>gets posts. fst (RunVision env tr img prompt) = tr @ gets @ posts \<and> length gets \<le> 1 \<and> length posts \<le> 1
     \<and> list_all (image_get (EqualFold_true (we_getenv env ''ALLOW_PRIVATE_IMAGE_URLS'')) img) gets
     \<and> list_all (api_call (we_getenv env ''VISION_BASE_URL'') (we_getenv env ''VISION_API_KEY'')) posts"
proof -
  let ?key = "we_getenv env ''VISION_API_KEY''" and ?base = "we_getenv env ''VISION_BASE_URL''"
  obtain gets where g: "fst (fetchImage env tr img) = tr @ gets" "length gets \<le> 1"
      "list_all (image_get (EqualFold_true (we_getenv env ''ALLOW_PRIVATE_IMAGE_URLS'')) img) gets"
    using fetchImage_requests by blast
  have p: "\<exists>posts. fst (post_chat env t ?key (chat_url ?base) b) = t @ posts \<and> length posts \<le> 1
      \<and> list_all (api_call ?base ?key) posts" for t b
    by (rule post_chat_requests)
  show ?thesis
  proof (cases "?key = [] \<or> ?base = []")
    case True
    then have "fst (RunVision env tr img prompt) = tr" by (auto simp: RunVision_def Let_def)
    then show ?thesis by (intro exI [of _ "[]"]) simp
  next
    case False
    note conf = this
    show ?thesis
    proof (cases "HasPrefix img ''data:''")
      case True
      then have "\<exists>b. RunVision env tr img prompt = post_chat env tr ?key (chat_url ?base) b"
        using conf by (simp add: RunVision_def Let_def) blast
      with p [of tr] show ?thesis by (metis append_Nil le0 list.size(3) list.pred_inject(1))
    next
      case False
      obtain r where f: "fetchImage env tr img = (tr @ gets, r)" using g(1) by (cases "fetchImage env tr img") auto
      show ?thesis
      proof (cases r)
        case (Inl e)
        with False conf f g show ?thesis by (intro exI [of _ gets] exI [of _ "[]"]) (simp add: RunVision_def Let_def)
      next
        case (Inr d)
        then have "\<exists>b. RunVision env tr img prompt = post_chat env (tr @ gets) ?key (chat_url ?base) b"
          using False conf f by (simp add: RunVision_def Let_def) blast
        with g p [of "tr @ gets"] show ?thesis by (metis append.assoc)
      qed
    qed
  qed
qed

text \<open>A search whose answer has results always returns a text, whatever happens to the compression of a long
  one: the compressed text or the full list, which names every title and URL.\<close>

theorem search_always_answers:
  assumes "we_marshal env (GObj [(''query'', GStr query), (''limit'', GInt 5)]) = Inr body"
    and "\<And>q. \<exists>status. we_http env tr q = Answer status answer" and "we_search env answer = Inr (True, web)" and "web \<noteq> []"
  shows "\<exists>tr' out. WebSearch env tr query = (tr', Inr out) \<and>
    (out = search_text web \<or> length (search_text web) > 2000 \<and> (\<exists>tr1. snd (RunCompress env tr1 (search_text web) search_instruction) = Inr out))"
proof -
  let ?q = "\<lparr>hr_Method = ''POST'', hr_URL = ''https://api.firecrawl.dev/v2/search'',
      hr_Header = (''Content-Type'', ''application/json'') # (if we_getenv env ''FIRECRAWL_API_KEY'' \<noteq> []
        then [(''Authorization'', ''Bearer '' @ we_getenv env ''FIRECRAWL_API_KEY'')] else []), hr_Body = body\<rparr>"
  obtain st where h: "we_http env tr ?q = Answer st answer" using assms(2) by blast
  obtain tr2 r where c: "RunCompress env (tr @ [?q]) (search_text web) search_instruction = (tr2, r)" by fastforce
  have "WebSearch env tr query = (if length (search_text web) > 2000 then
      (case r of Inr compressed \<Rightarrow> (tr2, Inr compressed) | Inl _ \<Rightarrow> (tr2, Inr (search_text web)))
    else (tr @ [?q], Inr (search_text web)))"
    using assms(1,3,4) h c unfolding WebSearch_def by (simp add: Let_def issue_def split: sum.splits)
  with c show ?thesis by (cases r) (auto intro: exI [of _ "tr @ [?q]"])
qed

definition plain_web :: web_env where
  "plain_web = \<lparr>we_getenv = (\<lambda>_. []), we_http = (\<lambda>_ _. Answer 200 ''r''), we_marshal = (\<lambda>_. Inr ''q''), we_api_error = (\<lambda>_. None),
     we_choices = (\<lambda>_. Inr []), we_search = (\<lambda>_. Inr (True, [(''u'', ''t'', [])])), we_parse_error = (\<lambda>_. ErrMsg ''parse'')\<rparr>"

theorem search_always_answers_witness: "\<exists>tr' out. WebSearch plain_web [] ''x'' = (tr', Inr out)"
proof -
  have "\<exists>status. we_http plain_web [] q = Answer status ''r''" for q by (simp add: plain_web_def)
  from search_always_answers [of plain_web "''x''" "''q''" "[]" "''r''", OF _ this, of "[(''u'', ''t'', [])]"]
  show ?thesis by (simp add: plain_web_def) blast
qed

end
