(* ===== verification/Server.thy ===== *)
theory Server
  imports Runner FileOps WebTools Redact
begin

section \<open>The HTTP server (internal/server/server.go, main.go)\<close>

text \<open>
  The handlers turn a request into a call of the agent with the session's messages and store the turn. A
  handler maps a request and the server's state (the session manager, the agent's world, the session logs
  and the requests made by the image tools) to a new state, what it writes to the response, and whether it
  panics; the HTTP server survives a panic, so the state stays. The agent is an argument, for which \<open>main.go\<close>
  supplies the adapter around the runner, modelled at the end. JSON, the \<open>%q\<close> verb, the clock and the file
  system are arguments too. A stream is the list of the messages it delivers before it ends.
\<close>

subsection \<open>Requests, responses, state\<close>

text \<open>The body of a request, as the handler's decoder sees it (\<open>None\<close>: invalid JSON).\<close>

record http_in =
  hi_Method :: string
  hi_Path :: string
  hi_query_session :: string
  hi_cookie_session :: "string option"
  hi_chat :: "string option"
  hi_vision :: "(string \<times> string) option"

datatype http_write = WHeader string string | WError nat string | WNotFound | WBody string

record chatResp =
  cr_Reply :: string
  cr_Stats :: "gany option"

datatype log_entry = LoggedUser string string | LoggedAssistant string string string string

record 'w srv_state =
  sv_sessions :: Manager
  sv_world :: 'w
  sv_log :: "log_entry list"
  sv_http :: "http_req list"

record 'w srv_env =
  sx_Generate :: "'w \<Rightarrow> EMessage option list \<Rightarrow> 'w \<times> (gerror + EMessage option)"
  sx_Stream :: "'w \<Rightarrow> EMessage option list \<Rightarrow> 'w \<times> (gerror + EMessage list)"
  sx_done :: "nat option"
  sx_now :: int
  sx_now_append :: int
  sx_marshal :: "gany \<Rightarrow> string option"
  sx_encode :: "chatResp \<Rightarrow> string"
  sx_quote :: "string \<Rightarrow> string"
  sx_Model :: string
  sx_StatsLine :: string
  sx_StatsJSON :: string
  sx_stats_map :: "string \<Rightarrow> gany option"
  sx_logger :: "string \<Rightarrow> bool"
  sx_flusher :: bool
  sx_frontend :: string
  sx_file :: file_env
  sx_root :: string
  sx_files :: files
  sx_stat :: "string \<Rightarrow> bool"
  sx_web :: web_env
  sx_ContentType :: "string \<Rightarrow> string"
  sx_DetectContentType :: "string \<Rightarrow> string"
  sx_lower :: "nat \<Rightarrow> nat"

type_synonym 'w handler = "'w srv_env \<Rightarrow> http_in \<Rightarrow> 'w srv_state \<Rightarrow> 'w srv_state \<times> http_write list \<times> bool"

definition user_message :: "string \<Rightarrow> EMessage" where
  "user_message s = zero_EMessage\<lparr>em_Role := RoleUser, em_Content := s\<rparr>"

definition assistant_message :: "string \<Rightarrow> EMessage" where
  "assistant_message s = zero_EMessage\<lparr>em_Role := RoleAssistant, em_Content := s\<rparr>"

subsection \<open>Helpers\<close>

definition ServeFrontend :: "'w handler" where
  "ServeFrontend env r st =
     (if hi_Path r \<noteq> ''/'' then (st, [WNotFound], False)
      else (st, [WHeader ''Content-Type'' ''text/html; charset=utf-8'', WBody (sx_frontend env)], False))"

definition sessionID :: "Manager \<Rightarrow> http_in \<Rightarrow> string" where
  "sessionID m r =
     (if hi_query_session r \<noteq> [] then hi_query_session r
      else case hi_cookie_session r of
        Some v \<Rightarrow> if v \<noteq> [] then v else mg_default m
      | None \<Rightarrow> mg_default m)"

definition getStatsMap :: "'w srv_env \<Rightarrow> gany option" where
  "getStatsMap env = (if sx_StatsJSON env = [] then None else sx_stats_map env (sx_StatsJSON env))"

definition logUserMessage :: "'w srv_env \<Rightarrow> string \<Rightarrow> string \<Rightarrow> 'w srv_state \<Rightarrow> 'w srv_state" where
  "logUserMessage env sid text st = (if sx_logger env sid then st\<lparr>sv_log := sv_log st @ [LoggedUser sid text]\<rparr> else st)"

definition logAssistantResponse :: "'w srv_env \<Rightarrow> string \<Rightarrow> string \<Rightarrow> 'w srv_state \<Rightarrow> 'w srv_state" where
  "logAssistantResponse env sid content st =
     (if sx_logger env sid
      then st\<lparr>sv_log := sv_log st @ [LoggedAssistant sid (if length content > 200 then take 200 content else content) content (sx_StatsLine env)]\<rparr>
      else st)"

text \<open>A line that the protocol layer logs is redacted before it reaches the log and the session's log.\<close>

definition injected_log :: "string \<Rightarrow> string" where
  "injected_log formatted = RedactString formatted"

definition snapshot :: "'w srv_env \<Rightarrow> string \<Rightarrow> EMessage option \<Rightarrow> 'w srv_state \<Rightarrow> 'w srv_state \<times> EMessage option list" where
  "snapshot env sid msg st = (case SnapshotWith (sv_sessions st) (sx_now env) sid [msg] of (m1, msgs) \<Rightarrow> (st\<lparr>sv_sessions := m1\<rparr>, msgs))"

definition append_turn :: "'w srv_env \<Rightarrow> string \<Rightarrow> EMessage option list \<Rightarrow> 'w srv_state \<Rightarrow> 'w srv_state" where
  "append_turn env sid msgs st = st\<lparr>sv_sessions := Append (sv_sessions st) (sx_now_append env) sid msgs\<rparr>"

definition sse :: "string \<Rightarrow> http_write" where
  "sse s = WBody (''data: '' @ s @ [nl, nl])"

definition json_field :: "string \<Rightarrow> string \<Rightarrow> string" where
  "json_field k v = ''{'' @ [CHR 0x22] @ k @ [CHR 0x22] @ '':'' @ v @ ''}''"

definition stream_headers :: "http_write list" where
  "stream_headers = [WHeader ''Content-Type'' ''text/event-stream'', WHeader ''Cache-Control'' ''no-cache'', WHeader ''Connection'' ''keep-alive'']"

definition reply_error :: "'w srv_env \<Rightarrow> gerror \<Rightarrow> http_write" where
  "reply_error env e = WBody (sx_encode env \<lparr>cr_Reply = utf8 [0x9519, 0x8BEF] @ '': '' @ error_string e, cr_Stats = None\<rparr>)"

subsection \<open>Images\<close>

definition path_Ext :: "string \<Rightarrow> string" where
  "path_Ext p = (let base = rev (takeWhile (\<lambda>c. c \<noteq> slash) (rev p)) in
     case last_index (\<lambda>c. c = CHR ''.'') base of None \<Rightarrow> [] | Some i \<Rightarrow> drop i base)"

definition imgExts :: "string list" where
  "imgExts = [''.png'', ''.jpg'', ''.jpeg'', ''.gif'', ''.webp'', ''.bmp'', ''.svg'']"

definition extractLocalImagePath :: "'w srv_env \<Rightarrow> string \<Rightarrow> string" where
  "extractLocalImagePath env input =
     (let trimmed0 = TrimSpace input;
          trimmed = (case last_index (\<lambda>c. c \<in> set [CHR '' '', CHR 0x09, CHR 0x0A, CHR 0x0D]) trimmed0 of
             Some idx \<Rightarrow> TrimSpace (drop (Suc idx) trimmed0) | None \<Rightarrow> trimmed0) in
      if trimmed = [] then []
      else case ValidatePath (fe_Getwd (sx_file env)) (sx_root env) trimmed of
        Inl _ \<Rightarrow> []
      | Inr path \<Rightarrow>
          if ToLower_utf8 (sx_lower env) (path_Ext path) \<in> set imgExts \<and> sx_stat env path then path else [])"

definition fetchImageDataURL :: "'w srv_env \<Rightarrow> http_req list \<Rightarrow> string \<Rightarrow> http_req list \<times> (gerror + string)" where
  "fetchImageDataURL env tr url =
     (let req = \<lparr>hr_Method = ''GET'', hr_URL = url,
            hr_Header = [(''User-Agent'', ''Mozilla/5.0 (Windows NT 10.0; Win64; x64)'')], hr_Body = []\<rparr>;
          r = we_http (sx_web env) tr req in
      (issue req r tr,
       case r of
         BadRequest e \<Rightarrow> Inl e
       | DoFailed e \<Rightarrow> Inl e
       | ReadFailed status e \<Rightarrow> if status \<noteq> 200 then Inl (ErrMsg (''HTTP '' @ show_nat status)) else Inl e
       | Answer status data \<Rightarrow>
           if status \<noteq> 200 then Inl (ErrMsg (''HTTP '' @ show_nat status))
           else (let ct = (if sx_ContentType env url = [] then sx_DetectContentType env data else sx_ContentType env url) in
                 Inr (''data:'' @ ct @ '';base64,'' @ EncodeToString data))))"

definition image_mime :: "string \<Rightarrow> string" where
  "image_mime ext =
     (if ext = ''.jpg'' \<or> ext = ''.jpeg'' then ''image/jpeg''
      else if ext = ''.gif'' then ''image/gif''
      else if ext = ''.webp'' then ''image/webp''
      else if ext = ''.bmp'' then ''image/bmp''
      else if ext = ''.svg'' then ''image/svg+xml''
      else ''image/png'')"

definition imageToDataURL :: "'w srv_env \<Rightarrow> http_req list \<Rightarrow> string \<Rightarrow> http_req list \<times> (gerror + string)" where
  "imageToDataURL env tr img =
     (if HasPrefix img ''data:'' then (tr, Inr img)
      else if HasPrefix img ''http://'' \<or> HasPrefix img ''https://'' then
        (case fetchImageDataURL env tr img of (tr1, r) \<Rightarrow>
           (tr1, case r of Inl e \<Rightarrow> Inl (ErrWrap ''download image'' e) | Inr d \<Rightarrow> Inr d))
      else
        (let localPath = extractLocalImagePath env img in
         if localPath = [] then (tr, Inl (ErrMsg (''invalid image path: '' @ img)))
         else case os_ReadFile (sx_file env) (sx_files env) localPath of
           Inl e \<Rightarrow> (tr, Inl (ErrWrap ''read image'' e))
         | Inr data \<Rightarrow> (tr, Inr (''data:'' @ image_mime (ToLower_utf8 (sx_lower env) (path_Ext localPath)) @ '';base64,'' @ EncodeToString data))))"

definition visionModels :: "string list" where
  "visionModels = [''gpt-4o'', ''gpt-4o-mini'', ''gpt-4-turbo'', ''claude-3'', ''claude-3-5'', ''claude-sonnet-4'', ''claude-opus-4'',
     ''deepseek-vl'', ''deepseek-vl2'', ''qwen-vl'', ''qwen2-vl'', ''qwq'', ''step-2'', ''gemini'']"

definition supportsVision :: "(nat \<Rightarrow> nat) \<Rightarrow> string \<Rightarrow> bool" where
  "supportsVision low model = list_ex (Contains (ToLower_utf8 low model)) visionModels"

definition picture_tag :: string where
  "picture_tag = ''['' @ utf8 [0x56FE, 0x7247] @ ''] ''"

text \<open>The user message, if the model sees images itself; otherwise nil and the text of the vision tool.\<close>

definition prepareVisionMessage ::
  "'w srv_env \<Rightarrow> http_req list \<Rightarrow> string \<Rightarrow> string \<Rightarrow> http_req list \<times> (gerror + EMessage option \<times> string \<times> bool)" where
  "prepareVisionMessage env tr imageURL prompt =
     (if supportsVision (sx_lower env) (sx_Model env) then
        (case imageToDataURL env tr imageURL of (tr1, r) \<Rightarrow>
           (tr1, case r of
              Inl e \<Rightarrow> Inl e
            | Inr dataURL \<Rightarrow> Inr (Some (zero_EMessage\<lparr>em_Role := RoleUser, em_Content := picture_tag @ prompt,
                em_UserParts := [\<lparr>ip_Type = ''text'', ip_Text = prompt, ip_Image = None\<rparr>,
                  \<lparr>ip_Type = ''image_url'', ip_Text = [], ip_Image = Some \<lparr>img_URL = Some dataURL, img_Base64 = None, img_MIME = []\<rparr>\<rparr>]\<rparr>), [], True)))
      else
        (case RunVision (sx_web env) tr imageURL prompt of (tr1, r) \<Rightarrow>
           (tr1, case r of Inl e \<Rightarrow> Inl e | Inr result \<Rightarrow> Inr (None, result, False))))"

subsection \<open>Vision handlers\<close>

definition analysis_text :: "string \<Rightarrow> string \<Rightarrow> string" where
  "analysis_text prompt result = prompt @ [nl, nl] @ utf8 [0x56FE, 0x7247, 0x5206, 0x6790, 0x7ED3, 0x679C, 0xFF1A] @ [nl] @ result"

definition processVisionNonStream ::
  "'w srv_env \<Rightarrow> string \<Rightarrow> string \<Rightarrow> string \<Rightarrow> 'w srv_state \<Rightarrow> 'w srv_state \<times> http_write list \<times> bool" where
  "processVisionNonStream env sid imageURL prompt st =
     (case prepareVisionMessage env (sv_http st) imageURL prompt of (tr, p) \<Rightarrow>
       let st1 = st\<lparr>sv_http := tr\<rparr> in
       case p of
         Inl e \<Rightarrow> (st1, [WBody (sx_encode env \<lparr>cr_Reply = utf8 [0x56FE, 0x7247, 0x5904, 0x7406, 0x5931, 0x8D25] @ '': '' @ error_string e, cr_Stats = None\<rparr>)], False)
       | Inr (userMsg, visionResult, isNative) \<Rightarrow>
          (case snapshot env sid (if isNative then userMsg
                 else Some (user_message (utf8 [0x7528, 0x6237, 0x4E0A, 0x4F20, 0x4E86, 0x4E00, 0x5F20, 0x56FE, 0x7247, 0xFF0C, 0x63D0, 0x95EE, 0xFF1A] @ analysis_text prompt visionResult))) st1 of (st2, msgs) \<Rightarrow>
            (case sx_Generate env (sv_world st2) msgs of (w, res) \<Rightarrow>
              let st3 = st2\<lparr>sv_world := w\<rparr> in
              case res of
                Inl e \<Rightarrow> (st3, [reply_error env e], False)
              | Inr result \<Rightarrow>
                  let st4 = append_turn env sid [userMsg, result] st3 in
                  (case result of
                     None \<Rightarrow> (st4, [], True)
                   | Some m \<Rightarrow> (st4, [WBody (sx_encode env \<lparr>cr_Reply = em_Content m, cr_Stats = getStatsMap env\<rparr>)], False)))))"

text \<open>The loop over the stream of a vision request; a chunk that cannot be marshalled is skipped.\<close>

fun vision_loop :: "'w srv_env \<Rightarrow> string \<Rightarrow> EMessage list \<Rightarrow> http_write list \<times> string" where
  "vision_loop env full [] = ([], full)"
| "vision_loop env full (c # cs) =
     (case sx_marshal env (GObj [(''content'', GStr (em_Content c))]) of
        None \<Rightarrow> vision_loop env full cs
      | Some data \<Rightarrow> (case vision_loop env (full @ em_Content c) cs of (ws, f) \<Rightarrow> (sse data # ws, f)))"

definition processVisionStream ::
  "'w srv_env \<Rightarrow> string \<Rightarrow> string \<Rightarrow> string \<Rightarrow> 'w srv_state \<Rightarrow> 'w srv_state \<times> http_write list \<times> bool" where
  "processVisionStream env sid imageURL prompt st =
     (case prepareVisionMessage env (sv_http st) imageURL prompt of (tr, p) \<Rightarrow>
       let st1 = st\<lparr>sv_http := tr\<rparr> in
       case p of
         Inl e \<Rightarrow> (st1, [sse (json_field ''error'' (sx_quote env (error_string e)))], False)
       | Inr (userMsg, visionResult, isNative) \<Rightarrow>
          (case snapshot env sid (if isNative then userMsg
                 else Some (user_message (picture_tag @ analysis_text prompt visionResult))) st1 of (st2, msgs) \<Rightarrow>
            (case sx_Stream env (sv_world st2) msgs of (w, res) \<Rightarrow>
              let st3 = st2\<lparr>sv_world := w\<rparr> in
              case res of
                Inl e \<Rightarrow> (st3, [sse (json_field ''error'' (sx_quote env (error_string e)))], False)
              | Inr cs \<Rightarrow>
                  (case vision_loop env [] cs of (ws, full) \<Rightarrow>
                    (append_turn env sid [userMsg, Some (assistant_message full)] st3,
                     ws @ (if sx_StatsJSON env \<noteq> [] then [sse (sx_StatsJSON env)] else []), False)))))"

definition HandleVision :: "'w handler" where
  "HandleVision env r st =
     (if hi_Method r \<noteq> ''POST'' then (st, [WError 405 ''method not allowed''], False)
      else case hi_vision r of
        None \<Rightarrow> (st, [WError 400 ''invalid json''], False)
      | Some (img, prompt) \<Rightarrow> processVisionNonStream env (sessionID (sv_sessions st) r) img prompt st)"

definition HandleVisionNativeStream :: "'w handler" where
  "HandleVisionNativeStream env r st =
     (if hi_Method r \<noteq> ''POST'' then (st, [WError 405 ''method not allowed''], False)
      else case hi_vision r of
        None \<Rightarrow> (st, [WError 400 ''invalid json''], False)
      | Some (img, prompt) \<Rightarrow>
          (let sid = sessionID (sv_sessions st) r; st1 = logUserMessage env sid (picture_tag @ prompt) st in
           if \<not> sx_flusher env then (st1, stream_headers @ [WError 500 ''streaming not supported''], False)
           else case processVisionStream env sid img prompt st1 of (st2, ws, panic) \<Rightarrow> (st2, stream_headers @ ws, panic)))"

subsection \<open>Chat handlers\<close>

text \<open>The event of a message; a nil slice of tool-call IDs is null.\<close>

definition chat_event :: "EMessage \<Rightarrow> gany" where
  "chat_event c = GObj [(''content'', GStr (em_Content c)),
     (''tool_calls'', (if em_ToolCalls c = [] then GNil else GArr (map (GStr \<circ> tc_ID) (em_ToolCalls c))))]"

text \<open>The loop of \<open>HandleChatStream\<close>: what is written, and the text, unless the client goes away before the
  message with number \<open>sx_done\<close>.\<close>

fun chat_sse_loop :: "'w srv_env \<Rightarrow> nat \<Rightarrow> string \<Rightarrow> EMessage list \<Rightarrow> http_write list \<times> string option" where
  "chat_sse_loop env i full [] = ([], if sx_done env = Some i then None else Some full)"
| "chat_sse_loop env i full (c # cs) =
     (if sx_done env = Some i then ([], None)
      else case sx_marshal env (chat_event c) of
        None \<Rightarrow> chat_sse_loop env (Suc i) full cs
      | Some data \<Rightarrow> (case chat_sse_loop env (Suc i) (full @ em_Content c) cs of (ws, f) \<Rightarrow> (sse data # ws, f)))"

definition HandleChatStream :: "'w handler" where
  "HandleChatStream env r st =
     (if hi_Method r \<noteq> ''POST'' then (st, [WError 405 ''method not allowed''], False)
      else case hi_chat r of
        None \<Rightarrow> (st, [WError 400 ''invalid json''], False)
      | Some message \<Rightarrow>
          (let sid = sessionID (sv_sessions st) r; userMsg = Some (user_message message) in
           case snapshot env sid userMsg st of (st1, msgs) \<Rightarrow>
             let st2 = logUserMessage env sid message st1 in
             if \<not> sx_flusher env then (st2, stream_headers @ [WError 500 ''streaming not supported''], False)
             else case sx_Stream env (sv_world st2) msgs of (w, res) \<Rightarrow>
               let st3 = st2\<lparr>sv_world := w\<rparr> in
               case res of
                 Inl e \<Rightarrow> (st3, stream_headers @ [sse (json_field ''error'' (sx_quote env (error_string e)))], False)
               | Inr cs \<Rightarrow>
                   (case chat_sse_loop env 0 [] cs of (ws, full) \<Rightarrow>
                     (case full of
                        None \<Rightarrow> (st3, stream_headers @ ws, False)
                      | Some content \<Rightarrow>
                          (logAssistantResponse env sid content
                             (append_turn env sid [userMsg, Some (assistant_message content)] st3),
                           stream_headers @ ws
                           @ (if sx_StatsJSON env \<noteq> [] then [sse (json_field ''stats'' (sx_StatsJSON env))] else [])
                           @ [sse ''[DONE]''], False)))))"

text \<open>The text that \<open>HandleChat\<close> goes on with: the content of a local image, if the message names one.\<close>

definition chat_message :: "'w srv_env \<Rightarrow> string \<Rightarrow> string" where
  "chat_message env message =
     (let fp = extractLocalImagePath env message in
      if fp = [] then message
      else case os_ReadFile (sx_file env) (sx_files env) fp of
        Inl _ \<Rightarrow> message
      | Inr data \<Rightarrow> ''data:image/jpeg;base64,'' @ EncodeToString data)"

definition HandleChat :: "'w handler" where
  "HandleChat env r st =
     (if hi_Method r \<noteq> ''POST'' then (st, [WError 405 ''method not allowed''], False)
      else case hi_chat r of
        None \<Rightarrow> (st, [WError 400 ''invalid json''], False)
      | Some message0 \<Rightarrow>
          (let sid = sessionID (sv_sessions st) r; st1 = logUserMessage env sid message0 st; message = chat_message env message0 in
           if HasPrefix message ''data:image/'' then processVisionNonStream env sid message (utf8 [0x63CF, 0x8FF0, 0x8FD9, 0x5F20, 0x56FE, 0x7247]) st1
           else case snapshot env sid (Some (user_message message)) st1 of (st2, msgs) \<Rightarrow>
             (case sx_Generate env (sv_world st2) msgs of (w, res) \<Rightarrow>
               let st3 = st2\<lparr>sv_world := w\<rparr> in
               case res of
                 Inl e \<Rightarrow> (st3, [reply_error env e], False)
               | Inr result \<Rightarrow>
                   let st4 = append_turn env sid [Some (user_message message), result] st3 in
                   (case result of
                      None \<Rightarrow> (st4, [], True)
                    | Some m \<Rightarrow> (logAssistantResponse env sid (em_Content m) st4,
                        [WBody (sx_encode env \<lparr>cr_Reply = em_Content m, cr_Stats = getStatsMap env\<rparr>)], False)))))"

subsection \<open>History\<close>

definition DefaultHistoryFile :: string where "DefaultHistoryFile = ''history.json''"

definition SaveHistory ::
  "'b history_codec \<Rightarrow> (gerror \<times> 'b option) option \<Rightarrow> 'w srv_state \<Rightarrow> (string \<rightharpoonup> 'b) \<Rightarrow> (string \<rightharpoonup> 'b) \<times> unit outcome" where
  "SaveHistory hc werr st fs = Save hc werr (sv_sessions st) DefaultHistoryFile fs"

definition LoadHistory :: "'b history_codec \<Rightarrow> (string \<rightharpoonup> 'b) \<Rightarrow> 'w srv_state \<Rightarrow> 'w srv_state" where
  "LoadHistory hc fs st = st\<lparr>sv_sessions := fst (Load hc (sv_sessions st) DefaultHistoryFile fs)\<rparr>"

subsection \<open>The agent adapter (main.go)\<close>

definition agent_Generate ::
  "('s, 'w) Runner \<Rightarrow> ('s, 'w) run_state \<Rightarrow> EMessage option list \<Rightarrow> ('s, 'w) run_state \<times> (gerror + EMessage option)" where
  "agent_Generate r st msgs =
     (case Run r (Some \<lparr>aq_Messages = FromEinoSlice msgs, aq_SessionID = [], aq_ToolNames = []\<rparr>) st of (st1, res) \<Rightarrow>
       (st1, case res of
          Inl e \<Rightarrow> Inl e
        | Inr resp \<Rightarrow>
            if ap_Messages resp = [] then Inr (Some (assistant_message []))
            else Inr (ToEino (last (ap_Messages resp)))))"

text \<open>The goroutine of \<open>Stream\<close> forwards text and reasoning and stops silently at an error. The context ends
  the loop at the event with number \<open>stop\<close>, if any; the reader never closes the pipe early.\<close>

fun forward_events :: "nat option \<Rightarrow> nat \<Rightarrow> agent_event list \<Rightarrow> EMessage list" where
  "forward_events stop i [] = []"
| "forward_events stop i (e # es) =
     (if stop = Some i then []
      else case ae_Type e of
        EvText \<Rightarrow> zero_EMessage\<lparr>em_Role := RoleAssistant, em_Content := ae_Content e\<rparr> # forward_events stop (Suc i) es
      | EvReasoning \<Rightarrow> zero_EMessage\<lparr>em_Role := RoleAssistant, em_ReasoningContent := ae_Content e\<rparr> # forward_events stop (Suc i) es
      | EvErr \<Rightarrow> []
      | _ \<Rightarrow> forward_events stop (Suc i) es)"

definition agent_Stream ::
  "('s, 'w) Runner \<Rightarrow> ('w \<Rightarrow> adk_Request \<Rightarrow> 'w \<times> (gerror + agent_event list)) \<Rightarrow> nat option \<Rightarrow> nat option \<Rightarrow>
   ('s, 'w) run_state \<Rightarrow> EMessage option list \<Rightarrow> ('s, 'w) run_state \<times> (gerror + EMessage list)" where
  "agent_Stream r start cancel stop st msgs =
     (case runner_Stream r start cancel (Some \<lparr>aq_Messages = FromEinoSlice msgs, aq_SessionID = [], aq_ToolNames = []\<rparr>) st of (st1, res) \<Rightarrow>
       (st1, case res of Inl e \<Rightarrow> Inl e | Inr es \<Rightarrow> Inr (forward_events stop 0 es)))"


subsection \<open>Lemmas\<close>

abbreviation conversations :: "'w srv_state \<Rightarrow> string \<Rightarrow> EMessage option list" where
  "conversations st \<equiv> messages_of (sv_sessions st)"

lemma snapshot_parts:
  assumes "snapshot env sid msg st = (st1, msgs)"
  shows "msgs = conversations st sid @ [msg]" "conversations st1 = conversations st" "sv_world st1 = sv_world st"
    "sv_http st1 = sv_http st" "mg_default (sv_sessions st1) = mg_default (sv_sessions st)"
  using assms messages_of_Snapshot [of "sv_sessions st" "sx_now env" sid "[msg]"]
  by (auto simp: snapshot_def SnapshotWith_def split: prod.splits)

lemma conversations_append:
  "conversations (append_turn env sid ms st) = (conversations st)(sid := conversations st sid @ ms)"
  by (auto simp: append_turn_def messages_of_Append fun_eq_iff)

lemma append_turn_keeps [simp]:
  "sv_world (append_turn env sid ms st) = sv_world st" "sv_http (append_turn env sid ms st) = sv_http st"
  by (simp_all add: append_turn_def)

lemma log_keeps [simp]:
  "sv_sessions (logUserMessage env sid t st) = sv_sessions st" "sv_world (logUserMessage env sid t st) = sv_world st"
  "sv_http (logUserMessage env sid t st) = sv_http st"
  "sv_sessions (logAssistantResponse env sid t st) = sv_sessions st"
  "sv_world (logAssistantResponse env sid t st) = sv_world st"
  by (simp_all add: logUserMessage_def logAssistantResponse_def)

lemma chat_sse_complete:
  assumes "\<And>v. sx_marshal env v \<noteq> None" and "\<And>n. sx_done env = Some n \<Longrightarrow> i + length cs < n"
  shows "\<exists>ws. chat_sse_loop env i full cs = (ws, Some (full @ concat (map em_Content cs))) \<and> length ws = length cs"
  using assms(2)
proof (induction cs arbitrary: i full)
  case (Cons c cs)
  have "sx_done env \<noteq> Some i" using Cons.prems by fastforce
  moreover obtain d where "sx_marshal env (chat_event c) = Some d" using assms(1) by blast
  moreover obtain ws where "chat_sse_loop env (Suc i) (full @ em_Content c) cs =
      (ws, Some ((full @ em_Content c) @ concat (map em_Content cs)))" "length ws = length cs"
    using Cons.IH [of "Suc i" "full @ em_Content c"] Cons.prems by fastforce
  ultimately show ?case by auto
qed auto

lemma chat_sse_gone:
  assumes "sx_done env = Some n" and "i \<le> n" and "n \<le> i + length cs"
  shows "\<exists>ws. chat_sse_loop env i full cs = (ws, None)"
  using assms
proof (induction cs arbitrary: i full)
  case (Cons c cs)
  show ?case
  proof (cases "n = i")
    case False
    then have "\<exists>ws. chat_sse_loop env (Suc i) f cs = (ws, None)" for f using Cons.prems by (intro Cons.IH) auto
    with False Cons.prems(1) show ?thesis by (auto split: option.splits prod.splits) (metis prod.inject)
  qed (use Cons in simp)
qed auto

definition chat_post :: "http_in \<Rightarrow> string \<Rightarrow> bool" where
  "chat_post r message \<longleftrightarrow> hi_Method r = ''POST'' \<and> hi_chat r = Some message"

lemma HandleChat_text:
  assumes "chat_post r message" and "chat_message env message = message" and "\<not> HasPrefix message ''data:image/''"
    and "sid = sessionID (sv_sessions st) r"
    and "sx_Generate env (sv_world st) (conversations st sid @ [Some (user_message message)]) = (w, res)"
    and "HandleChat env r st = (st', ws, panic)"
  shows "sv_world st' = w \<and> (case res of
      Inl e \<Rightarrow> conversations st' = conversations st \<and> ws = [reply_error env e] \<and> \<not> panic
    | Inr result \<Rightarrow> conversations st' = (conversations st)(sid := conversations st sid @ [Some (user_message message), result])
        \<and> (case result of None \<Rightarrow> panic
           | Some m \<Rightarrow> ws = [WBody (sx_encode env \<lparr>cr_Reply = em_Content m, cr_Stats = getStatsMap env\<rparr>)] \<and> \<not> panic))"
proof -
  let ?st1 = "logUserMessage env sid message st"
  obtain st2 msgs where s: "snapshot env sid (Some (user_message message)) ?st1 = (st2, msgs)" by fastforce
  have "msgs = conversations st sid @ [Some (user_message message)]" "conversations st2 = conversations st" "sv_world st2 = sv_world st"
    using snapshot_parts [OF s] by simp_all
  with assms s show ?thesis
    by (auto simp: HandleChat_def chat_post_def Let_def conversations_append split: sum.splits option.splits)
qed

lemma run_bare:
  assumes "rn_store r = None" and "rn_guards r = None" and "rn_mw r = None"
    and "rn_agent r (rs_world st) q = (w, Inr (Some resp))"
  shows "\<exists>st'. Run r (Some q) st = (st', Inr resp) \<and> rs_world st' = w \<and> rs_store st' = rs_store st"
  using assms by (auto simp: Run_def prepareRequest_def call_agent_def appendConversation_def Let_def)

text \<open>An agent that always answers the same, and a server around it.\<close>

definition pong_runner :: "(unit, unit) Runner" where
  "pong_runner = \<lparr>rn_agent = (\<lambda>w _. (w, Inr (Some \<lparr>ap_Messages = [] @ [Some (zero_Message\<lparr>m_Content := ''pong''\<rparr>)], ap_Stats = []\<rparr>))),
     rn_store = None, rn_guards = None, rn_mw = None\<rparr>"

definition pong_server :: "(unit, unit) run_state srv_env" where
  "pong_server = \<lparr>sx_Generate = agent_Generate pong_runner, sx_Stream = (\<lambda>w _. (w, Inr [assistant_message ''po'', assistant_message ''ng''])),
     sx_done = None, sx_now = 0, sx_now_append = 1, sx_marshal = (\<lambda>_. Some ''x''), sx_encode = cr_Reply, sx_quote = (\<lambda>s. s),
     sx_Model = ''text'', sx_StatsLine = [], sx_StatsJSON = [], sx_stats_map = (\<lambda>_. None), sx_logger = (\<lambda>_. True), sx_flusher = True,
     sx_frontend = [], sx_file = plain_env, sx_root = ''/ws'', sx_files = (\<lambda>_. None), sx_stat = (\<lambda>_. False),
     sx_web = plain_web\<lparr>we_getenv := (\<lambda>_. ''k''), we_choices := (\<lambda>_. Inr [''a cat''])\<rparr>, sx_ContentType = (\<lambda>_. []),
     sx_DetectContentType = (\<lambda>_. []), sx_lower = (\<lambda>r. r)\<rparr>"

definition fresh_state :: "(unit, unit) run_state srv_state" where
  "fresh_state = \<lparr>sv_sessions = NewManager [], sv_world = \<lparr>rs_store = (), rs_world = (), rs_events = []\<rparr>, sv_log = [], sv_http = []\<rparr>"

definition hi_request :: http_in where
  "hi_request = \<lparr>hi_Method = ''POST'', hi_Path = ''/api/chat'', hi_query_session = ''s'', hi_cookie_session = None,
     hi_chat = Some ''hi'', hi_vision = None\<rparr>"

lemma hi_post: "chat_post hi_request ''hi''" "sessionID (sv_sessions fresh_state) hi_request = ''s''"
  by (simp_all add: chat_post_def hi_request_def sessionID_def)

subsection \<open>Properties\<close>



text \<open>A streamed chat: while the client stays and every chunk can be marshalled, each message of the agent is
  written as one event, and the session grows by the user's message and one assistant message with the
  concatenation of what was written; if the client goes away first, no session changes.\<close>

theorem chat_stream_turn:
  assumes "chat_post q message" and "sx_flusher env" and "sid = sessionID (sv_sessions st) q"
    and "sx_Stream env (sv_world st) (conversations st sid @ [Some (user_message message)]) = (w, Inr cs)"
    and "\<And>v. sx_marshal env v \<noteq> None" and "HandleChatStream env q st = (st', ws, panic)"
  shows "\<not> panic \<and> (if (\<exists>n. sx_done env = Some n \<and> n \<le> length cs) then conversations st' = conversations st
    else conversations st' = (conversations st)(sid := conversations st sid
           @ [Some (user_message message), Some (assistant_message (concat (map em_Content cs)))])
      \<and> last ws = sse ''[DONE]'' \<and> length cs \<le> length ws)"
proof -
  obtain st1 msgs where s: "snapshot env sid (Some (user_message message)) st = (st1, msgs)" by fastforce
  note sp = snapshot_parts [OF s]
  let ?st3 = "(logUserMessage env sid message st1)\<lparr>sv_world := w\<rparr>"
  have run: "HandleChatStream env q st = (case chat_sse_loop env 0 [] cs of (ws, full) \<Rightarrow>
      (case full of None \<Rightarrow> (?st3, stream_headers @ ws, False)
       | Some content \<Rightarrow> (logAssistantResponse env sid content (append_turn env sid [Some (user_message message), Some (assistant_message content)] ?st3),
          stream_headers @ ws @ (if sx_StatsJSON env \<noteq> [] then [sse (json_field ''stats'' (sx_StatsJSON env))] else []) @ [sse ''[DONE]''], False)))"
    using assms(1,2,4) s sp(1,3) by (simp add: HandleChatStream_def chat_post_def Let_def assms(3) [symmetric])
  show ?thesis
  proof (cases "\<exists>n. sx_done env = Some n \<and> n \<le> length cs")
    case True
    then obtain ws' where "chat_sse_loop env 0 [] cs = (ws', None)" using chat_sse_gone [of env _ 0 cs "[]"] by auto
    with run assms(6) True sp(2) show ?thesis by simp
  next
    case False
    then obtain ws' where "chat_sse_loop env 0 [] cs = (ws', Some (concat (map em_Content cs)))" "length ws' = length cs"
      using chat_sse_complete [of env 0 cs "[]"] assms(5) by force
    with run assms(6) False sp(2) show ?thesis by (auto simp: conversations_append)
  qed
qed

theorem chat_stream_turn_witness:
  "conversations (fst (HandleChatStream pong_server hi_request fresh_state)) ''s'' =
     [Some (user_message ''hi''), Some (assistant_message ''pong'')]"
proof -
  obtain st' ws panic where h: "HandleChatStream pong_server hi_request fresh_state = (st', ws, panic)" by (metis prod_cases3)
  have e: "conversations fresh_state ''s'' = []" by (simp add: fresh_state_def messages_of_def NewManager_def)
  have "sx_Stream pong_server w msgs = (w, Inr [assistant_message ''po'', assistant_message ''ng''])"
    "sx_flusher pong_server" "sx_marshal pong_server v \<noteq> None" "sx_done pong_server = None" for w msgs v
    by (simp_all add: pong_server_def)
  from chat_stream_turn [OF hi_post(1) this(2) hi_post(2) [symmetric] this(1,3) h] this(4) h e show ?thesis
    by (simp add: assistant_message_def zero_EMessage_def)
qed

text \<open>C37: A vision request to a model that cannot see images records a nil message instead of the user's: after one
  successful request of that kind, saving the history panics and no session is written any more.\<close>

theorem vision_fallback_breaks_history:
  assumes "\<not> supportsVision (sx_lower env) (sx_Model env)" and "RunVision (sx_web env) (sv_http st) img prompt = (tr, Inr result)"
    and "\<And>w msgs. \<exists>w' m. sx_Generate env w msgs = (w', Inr (Some m))"
    and "processVisionNonStream env sid img prompt st = (st', ws, panic)"
  shows "\<not> panic \<and> None \<in> set (conversations st' sid) \<and> SaveHistory hc werr st' fs = (fs, Panic)"
proof -
  have p: "prepareVisionMessage env (sv_http st) img prompt = (tr, Inr (None, result, False))"
    using assms(1,2) by (simp add: prepareVisionMessage_def)
  obtain m st3 where "\<not> panic" "st' = append_turn env sid [None, Some m] st3"
  proof -
    obtain st2 msgs where s: "snapshot env sid (Some (user_message (utf8 [0x7528, 0x6237, 0x4E0A, 0x4F20, 0x4E86, 0x4E00, 0x5F20, 0x56FE, 0x7247, 0xFF0C, 0x63D0, 0x95EE, 0xFF1A]
        @ analysis_text prompt result))) (st\<lparr>sv_http := tr\<rparr>) = (st2, msgs)" by fastforce
    obtain w m where "sx_Generate env (sv_world st2) msgs = (w, Inr (Some m))" using assms(3) by blast
    with p s assms(4) show thesis by (intro that [of m "st2\<lparr>sv_world := w\<rparr>"]) (auto simp: processVisionNonStream_def Let_def)
  qed
  then have n: "\<not> panic" "None \<in> set (conversations st' sid)" by (simp_all add: conversations_append)
  then obtain ms where "(sid, ms) \<in> set (mg_sessions (sv_sessions st'))" "None \<in> set ms"
    by (cases "map_of (mg_sessions (sv_sessions st')) sid") (auto simp: messages_of_def dest: map_of_SomeD)
  with n show ?thesis using nil_message_panics_save by (auto simp: SaveHistory_def)
qed

theorem vision_fallback_breaks_history_witness:
  "SaveHistory \<lparr>hc_marshal = Inr, hc_unmarshal = Inr\<rparr> None (fst (processVisionNonStream pong_server ''s'' ''data:x'' ''what'' fresh_state))
     Map.empty = (Map.empty, Panic)"
proof -
  obtain st' ws panic where h: "processVisionNonStream pong_server ''s'' ''data:x'' ''what'' fresh_state = (st', ws, panic)" by (metis prod_cases3)
  have v: "\<not> supportsVision (sx_lower pong_server) (sx_Model pong_server)" by code_simp
  obtain tr where t: "RunVision (sx_web pong_server) (sv_http fresh_state) ''data:x'' ''what'' = (tr, Inr ''a cat'')"
    by (simp add: RunVision_def post_chat_def pong_server_def plain_web_def Let_def)
  have g: "\<exists>w' m. sx_Generate pong_server w msgs = (w', Inr (Some m))" for w msgs
  proof -
    let ?a = "\<lparr>ap_Messages = [] @ [Some (zero_Message\<lparr>m_Content := ''pong''\<rparr>)], ap_Stats = []\<rparr>"
    have "\<exists>w'. Run pong_runner (Some q) w = (w', Inr ?a)" for q
      using run_bare [of pong_runner w q "rs_world w" ?a] by (auto simp: pong_runner_def)
    then obtain w' where "Run pong_runner (Some \<lparr>aq_Messages = FromEinoSlice msgs, aq_SessionID = [], aq_ToolNames = []\<rparr>) w = (w', Inr ?a)"
      by blast
    then show ?thesis by (simp add: pong_server_def agent_Generate_def ToEino_def)
  qed
  from vision_fallback_breaks_history [OF v t g h, of "\<lparr>hc_marshal = Inr, hc_unmarshal = Inr\<rparr>" None Map.empty] h
  show ?thesis by simp
qed

end
