(* ===== verification/React.thy ===== *)
theory React
  imports Server
begin

section \<open>The ReAct agent (internal/adk/react.go, internal/adk/agent.go)\<close>

text \<open>
  The agent wraps the third-party ReAct loop: it chooses the tools, limits the messages of a model call to
  the last six and puts the system prompt before them. The loop is an argument: called with the
  conversation, it fails or delivers a list of messages and then ends, with an error or without.
\<close>

record 'w AgentConfig =
  ac_Bridge :: bool
  ac_Tools :: "'w ToolRegistry"
  ac_ToolNames :: "string list"
  ac_Prompt :: string
  ac_MaxSteps :: int
  ac_Middleware :: "'w MiddlewareFuncs list option"
  ac_Guardrails :: "Guardrails option"

datatype 'w agent_tools = Plain "'w Tool list" | Wrapped "'w wrapped_tool list"

definition MessageRewriter :: "EMessage option list \<Rightarrow> EMessage option list" where
  "MessageRewriter msgs = (if length msgs \<le> 6 then msgs else drop (length msgs - 6) msgs)"

definition MessageModifier :: "string \<Rightarrow> EMessage option list \<Rightarrow> EMessage option list" where
  "MessageModifier prompt input = Some (zero_EMessage\<lparr>em_Role := RoleSystem, em_Content := prompt\<rparr>) # input"

definition select_tools :: "'w AgentConfig \<Rightarrow> 'w agent_tools" where
  "select_tools cfg = (if ac_Middleware cfg \<noteq> None \<or> ac_Guardrails cfg \<noteq> None
     then Wrapped (einoToolsWrapped (ac_Tools cfg) (ac_ToolNames cfg) (ac_Middleware cfg) (ac_Guardrails cfg))
     else Plain (einoTools (ac_Tools cfg) (ac_ToolNames cfg)))"

text \<open>What the framework is given: the tools, the step limit and the two message functions.\<close>

record ('w) react_config =
  rc_Tools :: "'w agent_tools"
  rc_MaxStep :: int
  rc_Rewriter :: "EMessage option list \<Rightarrow> EMessage option list"
  rc_Modifier :: "EMessage option list \<Rightarrow> EMessage option list"

definition NewReactAgent :: "('w react_config \<Rightarrow> gerror + 'i) \<Rightarrow> 'w AgentConfig option \<Rightarrow> gerror + 'i" where
  "NewReactAgent NewAgent cfg = (case cfg of
     None \<Rightarrow> Inl (ErrMsg ''agent config is nil'')
   | Some c \<Rightarrow>
       if \<not> ac_Bridge c then Inl (ErrMsg ''bridge is required for ReactAgent'')
       else case NewAgent \<lparr>rc_Tools = select_tools c, rc_MaxStep = ac_MaxSteps c, rc_Rewriter = MessageRewriter,
              rc_Modifier = MessageModifier (ac_Prompt c)\<rparr> of
           Inl e \<Rightarrow> Inl (ErrWrap ''create react agent'' e)
         | Inr a \<Rightarrow> Inr a)"

type_synonym 'w react_stream = "'w \<Rightarrow> EMessage option list \<Rightarrow> 'w \<times> (gerror + EMessage list \<times> gerror option)"

definition react_Run :: "'w react_stream \<Rightarrow> string \<Rightarrow> 'w \<Rightarrow> adk_Request \<Rightarrow> 'w \<times> (gerror + adk_Response option)" where
  "react_Run inner stats w req = (case inner w (ToEinoSlice (aq_Messages req)) of (w1, r) \<Rightarrow>
     (w1, case r of
        Inl e \<Rightarrow> Inl (ErrWrap ''agent stream'' e)
      | Inr (ms, Some e) \<Rightarrow> Inl (ErrWrap ''agent stream recv'' e)
      | Inr (ms, None) \<Rightarrow>
          if ms = [] then Inl (ErrMsg ''agent returned no messages'')
          else Inr (Some \<lparr>ap_Messages = FromEinoSlice (map Some ms), ap_Stats = stats\<rparr>)))"

text \<open>The events of one message, and of a whole stream. A cancelled context ends the channel after some
  number of events.\<close>

definition message_events :: "EMessage \<Rightarrow> agent_event list" where
  "message_events m =
     (if em_Content m \<noteq> [] then [\<lparr>ae_Type = EvText, ae_Content = em_Content m, ae_ToolID = [], ae_Error = None\<rparr>] else [])
     @ (if em_ReasoningContent m \<noteq> [] then [\<lparr>ae_Type = EvReasoning, ae_Content = em_ReasoningContent m, ae_ToolID = [], ae_Error = None\<rparr>] else [])"

definition react_events :: "EMessage list \<Rightarrow> gerror option \<Rightarrow> agent_event list" where
  "react_events ms err = concat (map message_events ms)
     @ (case err of Some e \<Rightarrow> [\<lparr>ae_Type = EvErr, ae_Content = error_string e, ae_ToolID = [], ae_Error = None\<rparr>] | None \<Rightarrow> [])"

definition react_Stream :: "'w react_stream \<Rightarrow> nat option \<Rightarrow> 'w \<Rightarrow> adk_Request \<Rightarrow> 'w \<times> (gerror + agent_event list)" where
  "react_Stream inner cancel w req = (case inner w (ToEinoSlice (aq_Messages req)) of (w1, r) \<Rightarrow>
     (w1, case r of
        Inl e \<Rightarrow> Inl e
      | Inr (ms, err) \<Rightarrow> Inr (case cancel of None \<Rightarrow> react_events ms err | Some k \<Rightarrow> take k (react_events ms err))))"

subsection \<open>Lemmas\<close>

lemma message_events_no_err: "e \<in> set (concat (map message_events ms)) \<Longrightarrow> ae_Type e \<noteq> EvErr"
  by (auto simp: message_events_def split: if_splits)

lemma forward_append:
  assumes "\<forall>e \<in> set es. ae_Type e \<noteq> EvErr"
  shows "forward_events None i (es @ fs) = forward_events None i es @ forward_events None (i + length es) fs"
  using assms
proof (induction es arbitrary: i)
  case (Cons e es)
  then show ?case by (cases "ae_Type e") auto
qed simp

lemma forward_content:
  "concat (map em_Content (forward_events None i (concat (map message_events ms)))) = concat (map em_Content ms)"
proof (induction ms arbitrary: i)
  case (Cons m ms)
  have ne: "\<forall>e \<in> set (message_events m). ae_Type e \<noteq> EvErr" using message_events_no_err [of _ "[m]"] by simp
  have "concat (map em_Content (forward_events None i (message_events m))) = em_Content m"
    by (simp add: message_events_def zero_EMessage_def)
  with Cons.IH show ?case by (simp add: forward_append [OF ne])
qed simp

lemma forward_error: "forward_events None i (es @ \<lparr>ae_Type = EvErr, ae_Content = c, ae_ToolID = t, ae_Error = x\<rparr> # fs)
    = forward_events None i es" if "\<forall>e \<in> set es. ae_Type e \<noteq> EvErr"
  using that by (simp add: forward_append)

lemma relay_until_error:
  assumes "\<forall>e \<in> set es. ae_Type e \<noteq> EvErr" and "ae_Type x = EvErr"
  shows "fst (relay None i c rs (es @ x # fs)) = es @ [x]"
  using assms by (induction es arbitrary: i c rs) (auto simp: case_prod_beta)

text \<open>What reaches the server: the text of the messages, with or without an error at the end.\<close>

lemma runner_events:
  assumes "rn_store r = None" and "rn_guards r = None" and "rn_mw r = None"
    and "react_Stream inner None (rs_world st) q = (w, Inr (react_events ms err))"
  shows "\<exists>st'. runner_Stream r (react_Stream inner None) None (Some q) st = (st', Inr (react_events ms err)) \<and> rs_world st' = w"
proof -
  let ?es = "concat (map message_events ms)"
  have ne: "\<forall>e \<in> set ?es. ae_Type e \<noteq> EvErr" using message_events_no_err by blast
  have "fst (relay None 0 [] [] (react_events ms err)) = react_events ms err"
  proof (cases err)
    case None
    then show ?thesis using relay_complete [OF ne, of None 0 "[]" "[]"] by (simp add: react_events_def)
  next
    case (Some e)
    then show ?thesis using relay_until_error [OF ne, of _ 0 "[]" "[]" "[]"] by (simp add: react_events_def)
  qed
  then obtain rec where "relay None 0 [] [] (react_events ms err) = (react_events ms err, rec)" by (metis prod.collapse)
  with assms show ?thesis
    by (auto simp: runner_Stream_def prepareRequest_def apply_before_def appendConversation_def Let_def split: option.splits prod.splits)
qed

lemma agent_stream_content:
  assumes "rn_store r = None" and "rn_guards r = None" and "rn_mw r = None"
    and "inner (rs_world st) (ToEinoSlice (FromEinoSlice msgs)) = (w, Inr (ms, err))"
  shows "\<exists>st' cs. agent_Stream r (react_Stream inner None) None None st msgs = (st', Inr cs) \<and> rs_world st' = w
    \<and> concat (map em_Content cs) = concat (map em_Content ms)"
proof -
  let ?q = "\<lparr>aq_Messages = FromEinoSlice msgs, aq_SessionID = [], aq_ToolNames = []\<rparr>"
  have "react_Stream inner None (rs_world st) ?q = (w, Inr (react_events ms err))"
    using assms(4) by (simp add: react_Stream_def)
  from runner_events [OF assms(1-3) this] obtain st' where
    r: "runner_Stream r (react_Stream inner None) None (Some ?q) st = (st', Inr (react_events ms err))" "rs_world st' = w" by blast
  have ne: "\<forall>e \<in> set (concat (map message_events ms)). ae_Type e \<noteq> EvErr" using message_events_no_err by blast
  have "concat (map em_Content (forward_events None 0 (react_events ms err))) = concat (map em_Content ms)"
    by (cases err) (simp_all add: react_events_def forward_error [OF ne] forward_content)
  with r show ?thesis by (simp add: agent_Stream_def)
qed


text \<open>A server whose agent is the ReAct agent, as \<open>main.go\<close> builds it.\<close>

definition main_server :: "'w react_stream \<Rightarrow> ('s, 'w) Runner \<Rightarrow> ('s, 'w) run_state srv_env \<Rightarrow> bool" where
  "main_server inner r env \<longleftrightarrow> rn_store r = None \<and> rn_guards r = None \<and> rn_mw r = None
     \<and> sx_Stream env = agent_Stream r (react_Stream inner None) None None
     \<and> sx_flusher env \<and> sx_done env = None \<and> (\<forall>v. sx_marshal env v \<noteq> None)"

lemma HandleChatStream_react:
  assumes "main_server inner r env" and "chat_post q message" and "sid = sessionID (sv_sessions st) q"
    and "inner (rs_world (sv_world st)) (ToEinoSlice (FromEinoSlice (conversations st sid @ [Some (user_message message)]))) = (w, Inr (ms, err))"
    and "HandleChatStream env q st = (st', ws, panic)"
  shows "\<not> panic \<and> last ws = sse ''[DONE]''
    \<and> conversations st' = (conversations st)(sid := conversations st sid
         @ [Some (user_message message), Some (assistant_message (concat (map em_Content ms)))])"
proof -
  note m = assms(1) [unfolded main_server_def]
  obtain rs' cs where c: "agent_Stream r (react_Stream inner None) None None (sv_world st)
      (conversations st sid @ [Some (user_message message)]) = (rs', Inr cs)"
    "concat (map em_Content cs) = concat (map em_Content ms)"
    using agent_stream_content [where inner = inner and r = r and st = "sv_world st"] assms(4) m by blast
  obtain st1 msgs where s: "snapshot env sid (Some (user_message message)) st = (st1, msgs)" by fastforce
  note sp = snapshot_parts [OF s]
  obtain ws' where l: "chat_sse_loop env 0 [] cs = (ws', Some (concat (map em_Content cs)))"
    using chat_sse_complete [of env 0 cs "[]"] m by force
  show ?thesis
    using assms(2,5) m c l s sp
    by (auto simp: HandleChatStream_def chat_post_def Let_def assms(3) [symmetric] conversations_append)
qed

definition answering :: "string \<Rightarrow> gerror option \<Rightarrow> unit react_stream" where
  "answering t err = (\<lambda>w _. (w, Inr ([assistant_message t], err)))"

definition react_server :: "gerror option \<Rightarrow> (unit, unit) run_state srv_env" where
  "react_server err = pong_server\<lparr>sx_Stream := agent_Stream pong_runner (react_Stream (answering ''pong'' err) None) None None\<rparr>"

lemma react_server_main: "main_server (answering ''pong'' err) pong_runner (react_server err)"
  by (simp add: main_server_def react_server_def pong_runner_def pong_server_def)

subsection \<open>Properties\<close>

text \<open>A streamed chat end to end: the messages that the ReAct loop delivers pass the agent, the runner and its
  relay, the adapter and the handler, and the session ends up with the user's message and one assistant
  message whose text is the concatenation of theirs; the loop was given the session's history and the new
  message, converted.\<close>

theorem streamed_chat_end_to_end:
  assumes "main_server inner r env" and "chat_post q message" and "sid = sessionID (sv_sessions st) q"
    and "inner (rs_world (sv_world st)) (ToEinoSlice (FromEinoSlice (conversations st sid @ [Some (user_message message)]))) = (w, Inr (ms, None))"
    and "HandleChatStream env q st = (st', ws, panic)"
  shows "\<not> panic \<and> last ws = sse ''[DONE]''
    \<and> conversations st' = (conversations st)(sid := conversations st sid
         @ [Some (user_message message), Some (assistant_message (concat (map em_Content ms)))])"
  by (rule HandleChatStream_react [OF assms])

theorem streamed_chat_end_to_end_witness:
  "conversations (fst (HandleChatStream (react_server None) hi_request fresh_state)) ''s'' =
     [Some (user_message ''hi''), Some (assistant_message ''pong'')]"
proof -
  obtain st' ws panic where h: "HandleChatStream (react_server None) hi_request fresh_state = (st', ws, panic)" by (metis prod_cases3)
  have e: "conversations fresh_state ''s'' = []" by (simp add: fresh_state_def messages_of_def NewManager_def)
  have a: "answering ''pong'' None w m = (w, Inr ([assistant_message ''pong''], None))" for w m by (simp add: answering_def)
  from streamed_chat_end_to_end [OF react_server_main hi_post(1) hi_post(2) [symmetric] a h] h e show ?thesis
    by (simp add: assistant_message_def zero_EMessage_def)
qed

text \<open>C38: An agent that fails in the middle of a streamed answer is not reported: the client receives the end
  marker and no error, and the truncated text is recorded as the assistant's answer.\<close>

theorem agent_error_recorded_as_answer:
  assumes "main_server inner r env" and "chat_post q message" and "sid = sessionID (sv_sessions st) q"
    and "inner (rs_world (sv_world st)) (ToEinoSlice (FromEinoSlice (conversations st sid @ [Some (user_message message)]))) = (w, Inr (ms, Some e))"
    and "HandleChatStream env q st = (st', ws, panic)"
  shows "\<not> panic \<and> last ws = sse ''[DONE]''
    \<and> conversations st' = (conversations st)(sid := conversations st sid
         @ [Some (user_message message), Some (assistant_message (concat (map em_Content ms)))])"
  by (rule HandleChatStream_react [OF assms])

theorem agent_error_recorded_as_answer_witness:
  "conversations (fst (HandleChatStream (react_server (Some ErrUnexpectedEOF)) hi_request fresh_state)) ''s'' =
     [Some (user_message ''hi''), Some (assistant_message ''pong'')]"
proof -
  let ?env = "react_server (Some ErrUnexpectedEOF)"
  obtain st' ws panic where h: "HandleChatStream ?env hi_request fresh_state = (st', ws, panic)" by (metis prod_cases3)
  have e: "conversations fresh_state ''s'' = []" by (simp add: fresh_state_def messages_of_def NewManager_def)
  have a: "answering ''pong'' (Some ErrUnexpectedEOF) w m = (w, Inr ([assistant_message ''pong''], Some ErrUnexpectedEOF))" for w m
    by (simp add: answering_def)
  from agent_error_recorded_as_answer [OF react_server_main hi_post(1) hi_post(2) [symmetric] a h] h e show ?thesis
    by (simp add: assistant_message_def zero_EMessage_def)
qed

text \<open>A model call of the agent carries the system prompt followed by the latest messages: never more than
  seven messages, and all of the conversation if it has at most six.\<close>

theorem model_window:
  "\<exists>old. msgs = old @ MessageRewriter msgs \<and> length (MessageModifier prompt (MessageRewriter msgs)) = min 7 (Suc (length msgs))
     \<and> hd (MessageModifier prompt (MessageRewriter msgs)) = Some (zero_EMessage\<lparr>em_Role := RoleSystem, em_Content := prompt\<rparr>)"
  by (intro exI [of _ "take (length msgs - 6) msgs"]) (auto simp: MessageRewriter_def MessageModifier_def)

end
