(* ===== verification/Configuration.thy ===== *)
theory Configuration
  imports Client Text
begin

section \<open>Configuration (internal/config, internal/adk/llm/resolution.go, the registries of protocol/types.go)\<close>

text \<open>
  The configuration is read from environment variables, which a file may set first. The environment is a
  map; a variable that is not set reads as the empty string. \<open>time.ParseDuration\<close> is an argument (durations
  are nanoseconds); so is the text of an error of \<open>url.Parse\<close>.
\<close>

type_synonym environment = "string \<rightharpoonup> string"

definition Getenv :: "environment \<Rightarrow> string \<Rightarrow> string" where
  "Getenv e k = (case e k of Some v \<Rightarrow> v | None \<Rightarrow> [])"

text \<open>\<open>os.Setenv\<close> refuses an empty key, one with \<open>=\<close> or a zero byte, and a value with a zero byte; the program
  ignores its error.\<close>

definition Setenv :: "environment \<Rightarrow> string \<Rightarrow> string \<Rightarrow> environment" where
  "Setenv e k v = (if k = [] \<or> CHR ''='' \<in> set k \<or> CHR 0x00 \<in> set k \<or> CHR 0x00 \<in> set v then e else e(k \<mapsto> v))"

text \<open>\<open>strconv.Atoi\<close>: an optional sign and digits, in the range of a 64-bit integer.\<close>

definition Atoi :: "string \<Rightarrow> int option" where
  "Atoi s =
     (let (neg, ds) = (case s of c # r \<Rightarrow> if c = CHR ''-'' then (True, r) else if c = CHR ''+'' then (False, r) else (False, s) | [] \<Rightarrow> (False, s));
          n = (if neg then - int (read_nat ds) else int (read_nat ds)) in
      if ds \<noteq> [] \<and> list_all is_digit ds \<and> - (2 ^ 63) \<le> n \<and> n < 2 ^ 63 then Some n else None)"

subsection \<open>Reading variables\<close>

definition env_line :: "environment \<Rightarrow> string \<Rightarrow> environment" where
  "env_line e line0 =
     (let line = TrimSpace line0 in
      if line = [] \<or> HasPrefix line ''#'' then e
      else case Cut line ''='' of (k, v, ok) \<Rightarrow> if ok then Setenv e (TrimSpace k) (TrimSpace v) else e)"

text \<open>The file is given by its content, if it can be read.\<close>

definition LoadEnvFile :: "environment \<Rightarrow> string option \<Rightarrow> environment" where
  "LoadEnvFile e data = (case data of
     None \<Rightarrow> e
   | Some d \<Rightarrow> foldl env_line e (split_lines (ReplaceAll d [CHR 0x0D] [])))"

definition GetEnv :: "environment \<Rightarrow> string \<Rightarrow> string \<Rightarrow> string" where
  "GetEnv e key fallback = (if Getenv e key \<noteq> [] then Getenv e key else fallback)"

definition GetEnvInt :: "environment \<Rightarrow> string \<Rightarrow> int \<Rightarrow> int" where
  "GetEnvInt e key fallback =
     (let v = Getenv e key in
      if v = [] then fallback else case Atoi v of None \<Rightarrow> fallback | Some n \<Rightarrow> n)"

definition SplitEnv :: "environment \<Rightarrow> string \<Rightarrow> string list" where
  "SplitEnv e key =
     (let v = Getenv e key in
      if v = [] then [] else filter (\<lambda>p. p \<noteq> []) (map TrimSpace (SplitChar CHR '','' v)))"

subsection \<open>The configuration\<close>

record OpenAIConfig =
  oc_APIKey :: string
  oc_APIKeys :: "string list"
  oc_BaseURL :: string
  oc_Model :: string
  oc_FallbackModel :: string
  oc_FallbackBaseURL :: string
  oc_StreamTimeout :: int
  oc_RateLimitRPM :: int
  oc_RateLimitTPM :: int

record ServerConfig =
  sc_Port :: string
  sc_WorkspaceRoot :: string

record AgentSettings =
  as_MaxStep :: int
  as_ContextWarnPct :: int
  as_ContextCompressPct :: int
  as_MaxReconnect :: int

record RawConfig =
  rw_RawLog :: bool
  rw_RawLogDir :: string
  rw_UsageDB :: bool
  rw_UsageDBPath :: string

record AppConfig =
  cf_OpenAI :: OpenAIConfig
  cf_Server :: ServerConfig
  cf_Agent :: AgentSettings
  cf_Raw :: RawConfig
  cf_AllowPrivateURLs :: bool

definition Load_config :: "(string \<Rightarrow> int option) \<Rightarrow> environment \<Rightarrow> string option \<Rightarrow> environment \<times> AppConfig" where
  "Load_config ParseDuration e0 file =
     (let e = LoadEnvFile e0 file;
          streamTimeout = (case ParseDuration (GetEnv e ''STREAM_TIMEOUT'' ''120s'') of Some d \<Rightarrow> d | None \<Rightarrow> 120 * Second) in
      (e, \<lparr>cf_OpenAI = \<lparr>oc_APIKey = Getenv e ''OPENAI_API_KEY'', oc_APIKeys = SplitEnv e ''OPENAI_API_KEYS'',
              oc_BaseURL = Getenv e ''OPENAI_BASE_URL'', oc_Model = GetEnv e ''OPENAI_MODEL'' ''deepseek-v4-flash'',
              oc_FallbackModel = GetEnv e ''OPENAI_FALLBACK_MODEL'' [], oc_FallbackBaseURL = GetEnv e ''OPENAI_FALLBACK_BASE_URL'' [],
              oc_StreamTimeout = streamTimeout, oc_RateLimitRPM = GetEnvInt e ''RATE_LIMIT_RPM'' 0,
              oc_RateLimitTPM = GetEnvInt e ''RATE_LIMIT_TPM'' 0\<rparr>,
           cf_Server = \<lparr>sc_Port = GetEnv e ''PORT'' ''8080'', sc_WorkspaceRoot = GetEnv e ''WORKSPACE_ROOT'' ''.''\<rparr>,
           cf_Agent = \<lparr>as_MaxStep = GetEnvInt e ''AGENT_MAX_STEP'' 12, as_ContextWarnPct = GetEnvInt e ''CONTEXT_WARN_PCT'' 40,
              as_ContextCompressPct = GetEnvInt e ''CONTEXT_COMPRESS_PCT'' 50, as_MaxReconnect = GetEnvInt e ''MAX_RECONNECT_ATTEMPTS'' 3\<rparr>,
           cf_Raw = \<lparr>rw_RawLog = (GetEnv e ''RAW_LOG'' [] = ''1''), rw_RawLogDir = GetEnv e ''RAW_LOG_DIR'' ''logs/raw'',
              rw_UsageDB = (GetEnv e ''USAGE_DB'' [] = ''1''), rw_UsageDBPath = GetEnv e ''USAGE_DB_PATH'' ''logs/raw/usage.db''\<rparr>,
           cf_AllowPrivateURLs = (ToLower (GetEnv e ''ALLOW_PRIVATE_URLS'' ''false'') = ''true'')\<rparr>))"

subsection \<open>Registries (protocol/types.go)\<close>

definition Register_kind :: "(string \<rightharpoonup> 'f) \<Rightarrow> string \<Rightarrow> 'f \<Rightarrow> (string \<rightharpoonup> 'f)" where
  "Register_kind registry kind f = registry(kind \<mapsto> f)"

definition New_protocol :: "(string \<rightharpoonup> ('c \<Rightarrow> gerror + 'p)) \<Rightarrow> string \<Rightarrow> 'c \<Rightarrow> gerror + 'p" where
  "New_protocol registry kind cfg = (case registry kind of
     None \<Rightarrow> Inl (ErrMsg (''unknown provider kind: '' @ kind))
   | Some f \<Rightarrow> f cfg)"

definition chunk_number :: "ChunkType \<Rightarrow> nat" where
  "chunk_number t = (case t of ChunkText \<Rightarrow> 0 | ChunkReasoning \<Rightarrow> 1 | ChunkToolCallStart \<Rightarrow> 2 | ChunkToolCall \<Rightarrow> 3 | ChunkUsage \<Rightarrow> 4
     | ChunkWarn \<Rightarrow> 5 | ChunkDone \<Rightarrow> 6 | ChunkError \<Rightarrow> 7 | ChunkRawRequest \<Rightarrow> 8 | ChunkRawResponse \<Rightarrow> 9 | ChunkRawError \<Rightarrow> 10)"

definition RegisterChunkType :: "(ChunkType \<rightharpoonup> string) \<Rightarrow> ChunkType \<Rightarrow> string \<Rightarrow> (ChunkType \<rightharpoonup> string)" where
  "RegisterChunkType names t name = names(t \<mapsto> name)"

definition ChunkType_String :: "(ChunkType \<rightharpoonup> string) \<Rightarrow> ChunkType \<Rightarrow> string" where
  "ChunkType_String names t = (case names t of Some name \<Rightarrow> name | None \<Rightarrow> ''ChunkType('' @ show_nat (chunk_number t) @ '')'')"

definition raw_names :: "ChunkType \<rightharpoonup> string" where
  "raw_names = RegisterChunkType (RegisterChunkType (RegisterChunkType Map.empty ChunkRawRequest ''raw_request'')
     ChunkRawResponse ''raw_response'') ChunkRawError ''raw_error''"

subsection \<open>Resolving a model (internal/adk/llm/resolution.go)\<close>

record ModelRef =
  mf_Model :: string
  mf_BaseURL :: string
  mf_Provider :: string

definition url_failure :: "(string \<Rightarrow> string) \<Rightarrow> string \<Rightarrow> url_error \<Rightarrow> gerror" where
  "url_failure parse_text rawURL e = ErrMsg (URLValidationError_Error rawURL (url_reason parse_text rawURL e))"

text \<open>The factory registered for \<open>openai\<close> is \<open>NewOpenAI\<close>; the validator reads \<open>ALLOW_PRIVATE_URLS\<close> itself.\<close>

definition openai_factory :: "(string \<Rightarrow> string) \<Rightarrow> bool \<Rightarrow> Config \<Rightarrow> gerror + OpenAI \<times> Vendor \<times> string" where
  "openai_factory parse_text allowPrivate cfg = (case NewOpenAI allowPrivate cfg of
     Inl e \<Rightarrow> Inl (ErrWrap ''invalid base URL'' (url_failure parse_text (TrimRight (c_BaseURL cfg) ''/'') e))
   | Inr p \<Rightarrow> Inr p)"

definition Resolve ::
  "(string \<Rightarrow> string) \<Rightarrow> environment \<Rightarrow> ModelRef \<Rightarrow> AppConfig \<Rightarrow> gerror + (OpenAI \<times> Vendor \<times> string) \<times> string" where
  "Resolve parse_text e ref cfg =
     (let oc = cf_OpenAI cfg; ag = cf_Agent cfg; apiKey = oc_APIKey oc;
          baseURL = (if mf_BaseURL ref = [] then oc_BaseURL oc else mf_BaseURL ref);
          model = (if mf_Model ref = [] then oc_Model oc else mf_Model ref);
          allowPrivate = (Getenv e ''ALLOW_PRIVATE_URLS'' = ''true'') in
      if apiKey = [] \<or> baseURL = [] then Inl (ErrMsg ''API key and base URL are required'')
      else case ValidateBaseURL allowPrivate baseURL of
        Some err \<Rightarrow> Inl (ErrWrap ''base URL validation failed'' (url_failure parse_text baseURL err))
      | None \<Rightarrow>
         (case New_protocol (Register_kind Map.empty ''openai'' (openai_factory parse_text allowPrivate)) ''openai''
             \<lparr>c_APIKey = apiKey, c_APIKeys = oc_APIKeys oc, c_BaseURL = baseURL, c_Model = model,
              c_StreamTimeout = oc_StreamTimeout oc, c_RateLimitRPM = oc_RateLimitRPM oc, c_RateLimitTPM = oc_RateLimitTPM oc,
              c_ContextWarnPct = as_ContextWarnPct ag, c_ContextCompressPct = as_ContextCompressPct ag,
              c_MaxReconnect = as_MaxReconnect ag, c_HealthCheckURL = [], c_FallbackModel = oc_FallbackModel oc,
              c_FallbackBaseURL = oc_FallbackBaseURL oc\<rparr> of
            Inl err \<Rightarrow> Inl (ErrWrap ''create protocol failed'' err)
          | Inr proto \<Rightarrow> Inr (proto, model)))"

definition NewBridgeFromConfig ::
  "(string \<Rightarrow> string) \<Rightarrow> environment \<Rightarrow> AppConfig \<Rightarrow> gerror + (OpenAI \<times> Vendor \<times> string) \<times> string" where
  "NewBridgeFromConfig parse_text e cfg =
     Resolve parse_text e \<lparr>mf_Model = oc_Model (cf_OpenAI cfg), mf_BaseURL = oc_BaseURL (cf_OpenAI cfg), mf_Provider = []\<rparr> cfg"


subsection \<open>Lemmas\<close>

lemma openai_factory_ok:
  "openai_factory parse_text allow c = Inr (oa, vendor, health) \<Longrightarrow> oa_apiKey oa = c_APIKey c \<and> oa_model oa = c_Model c
     \<and> oa_baseURL oa = TrimRight (c_BaseURL c) ''/'' @ ''/chat/completions''"
  by (auto simp: openai_factory_def NewOpenAI_def Let_def split: sum.split_asm option.split_asm)

definition int64 :: "int \<Rightarrow> bool" where
  "int64 n \<longleftrightarrow> - (2 ^ 63) \<le> n \<and> n < 2 ^ 63"

lemma Atoi_int64: "Atoi s = Some n \<Longrightarrow> int64 n"
  by (auto simp: Atoi_def int64_def Let_def split: prod.splits if_splits)

lemma GetEnvInt_int64: "int64 d \<Longrightarrow> int64 (GetEnvInt e k d)"
  by (auto simp: GetEnvInt_def Let_def dest: Atoi_int64 split: option.splits)

lemma GetEnv_nonempty: "d \<noteq> [] \<Longrightarrow> GetEnv e k d \<noteq> []"
  by (simp add: GetEnv_def)

lemma SplitEnv_nonempty: "list_all (\<lambda>p. p \<noteq> []) (SplitEnv e k)"
  by (auto simp: SplitEnv_def Let_def list_all_iff)

text \<open>Text that \<open>TrimSpace\<close> leaves alone: it starts and ends with a printable ASCII character.\<close>

definition printable :: "char \<Rightarrow> bool" where
  "printable c \<longleftrightarrow> CHR ''!'' \<le> c \<and> c \<le> CHR ''~''"

lemma printable_code: "printable c \<longleftrightarrow> 33 \<le> (of_char c :: nat) \<and> (of_char c :: nat) \<le> 126"
  by (simp add: printable_def less_eq_char_def)

lemma printable_no_space:
  assumes "printable c"
  shows "\<not> ascii_space c" "\<not> space2 c b" "\<not> space2 a c" "\<not> space3 c a b" "\<not> space3 a b c"
  using assms by (auto simp: printable_code ascii_space_def space2_def space3_def less_eq_char_def)

lemma trim_left_keep: "s \<noteq> [] \<Longrightarrow> printable (hd s) \<Longrightarrow> trim_left_space s = s"
  by (cases s rule: trim_left_space.cases) (simp_all add: printable_no_space)

lemma trim_right_keep: "s \<noteq> [] \<Longrightarrow> printable (hd s) \<Longrightarrow> trim_right_space_rev s = s"
  by (cases s rule: trim_right_space_rev.cases) (simp_all add: printable_no_space)

definition trimmed :: "string \<Rightarrow> bool" where
  "trimmed s \<longleftrightarrow> s = [] \<or> printable (hd s) \<and> printable (last s)"

lemma TrimSpace_trimmed: "trimmed s \<Longrightarrow> TrimSpace s = s"
  by (cases "s = []") (auto simp: TrimSpace_def trimmed_def trim_left_keep trim_right_keep hd_rev)

definition plain :: "string \<Rightarrow> bool" where
  "plain s \<longleftrightarrow> CHR 0x0A \<notin> set s \<and> CHR 0x0D \<notin> set s \<and> CHR 0x00 \<notin> set s"

definition assignment_ok :: "string \<times> string \<Rightarrow> bool" where
  "assignment_ok kv = (case kv of (k, v) \<Rightarrow> k \<noteq> [] \<and> hd k \<noteq> CHR ''#'' \<and> CHR ''='' \<notin> set k
     \<and> trimmed k \<and> trimmed v \<and> plain k \<and> plain v)"

definition env_text :: "(string \<times> string) list \<Rightarrow> string" where
  "env_text kvs = concat (map (\<lambda>(k, v). k @ ''='' @ v @ [nl]) kvs)"

lemma Index_char: "c \<notin> set k \<Longrightarrow> Index (k @ c # v) [c] = Some (length k)"
  by (induction k) auto

lemma env_line_assignment:
  assumes "assignment_ok (k, v)"
  shows "env_line e (k @ ''='' @ v) = e(k \<mapsto> v)"
proof -
  note ok = assms [unfolded assignment_ok_def prod.case]
  have "trimmed (k @ ''='' @ v)" using ok by (auto simp: trimmed_def printable_def)
  then have t: "TrimSpace (k @ ''='' @ v) = k @ ''='' @ v" by (rule TrimSpace_trimmed)
  have h: "\<not> HasPrefix (k @ ''='' @ v) ''#''" using ok by (cases k) auto
  have "Cut (k @ ''='' @ v) ''='' = (k, v, True)" using ok by (simp add: Cut_def Index_char)
  with t h ok show ?thesis
    by (auto simp: env_line_def Let_def Setenv_def TrimSpace_trimmed plain_def)
qed

lemma env_text_lines:
  assumes "list_all assignment_ok kvs"
  shows "split_lines (ReplaceAll (env_text kvs) [CHR 0x0D] []) = map (\<lambda>(k, v). k @ ''='' @ v) kvs @ [[]]"
proof -
  have "CHR 0x0D \<notin> set (env_text kvs)"
    using assms by (auto simp: env_text_def list_all_iff assignment_ok_def plain_def)
  then have "Index (env_text kvs) [CHR 0x0D] = None" by (auto simp: Index_None_iff)
  then have r: "ReplaceAll (env_text kvs) [CHR 0x0D] [] = env_text kvs"
    by (simp add: ReplaceAll_def SplitStr.simps [of _ "[CHR 0x0D]"])
  show ?thesis unfolding r using assms
  proof (induction kvs)
    case (Cons kv kvs)
    obtain k v where kv: "kv = (k, v)" by fastforce
    have "nl \<notin> set (k @ ''='' @ v)" using Cons.prems kv by (auto simp: assignment_ok_def plain_def)
    from SplitChar_append [OF this, of "env_text kvs"] Cons kv show ?case by (simp add: env_text_def)
  qed (simp add: env_text_def)
qed

lemma env_assignments:
  "list_all assignment_ok kvs \<Longrightarrow> foldl env_line e (map (\<lambda>(k, v). k @ ''='' @ v) kvs) = e ++ map_of (rev kvs)"
proof (induction kvs arbitrary: e)
  case (Cons kv kvs)
  obtain k v where kv: "kv = (k, v)" by fastforce
  have "e(k \<mapsto> v) ++ map_of (rev kvs) = e ++ map_of (rev kvs @ [(k, v)])"
    by (rule ext) (simp add: map_add_def split: option.splits)
  with Cons kv env_line_assignment [of k v e] show ?case by simp
qed simp

subsection \<open>Properties\<close>

text \<open>Reading an environment file restores what was written to it: after a file of assignments, every variable
  has the value of its last assignment in the file, and all others keep theirs.\<close>

theorem env_file_roundtrip:
  assumes "list_all assignment_ok kvs"
  shows "LoadEnvFile e (Some (env_text kvs)) = e ++ map_of (rev kvs)"
  using env_text_lines [OF assms] env_assignments [OF assms]
  by (simp add: LoadEnvFile_def env_line_def [of _ "[]"] TrimSpace_def)

theorem env_file_roundtrip_witness:
  "LoadEnvFile Map.empty (Some (env_text [(''PORT'', ''80''), (''PORT'', ''8081'')])) ''PORT'' = Some ''8081''"
  using env_file_roundtrip [of "[(''PORT'', ''80''), (''PORT'', ''8081'')]" Map.empty]
  by (simp add: assignment_ok_def trimmed_def printable_def plain_def)


text \<open>No client is built for an unchecked address: whatever the reference and the configuration say, a resolved
  model has an API key and a base URL that the validator accepts.\<close>

theorem resolved_model_validated:
  assumes "Resolve parse_text e ref cfg = Inr ((oa, vendor, health), model)"
  shows "oa_apiKey oa = oc_APIKey (cf_OpenAI cfg) \<and> oa_apiKey oa \<noteq> [] \<and> oa_model oa = model
    \<and> (\<exists>base. base \<noteq> [] \<and> ValidateBaseURL (Getenv e ''ALLOW_PRIVATE_URLS'' = ''true'') base = None
        \<and> oa_baseURL oa = TrimRight base ''/'' @ ''/chat/completions'')"
proof -
  let ?base = "if mf_BaseURL ref = [] then oc_BaseURL (cf_OpenAI cfg) else mf_BaseURL ref"
  let ?allow = "Getenv e ''ALLOW_PRIVATE_URLS'' = ''true''"
  have v: "oc_APIKey (cf_OpenAI cfg) \<noteq> []" "?base \<noteq> []" "ValidateBaseURL ?allow ?base = None"
    using assms unfolding Resolve_def Let_def by (auto split: if_split_asm option.split_asm)
  then obtain c where c: "openai_factory parse_text ?allow c = Inr (oa, vendor, health)"
      "c_APIKey c = oc_APIKey (cf_OpenAI cfg)" "c_BaseURL c = ?base" "c_Model c = model"
    using assms unfolding Resolve_def Let_def New_protocol_def Register_kind_def by (auto split: sum.split_asm)
  with openai_factory_ok [OF c(1)] v show ?thesis by (intro conjI exI [of _ ?base]) simp_all
qed

definition sample_config :: AppConfig where
  "sample_config = snd (Load_config (\<lambda>_. None) (Map.empty(''OPENAI_API_KEY'' \<mapsto> ''k'', ''OPENAI_BASE_URL'' \<mapsto> ''https://api.deepseek.com'')) None)"

theorem resolved_model_validated_witness:
  "\<exists>oa v h model. NewBridgeFromConfig (\<lambda>_. ''bad'') Map.empty sample_config = Inr ((oa, v, h), model) \<and> oa_apiKey oa = ''k''"
proof -
  have "case NewBridgeFromConfig (\<lambda>_. ''bad'') Map.empty sample_config of Inr _ \<Rightarrow> True | Inl _ \<Rightarrow> False" by code_simp
  then obtain oa v h model where r: "NewBridgeFromConfig (\<lambda>_. ''bad'') Map.empty sample_config = Inr ((oa, v, h), model)"
    by (auto split: sum.splits)
  have "oc_APIKey (cf_OpenAI sample_config) = ''k''" by code_simp
  with resolved_model_validated [OF r [unfolded NewBridgeFromConfig_def]] r show ?thesis by auto
qed

text \<open>An override in capitals is on in the configuration and off for the validator.\<close>

theorem private_override_case:
  assumes "Getenv (LoadEnvFile e file) ''ALLOW_PRIVATE_URLS'' = ''TRUE''"
  shows "cf_AllowPrivateURLs (snd (Load_config ParseDuration e file))
    \<and> Getenv (fst (Load_config ParseDuration e file)) ''ALLOW_PRIVATE_URLS'' \<noteq> ''true''"
proof -
  have "ToLower ''TRUE'' = ''true''" by code_simp
  with assms show ?thesis by (simp add: Load_config_def Let_def GetEnv_def)
qed

end
