(* ===== verification/Usage.thy ===== *)
theory Usage
  imports UrlValidator Types Text
begin

section \<open>Usage tracking (protocol/usage_tracker.go, protocol/raw_query.go, protocol/mcp_server.go)\<close>

text \<open>
  The tracker keeps one table in SQLite: the list of its rows in the order of insertion. The statements of the
  program are written out on that list. What the database engine adds is an argument: its failures, \<open>AVG\<close> on
  floating-point columns (durations are 64-bit patterns), \<open>DATE\<close>, and the order in which it returns groups
  with equal counts. Text columns are compared bytewise. A usage server answers queries over a web socket.
\<close>

subsection \<open>The table\<close>

record UsageRecord =
  ur_ID :: int
  ur_SessionID :: string
  ur_Model :: string
  ur_Vendor :: string
  ur_Duration :: "64 word"
  ur_PromptTokens :: int
  ur_CompletionTokens :: int
  ur_TotalTokens :: int
  ur_CreatedAt :: string

text \<open>\<open>ut_last\<close> is the sequence counter of the AUTOINCREMENT column; \<open>ut_stmt\<close> and \<open>ut_db\<close> say whether the
  prepared statement and the database are open.\<close>

record UsageTracker =
  ut_rows :: "UsageRecord list"
  ut_last :: int
  ut_stmt :: bool
  ut_db :: bool

text \<open>The outcome of each step of \<open>NewUsageTracker\<close>; the table of an existing database file is kept.\<close>

record open_env =
  oe_mkdir :: "gerror option"
  oe_open :: "gerror option"
  oe_wal :: "gerror option"
  oe_table :: "gerror option"
  oe_index :: "gerror option"
  oe_prepare :: "gerror option"

fun first_failure :: "(string \<times> gerror option) list \<Rightarrow> gerror option" where
  "first_failure [] = None"
| "first_failure ((what, err) # rest) = (case err of Some e \<Rightarrow> Some (ErrWrap what e) | None \<Rightarrow> first_failure rest)"

definition NewUsageTracker :: "open_env \<Rightarrow> UsageRecord list \<Rightarrow> int \<Rightarrow> gerror + UsageTracker" where
  "NewUsageTracker oe rows seq =
     (case first_failure [(''create db dir'', oe_mkdir oe), (''open db'', oe_open oe), (''enable WAL'', oe_wal oe),
          (''create table'', oe_table oe), (''create index'', oe_index oe), (''prepare insert'', oe_prepare oe)] of
        Some e \<Rightarrow> Inl e
      | None \<Rightarrow> Inr \<lparr>ut_rows = rows, ut_last = seq, ut_stmt = True, ut_db = True\<rparr>)"

text \<open>\<open>dberr\<close> is the failure of the insertion, if any; \<open>now\<close> is the formatted time.\<close>

definition tracker_Record ::
  "UsageTracker \<Rightarrow> gerror option \<Rightarrow> string \<Rightarrow> string \<Rightarrow> string \<Rightarrow> string \<Rightarrow> 64 word \<Rightarrow> int \<Rightarrow> int \<Rightarrow> UsageTracker \<times> gerror option" where
  "tracker_Record ut dberr now sessionID model vendor durSec promptTks completionTks =
     (if \<not> ut_stmt ut then (ut, Some (ErrMsg ''usage tracker closed''))
      else case dberr of
        Some e \<Rightarrow> (ut, Some e)
      | None \<Rightarrow> (ut\<lparr>ut_last := ut_last ut + 1,
          ut_rows := ut_rows ut @ [\<lparr>ur_ID = ut_last ut + 1, ur_SessionID = sessionID, ur_Model = model, ur_Vendor = vendor,
            ur_Duration = durSec, ur_PromptTokens = promptTks, ur_CompletionTokens = completionTks,
            ur_TotalTokens = wrap64 (promptTks + completionTks), ur_CreatedAt = now\<rparr>]\<rparr>, None))"

definition tracker_Close :: "UsageTracker \<Rightarrow> UsageTracker" where
  "tracker_Close ut = ut\<lparr>ut_stmt := False, ut_db := False\<rparr>"

subsection \<open>Queries\<close>

record UsageQuery =
  uq_SessionID :: string
  uq_Model :: string
  uq_Vendor :: string
  uq_Since :: string
  uq_Until :: string
  uq_Limit :: int
  uq_Offset :: int

abbreviation text_le :: "string \<Rightarrow> string \<Rightarrow> bool" where
  "text_le \<equiv> lexordp_eq"

definition usage_where :: "UsageQuery \<Rightarrow> UsageRecord \<Rightarrow> bool" where
  "usage_where f r \<longleftrightarrow>
     (uq_SessionID f \<noteq> [] \<longrightarrow> ur_SessionID r = uq_SessionID f) \<and> (uq_Model f \<noteq> [] \<longrightarrow> ur_Model r = uq_Model f)
   \<and> (uq_Vendor f \<noteq> [] \<longrightarrow> ur_Vendor r = uq_Vendor f) \<and> (uq_Since f \<noteq> [] \<longrightarrow> text_le (uq_Since f) (ur_CreatedAt r))
   \<and> (uq_Until f \<noteq> [] \<longrightarrow> text_le (ur_CreatedAt r) (uq_Until f))"

definition query_limit :: "int \<Rightarrow> nat" where
  "query_limit l = (let l1 = (if l \<le> 0 then 100 else l) in nat (if l1 > 1000 then 1000 else l1))"

definition db_closed :: gerror where "db_closed = ErrMsg ''sql: database is closed''"

text \<open>A statement on the table: it fails if the database is closed or with the engine's own error.\<close>

definition on_rows :: "UsageTracker \<Rightarrow> gerror option \<Rightarrow> (UsageRecord list \<Rightarrow> 'a) \<Rightarrow> gerror + 'a" where
  "on_rows ut dberr f = (if \<not> ut_db ut then Inl db_closed else case dberr of Some e \<Rightarrow> Inl e | None \<Rightarrow> Inr (f (ut_rows ut)))"

definition usage_Query :: "UsageTracker \<Rightarrow> gerror option \<Rightarrow> UsageQuery \<Rightarrow> gerror + UsageRecord list" where
  "usage_Query ut dberr f = on_rows ut dberr (\<lambda>rows.
     take (query_limit (uq_Limit f)) (drop (nat (if uq_Offset f < 0 then 0 else uq_Offset f)) (rev (filter (usage_where f) rows))))"

text \<open>The aggregate columns that all statistics share. Sums beyond 64 bits are an error of the engine and part
  of \<open>dberr\<close>.\<close>

record usage_sums =
  us_Calls :: int
  us_AvgDuration :: "64 word"
  us_TotalTokens :: int
  us_TotalPrompt :: int
  us_TotalCompletion :: int

definition aggregate :: "(64 word list \<Rightarrow> 64 word) \<Rightarrow> UsageRecord list \<Rightarrow> usage_sums" where
  "aggregate avg rows = \<lparr>us_Calls = int (length rows), us_AvgDuration = (if rows = [] then 0 else avg (map ur_Duration rows)),
     us_TotalTokens = sum_list (map ur_TotalTokens rows), us_TotalPrompt = sum_list (map ur_PromptTokens rows),
     us_TotalCompletion = sum_list (map ur_CompletionTokens rows)\<rparr>"

definition GetStats :: "UsageTracker \<Rightarrow> gerror option \<Rightarrow> (64 word list \<Rightarrow> 64 word) \<Rightarrow> gerror + usage_sums" where
  "GetStats ut dberr avg = on_rows ut dberr (aggregate avg)"

definition group_by :: "(UsageRecord \<Rightarrow> string) \<Rightarrow> UsageRecord list \<Rightarrow> (string \<times> UsageRecord list) list" where
  "group_by key rows = map (\<lambda>k. (k, filter (\<lambda>r. key r = k) rows)) (remdups (map key rows))"

text \<open>\<open>GROUP BY key ORDER BY COUNT(*) DESC\<close>, for models and vendors; \<open>order\<close> is the engine's sort.\<close>

definition grouped_stats ::
  "(UsageRecord \<Rightarrow> string) \<Rightarrow> ((string \<times> usage_sums) list \<Rightarrow> (string \<times> usage_sums) list) \<Rightarrow> (64 word list \<Rightarrow> 64 word) \<Rightarrow>
   UsageRecord list \<Rightarrow> (string \<times> usage_sums) list" where
  "grouped_stats key order avg rows = order (map (\<lambda>(k, g). (k, aggregate avg g)) (group_by key rows))"

definition GetModelStats where
  "GetModelStats ut dberr order avg = on_rows ut dberr (grouped_stats ur_Model order avg)"

definition GetVendorStats where
  "GetVendorStats ut dberr order avg = on_rows ut dberr (grouped_stats ur_Vendor order avg)"

definition day_where :: "string \<Rightarrow> string \<Rightarrow> UsageRecord \<Rightarrow> bool" where
  "day_where since until r \<longleftrightarrow> (since \<noteq> [] \<longrightarrow> text_le since (ur_CreatedAt r)) \<and> (until \<noteq> [] \<longrightarrow> text_le (ur_CreatedAt r) until)"

text \<open>Days are distinct, so their descending order is determined; the last component counts the models.\<close>

fun insert_desc :: "string \<times> 'a \<Rightarrow> (string \<times> 'a) list \<Rightarrow> (string \<times> 'a) list" where
  "insert_desc x [] = [x]"
| "insert_desc x (y # ys) = (if text_le (fst y) (fst x) then x # y # ys else y # insert_desc x ys)"

definition GetDailyStats ::
  "UsageTracker \<Rightarrow> gerror option \<Rightarrow> (string \<Rightarrow> string) \<Rightarrow> (64 word list \<Rightarrow> 64 word) \<Rightarrow> string \<Rightarrow> string \<Rightarrow>
   gerror + (string \<times> usage_sums \<times> int) list" where
  "GetDailyStats ut dberr DATE avg since until = on_rows ut dberr (\<lambda>rows.
     foldr insert_desc (map (\<lambda>(d, g). (d, aggregate avg g, int (length (remdups (map ur_Model g)))))
       (group_by (\<lambda>r. DATE (ur_CreatedAt r)) (filter (day_where since until) rows))) [])"

subsection \<open>The usage server (protocol/mcp_server.go)\<close>

record MCPRequest =
  mq_ID :: string
  mq_Method :: string
  mq_Params :: "string option"

datatype mcp_result =
    RStats usage_sums
  | RDaily "(string \<times> usage_sums \<times> int) list"
  | RGroups "(string \<times> usage_sums) list"
  | RRecords "UsageRecord list"

datatype mcp_body = MResult mcp_result | MError int string

text \<open>What the handlers need besides the tracker: the engine's arguments and the decoders of parameters.\<close>

record mcp_env =
  me_tracker :: "UsageTracker option"
  me_dberr :: "gerror option"
  me_avg :: "64 word list \<Rightarrow> 64 word"
  me_order :: "(string \<times> usage_sums) list \<Rightarrow> (string \<times> usage_sums) list"
  me_DATE :: "string \<Rightarrow> string"
  me_daily_params :: "string \<Rightarrow> (string \<times> string) option"
  me_query_params :: "string \<Rightarrow> UsageQuery option"

definition mcp_reply :: "('a \<Rightarrow> mcp_result) \<Rightarrow> gerror + 'a \<Rightarrow> mcp_body" where
  "mcp_reply f r = (case r of Inl e \<Rightarrow> MError (-32000) (error_string e) | Inr x \<Rightarrow> MResult (f x))"

definition with_tracker :: "mcp_env \<Rightarrow> (UsageTracker \<Rightarrow> mcp_body) \<Rightarrow> mcp_body" where
  "with_tracker env f = (case me_tracker env of None \<Rightarrow> MError (-32000) ''tracker not available'' | Some ut \<Rightarrow> f ut)"

definition handleGetStats :: "mcp_env \<Rightarrow> mcp_body" where
  "handleGetStats env = with_tracker env (\<lambda>ut. mcp_reply RStats (GetStats ut (me_dberr env) (me_avg env)))"

definition handleGetDaily :: "mcp_env \<Rightarrow> string option \<Rightarrow> mcp_body" where
  "handleGetDaily env params = with_tracker env (\<lambda>ut.
     (case (case params of None \<Rightarrow> Some ([], []) | Some p \<Rightarrow> me_daily_params env p) of
        None \<Rightarrow> MError (-32602) ''invalid params''
      | Some (since, until) \<Rightarrow> mcp_reply RDaily (GetDailyStats ut (me_dberr env) (me_DATE env) (me_avg env) since until)))"

definition handleGetModels :: "mcp_env \<Rightarrow> mcp_body" where
  "handleGetModels env = with_tracker env (\<lambda>ut. mcp_reply RGroups (GetModelStats ut (me_dberr env) (me_order env) (me_avg env)))"

definition handleGetVendors :: "mcp_env \<Rightarrow> mcp_body" where
  "handleGetVendors env = with_tracker env (\<lambda>ut. mcp_reply RGroups (GetVendorStats ut (me_dberr env) (me_order env) (me_avg env)))"

definition zero_query :: UsageQuery where
  "zero_query = \<lparr>uq_SessionID = [], uq_Model = [], uq_Vendor = [], uq_Since = [], uq_Until = [], uq_Limit = 0, uq_Offset = 0\<rparr>"

definition handleQueryRecords :: "mcp_env \<Rightarrow> string option \<Rightarrow> mcp_body" where
  "handleQueryRecords env params = with_tracker env (\<lambda>ut.
     (case (case params of None \<Rightarrow> Some zero_query | Some p \<Rightarrow> me_query_params env p) of
        None \<Rightarrow> MError (-32602) ''invalid params''
      | Some q \<Rightarrow> mcp_reply RRecords (usage_Query ut (me_dberr env) q)))"

definition mcp_handle :: "mcp_env \<Rightarrow> MCPRequest \<Rightarrow> mcp_body" where
  "mcp_handle env req =
     (if mq_Method req = ''get_stats'' then handleGetStats env
      else if mq_Method req = ''get_daily'' then handleGetDaily env (mq_Params req)
      else if mq_Method req = ''get_models'' then handleGetModels env
      else if mq_Method req = ''get_vendors'' then handleGetVendors env
      else if mq_Method req = ''query_records'' then handleQueryRecords env (mq_Params req)
      else MError (-32601) (''unknown method: '' @ mq_Method req))"

text \<open>\<open>net.SplitHostPort\<close>: the host, or \<open>None\<close> for an error.\<close>

definition split_host :: "string \<Rightarrow> string option" where
  "split_host hp =
     (case last_index (\<lambda>c. c = CHR '':'') hp of
        None \<Rightarrow> None
      | Some i \<Rightarrow>
          if HasPrefix hp ''['' then
            (case Index hp '']'' of
               None \<Rightarrow> None
             | Some k \<Rightarrow>
                 if Suc k = i \<and> CHR ''['' \<notin> set (drop 1 hp) \<and> CHR '']'' \<notin> set (drop (Suc k) hp)
                 then Some (take (k - 1) (drop 1 hp)) else None)
          else if CHR '':'' \<in> set (take i hp) \<or> CHR ''['' \<in> set hp \<or> CHR '']'' \<in> set hp then None
          else Some (take i hp))"

definition isLoopbackHost :: "string \<Rightarrow> bool" where
  "isLoopbackHost host0 =
     (let host = Trim host0 ''[]'' in
      if host = ''localhost'' then True else case ParseIP host of Some ip \<Rightarrow> ip_IsLoopback ip | None \<Rightarrow> False)"

definition isLocalRequest :: "string \<Rightarrow> bool" where
  "isLocalRequest remoteAddr = isLoopbackHost (case split_host remoteAddr of Some h \<Rightarrow> h | None \<Rightarrow> remoteAddr)"

definition allowLocalOrigin :: "string \<Rightarrow> bool" where
  "allowLocalOrigin origin0 =
     (let origin = TrimSpace origin0 in
      if origin = [] then True
      else case url_parse origin of None \<Rightarrow> False | Some u \<Rightarrow> isLoopbackHost (url_Hostname u))"

datatype mcp_out = HttpForbidden | UpgradeFailed | Reply string mcp_body

text \<open>The loop over the messages of a connection: each is decoded (\<open>None\<close>: not a request) and answered. The
  writes after number \<open>okWrites\<close> fail; a failed answer ends the loop, a failed error message does not.\<close>

fun mcp_loop :: "mcp_env \<Rightarrow> nat option \<Rightarrow> MCPRequest option list \<Rightarrow> mcp_out list" where
  "mcp_loop env okWrites [] = []"
| "mcp_loop env okWrites (msg # msgs) =
     (let failed = (okWrites = Some 0); rest = map_option (\<lambda>n. n - 1) okWrites in
      case msg of
        None \<Rightarrow> (if failed then mcp_loop env okWrites msgs else Reply [] (MError (-32700) ''parse error'') # mcp_loop env rest msgs)
      | Some req \<Rightarrow> (if failed then [] else Reply (mq_ID req) (mcp_handle env req) # mcp_loop env rest msgs))"

text \<open>The upgrade checks the origin and may fail for other reasons; the server is created local-only.\<close>

definition mcp_ServeHTTP :: "mcp_env \<Rightarrow> bool \<Rightarrow> string \<Rightarrow> string \<Rightarrow> nat option \<Rightarrow> MCPRequest option list \<Rightarrow> mcp_out list" where
  "mcp_ServeHTTP env upgradeOK remoteAddr origin okWrites msgs =
     (if \<not> isLocalRequest remoteAddr then [HttpForbidden]
      else if \<not> (allowLocalOrigin origin \<and> upgradeOK) then [UpgradeFailed]
      else mcp_loop env okWrites msgs)"


subsection \<open>Invariant\<close>

definition row_ok :: "UsageRecord \<Rightarrow> bool" where
  "row_ok r \<longleftrightarrow> ur_TotalTokens r = wrap64 (ur_PromptTokens r + ur_CompletionTokens r)"

definition table_ok :: "UsageRecord list \<Rightarrow> int \<Rightarrow> bool" where
  "table_ok rows seq \<longleftrightarrow> sorted_wrt (<) (map ur_ID rows) \<and> list_all (\<lambda>r. ur_ID r \<le> seq \<and> row_ok r) rows"

inductive tracker_reach :: "UsageTracker \<Rightarrow> bool" where
  opened: "NewUsageTracker oe rows seq = Inr ut \<Longrightarrow> table_ok rows seq \<Longrightarrow> tracker_reach ut"
| recorded: "tracker_reach ut \<Longrightarrow> tracker_Record ut dberr now sid model vendor dur p c = (ut1, err) \<Longrightarrow> tracker_reach ut1"
| closed: "tracker_reach ut \<Longrightarrow> tracker_reach (tracker_Close ut)"

lemma table_ok_insert:
  "table_ok rows seq \<Longrightarrow> ur_ID r = seq + 1 \<Longrightarrow> row_ok r \<Longrightarrow> table_ok (rows @ [r]) (seq + 1)"
  by (fastforce simp: table_ok_def sorted_wrt_append list_all_iff)

lemma tracker_reach_ok: "tracker_reach ut \<Longrightarrow> table_ok (ut_rows ut) (ut_last ut)"
proof (induction rule: tracker_reach.induct)
  case (opened oe rows seq ut)
  then show ?case by (auto simp: NewUsageTracker_def split: option.splits)
next
  case (recorded ut dberr now sid model vendor dur p c ut1 err)
  then show ?case
    by (auto simp: tracker_Record_def row_ok_def split: if_splits option.splits intro!: table_ok_insert)
qed (simp add: tracker_Close_def)

lemma sorted_take_drop: "sorted_wrt P xs \<Longrightarrow> sorted_wrt P (take n (drop m xs))"
  by (simp add: sorted_wrt_drop sorted_wrt_take)

lemma newest_first:
  assumes "sorted_wrt (<) (map ur_ID rows)"
  shows "sorted_wrt (\<lambda>a b. ur_ID a > ur_ID b) (rev (filter P rows))"
  using assms by (simp add: sorted_wrt_rev sorted_wrt_map sorted_wrt_filter)

lemma query_limit_bound: "query_limit l \<le> 1000" "0 < query_limit l"
  by (auto simp: query_limit_def Let_def)

lemma sum_groups:
  fixes w :: "UsageRecord \<Rightarrow> int"
  shows "sum_list (map (\<lambda>(k, g). sum_list (map w g)) (group_by key rows)) = sum_list (map w rows)"
proof -
  have one: "sum_list (map w (filter (\<lambda>r. key r = k) rows)) = (\<Sum>r\<leftarrow>rows. if key r = k then w r else 0)" for k
    by (induction rows) auto
  have "sum_list (map (\<lambda>(k, g). sum_list (map w g)) (group_by key rows))
      = (\<Sum>k\<leftarrow>remdups (map key rows). \<Sum>r\<leftarrow>rows. if key r = k then w r else 0)"
    by (simp add: group_by_def comp_def one)
  also have "\<dots> = (\<Sum>k \<in> key ` set rows. \<Sum>r\<leftarrow>rows. if key r = k then w r else 0)"
    by (simp add: sum_list_distinct_conv_sum_set)
  also have "\<dots> = (\<Sum>r\<leftarrow>rows. w r)"
  proof -
    have "finite K \<Longrightarrow> key ` set rs \<subseteq> K \<Longrightarrow> (\<Sum>k \<in> K. \<Sum>r\<leftarrow>rs. if key r = k then w r else 0) = (\<Sum>r\<leftarrow>rs. w r)" for rs K
      by (induction rs) (auto simp: sum.distrib)
    then show ?thesis by simp
  qed
  finally show ?thesis by simp
qed

lemma sum_mset_eq: "mset (order gs) = mset gs \<Longrightarrow> sum_list (map (f :: 'a \<Rightarrow> int) (order gs)) = sum_list (map f gs)"
  by (metis mset_map sum_mset_sum_list)

subsection \<open>Properties\<close>

text \<open>A query returns matching records only, newest first, at most a thousand of them, and, asked from the
  start with a limit that is not exceeded, all matching records.\<close>

theorem usage_query_spec:
  assumes "tracker_reach ut" and "usage_Query ut dberr f = Inr rs"
  shows "sorted_wrt (\<lambda>a b. ur_ID a > ur_ID b) rs \<and> length rs \<le> 1000 \<and> set rs \<subseteq> {r \<in> set (ut_rows ut). usage_where f r}
    \<and> (uq_Offset f \<le> 0 \<longrightarrow> length (filter (usage_where f) (ut_rows ut)) \<le> query_limit (uq_Limit f)
        \<longrightarrow> set rs = {r \<in> set (ut_rows ut). usage_where f r})"
proof -
  have rs: "rs = take (query_limit (uq_Limit f)) (drop (nat (if uq_Offset f < 0 then 0 else uq_Offset f)) (rev (filter (usage_where f) (ut_rows ut))))"
    using assms(2) by (auto simp: usage_Query_def on_rows_def split: if_splits option.splits)
  have "sorted_wrt (<) (map ur_ID (ut_rows ut))" using tracker_reach_ok [OF assms(1)] by (simp add: table_ok_def)
  then have "sorted_wrt (\<lambda>a b. ur_ID a > ur_ID b) rs" unfolding rs by (intro sorted_take_drop newest_first)
  moreover have "length rs \<le> 1000" unfolding rs using query_limit_bound(1) [of "uq_Limit f"] by simp
  moreover have "set rs \<subseteq> {r \<in> set (ut_rows ut). usage_where f r}"
    unfolding rs by (auto dest!: in_set_takeD in_set_dropD)
  ultimately show ?thesis unfolding rs by auto
qed

definition fresh_tracker :: UsageTracker where
  "fresh_tracker = \<lparr>ut_rows = [], ut_last = 0, ut_stmt = True, ut_db = True\<rparr>"

lemma fresh_reach: "tracker_reach fresh_tracker"
  by (rule opened [of "\<lparr>oe_mkdir = None, oe_open = None, oe_wal = None, oe_table = None, oe_index = None, oe_prepare = None\<rparr>" "[]" 0])
     (simp_all add: NewUsageTracker_def fresh_tracker_def table_ok_def)

theorem usage_query_spec_witness:
  "\<exists>rs. usage_Query (fst (tracker_Record fresh_tracker None ''2026-01-01'' ''s'' ''m'' ''v'' 0 3 4)) None zero_query = Inr rs \<and> length rs \<le> 1000"
proof -
  obtain ut e where r: "tracker_Record fresh_tracker None ''2026-01-01'' ''s'' ''m'' ''v'' 0 3 4 = (ut, e)" by fastforce
  then have "ut_db ut" by (auto simp: tracker_Record_def fresh_tracker_def)
  then obtain rs where q: "usage_Query ut None zero_query = Inr rs" by (simp add: usage_Query_def on_rows_def)
  from usage_query_spec [OF recorded [OF fresh_reach r] q] q r show ?thesis by simp
qed

text \<open>The statistics agree with each other: the calls and tokens of the groups, by model or by vendor and in
  whatever order the engine returns them, add up to the totals over all records.\<close>

theorem usage_stats_add_up:
  assumes "\<And>gs. mset (order gs) = mset gs" and "GetStats ut None avg = Inr total_sums"
    and "GetModelStats ut None order avg = Inr models" and "GetVendorStats ut None order avg = Inr vendors"
  shows "list_all (\<lambda>groups. sum_list (map (\<lambda>(_, s). us_Calls s) groups) = us_Calls total_sums
      \<and> sum_list (map (\<lambda>(_, s). us_TotalTokens s) groups) = us_TotalTokens total_sums) [models, vendors]"
proof -
  let ?rows = "ut_rows ut"
  have t: "total_sums = aggregate avg ?rows" "models = grouped_stats ur_Model order avg ?rows" "vendors = grouped_stats ur_Vendor order avg ?rows"
    using assms(2-4) by (auto simp: GetStats_def GetModelStats_def GetVendorStats_def on_rows_def split: if_splits)
  have g: "sum_list (map (\<lambda>(_, s). (f s :: int)) (grouped_stats key order avg ?rows)) =
      sum_list (map (\<lambda>(k, g). f (aggregate avg g)) (group_by key ?rows))" for f key
    unfolding grouped_stats_def sum_mset_eq [where order = order, OF assms(1)] by (simp add: comp_def split_def)
  have c: "sum_list (map (\<lambda>(_, s). us_Calls s) (grouped_stats key order avg ?rows)) = us_Calls (aggregate avg ?rows)" for key
    using sum_groups [of "\<lambda>_. 1" key ?rows] unfolding g by (simp add: aggregate_def sum_list_triv)
  have s: "sum_list (map (\<lambda>(_, s). us_TotalTokens s) (grouped_stats key order avg ?rows)) = us_TotalTokens (aggregate avg ?rows)" for key
    using sum_groups [of ur_TotalTokens key ?rows] unfolding g by (simp add: aggregate_def)
  show ?thesis unfolding t by (simp add: c s)
qed

theorem usage_stats_add_up_witness:
  "\<exists>t ms. GetStats fresh_tracker None (\<lambda>_. 0) = Inr t \<and> GetModelStats fresh_tracker None rev (\<lambda>_. 0) = Inr ms
     \<and> sum_list (map (\<lambda>(_, s). us_Calls s) ms) = us_Calls t"
proof -
  obtain t ms vs where r: "GetStats fresh_tracker None (\<lambda>_. 0) = Inr t" "GetModelStats fresh_tracker None rev (\<lambda>_. 0) = Inr ms"
    "GetVendorStats fresh_tracker None rev (\<lambda>_. 0) = Inr vs"
    by (simp add: GetStats_def GetModelStats_def GetVendorStats_def on_rows_def fresh_tracker_def)
  have "mset (rev gs) = mset gs" for gs :: "(string \<times> usage_sums) list" by simp
  from usage_stats_add_up [of rev, OF this r] r show ?thesis by simp
qed


end
