(* ===== verification/Logs.thy ===== *)
theory Logs
  imports FileOps Configuration
begin

section \<open>Logs (tools/log, tools/sessionlog, protocol/raw_log.go)\<close>

text \<open>
  Three components append lines to files: the leveled logger, the logs of sessions, which are Markdown tables,
  and the raw log of requests and responses, which is a processor of the chunk bus. Files are a map from
  paths to contents. Formatted times, failures of the file system and \<open>fmt.Sprintf\<close> on a format without
  arguments are arguments.
\<close>

definition append_file :: "files \<Rightarrow> string \<Rightarrow> string \<Rightarrow> files" where
  "append_file fs p s = fs(p \<mapsto> (case fs p of None \<Rightarrow> [] | Some c \<Rightarrow> c) @ s)"

subsection \<open>The leveled logger (tools/log/log.go)\<close>

datatype Level = DEBUG | INFO | WARN | ERROR | FATAL

definition level_number :: "Level \<Rightarrow> nat" where
  "level_number l = (case l of DEBUG \<Rightarrow> 0 | INFO \<Rightarrow> 1 | WARN \<Rightarrow> 2 | ERROR \<Rightarrow> 3 | FATAL \<Rightarrow> 4)"

lemma level_number_inj: "level_number a = level_number b \<longleftrightarrow> a = b"
  by (cases a; cases b) (simp_all add: level_number_def)

instantiation Level :: linorder
begin

definition less_eq_Level_def: "a \<le> b \<longleftrightarrow> level_number a \<le> level_number b"

definition less_Level_def: "a < b \<longleftrightarrow> level_number a < level_number b"

instance
  by standard (auto simp: less_eq_Level_def less_Level_def level_number_inj)

end

definition levelName :: "Level \<Rightarrow> string" where
  "levelName l = (case l of DEBUG \<Rightarrow> ''DEBUG'' | INFO \<Rightarrow> ''INFO'' | WARN \<Rightarrow> ''WARN'' | ERROR \<Rightarrow> ''ERROR'' | FATAL \<Rightarrow> ''FATAL'')"

text \<open>A writer that changes its file with the date; \<open>None\<close>: no file was ever opened. A date whose file cannot
  be opened leaves the closed file in place, and writes to it fail.\<close>

record fileWriter =
  fw_dir :: string
  fw_file :: "string option"
  fw_open :: bool
  fw_date :: string

definition fw_rotate :: "(string \<Rightarrow> bool) \<Rightarrow> fileWriter \<Rightarrow> string \<Rightarrow> fileWriter" where
  "fw_rotate can_open w date =
     (let path = path_Join (fw_dir w) (date @ ''.log'') in
      if can_open path then w\<lparr>fw_file := Some path, fw_open := True, fw_date := date\<rparr> else w\<lparr>fw_open := False\<rparr>)"

datatype log_writer = Stdout | File fileWriter

record Logger_state =
  ll_level :: Level
  ll_writers :: "log_writer list"
  ll_stdout :: string
  ll_files :: files
  ll_exited :: bool

definition fileWriter_Write :: "(string \<Rightarrow> bool) \<Rightarrow> string \<Rightarrow> fileWriter \<Rightarrow> files \<Rightarrow> string \<Rightarrow> fileWriter \<times> files" where
  "fileWriter_Write can_open today w fs s =
     (let w1 = (if today \<noteq> fw_date w then fw_rotate can_open w today else w) in
      (w1, case fw_file w1 of Some p \<Rightarrow> if fw_open w1 then append_file fs p s else fs | None \<Rightarrow> fs))"

definition level_of_env :: "(nat \<Rightarrow> nat) \<Rightarrow> string \<Rightarrow> Level" where
  "level_of_env low v =
     (let l = ToLower_utf8 low v in
      if l = ''debug'' then DEBUG else if l = ''info'' then INFO else if l = ''warn'' then WARN else if l = ''error'' then ERROR else INFO)"

definition AddWriter :: "Logger_state \<Rightarrow> log_writer \<Rightarrow> Logger_state" where
  "AddWriter l w = l\<lparr>ll_writers := ll_writers l @ [w]\<rparr>"

definition log_init :: "(nat \<Rightarrow> nat) \<Rightarrow> (string \<Rightarrow> bool) \<Rightarrow> string \<Rightarrow> string \<Rightarrow> string \<Rightarrow> files \<Rightarrow> Logger_state" where
  "log_init low can_open envLevel envDir today fs =
     (let l = \<lparr>ll_level = level_of_env low envLevel, ll_writers = [Stdout], ll_stdout = [], ll_files = fs, ll_exited = False\<rparr> in
      if envDir \<noteq> []
      then AddWriter l (File (fw_rotate can_open \<lparr>fw_dir = envDir, fw_file = None, fw_open = False, fw_date = []\<rparr> today))
      else l)"

definition SetLevel :: "Logger_state \<Rightarrow> Level \<Rightarrow> Logger_state" where
  "SetLevel l lvl = l\<lparr>ll_level := lvl\<rparr>"

text \<open>The writers in order; a line goes to each of them. \<open>caller\<close> is the file and line of the call, if known.\<close>

fun write_all :: "(string \<Rightarrow> bool) \<Rightarrow> string \<Rightarrow> string \<Rightarrow> log_writer list \<Rightarrow> string \<Rightarrow> files \<Rightarrow> log_writer list \<times> string \<times> files" where
  "write_all can_open today line [] out fs = ([], out, fs)"
| "write_all can_open today line (Stdout # ws) out fs =
     (case write_all can_open today line ws (out @ line) fs of (ws1, o1, f1) \<Rightarrow> (Stdout # ws1, o1, f1))"
| "write_all can_open today line (File w # ws) out fs =
     (case fileWriter_Write can_open today w fs line of (w1, fs1) \<Rightarrow>
       (case write_all can_open today line ws out fs1 of (ws1, o1, f1) \<Rightarrow> (File w1 # ws1, o1, f1)))"

definition log_line :: "string \<Rightarrow> (string \<times> nat) option \<Rightarrow> Level \<Rightarrow> string \<Rightarrow> string" where
  "log_line timestamp caller lvl msg = timestamp @ '' ['' @ levelName lvl @ ''] ''
     @ (case caller of Some (short, n) \<Rightarrow> if short \<noteq> [] then short @ '':'' @ show_nat n @ '' '' else [] | None \<Rightarrow> []) @ msg @ [nl]"

definition log_output ::
  "(string \<Rightarrow> bool) \<Rightarrow> string \<Rightarrow> string \<Rightarrow> (string \<times> nat) option \<Rightarrow> Logger_state \<Rightarrow> Level \<Rightarrow> string \<Rightarrow> Logger_state" where
  "log_output can_open today timestamp caller l lvl msg =
     (if lvl < ll_level l then l
      else case write_all can_open today (log_line timestamp caller lvl msg) (ll_writers l) (ll_stdout l) (ll_files l) of (ws, out, fs) \<Rightarrow>
        l\<lparr>ll_writers := ws, ll_stdout := out, ll_files := fs, ll_exited := (ll_exited l \<or> lvl = FATAL)\<rparr>)"

subsection \<open>Session logs (tools/sessionlog/sessionlog.go)\<close>

datatype EntryType = EntryUser | EntryAssistant | EntryToolCall | EntryToolResult | EntrySystem

record SessionLogger =
  sl_sessionID :: string
  sl_file :: "string option"
  sl_seq :: nat

definition safe_char :: "char \<Rightarrow> bool" where
  "safe_char c \<longleftrightarrow> (CHR ''a'' \<le> c \<and> c \<le> CHR ''z'') \<or> (CHR ''A'' \<le> c \<and> c \<le> CHR ''Z'') \<or> is_digit c \<or> c = CHR ''-'' \<or> c = CHR ''_''"

definition sanitize :: "string \<Rightarrow> string" where
  "sanitize s = map (\<lambda>c. if safe_char c then c else CHR ''_'') s"

definition session_dir :: "string \<Rightarrow> string \<Rightarrow> string" where
  "session_dir logDir sessionID = path_Join logDir (if sanitize sessionID = [] then ''sessions'' else ''sessions/'' @ sanitize sessionID)"

text \<open>Formatted times of a call: the start of a file's name, a time stamp, the time of day, and the stamp in
  the name of a detail file.\<close>

record log_clock =
  lc_name :: string
  lc_rfc :: string
  lc_time :: string
  lc_detail :: string

definition log_header :: "string \<Rightarrow> string \<Rightarrow> string" where
  "log_header sid started = ''# Session: '' @ sid @ [nl] @ ''Started: '' @ started @ [nl, nl]
     @ ''| # | Time | Type | Content |'' @ [nl] @ ''|---|---|---|---|'' @ [nl]"

definition sessionlog_New ::
  "gerror option \<Rightarrow> gerror option \<Rightarrow> log_clock \<Rightarrow> files \<Rightarrow> string \<Rightarrow> string \<Rightarrow> files \<times> (gerror + SessionLogger)" where
  "sessionlog_New mkerr openerr c fs sessionID logDir =
     (case mkerr of
        Some e \<Rightarrow> (fs, Inl (ErrWrap ''create session log dir'' e))
      | None \<Rightarrow>
         (let fname = path_Join (session_dir logDir sessionID) (lc_name c @ ''.md'') in
          case openerr of
            Some e \<Rightarrow> (fs, Inl (ErrWrap ''create session log file'' e))
          | None \<Rightarrow> (append_file fs fname (log_header sessionID (lc_rfc c)),
              Inr \<lparr>sl_sessionID = sessionID, sl_file = Some fname, sl_seq = 0\<rparr>)))"

definition escape_char :: "char \<Rightarrow> string" where
  "escape_char c = (if c = CHR ''|'' then [CHR 0x5C, CHR ''|''] else if c = nl then '' ... '' else [c])"

definition escapeMarkdown :: "string \<Rightarrow> string" where
  "escapeMarkdown s = concat (map escape_char (if length s > 200 then take 200 s @ ''...'' else s))"

definition entry_label :: "EntryType \<Rightarrow> string" where
  "entry_label t = (case t of EntryUser \<Rightarrow> ''User'' | EntryAssistant \<Rightarrow> ''Assistant'' | EntryToolCall \<Rightarrow> ''ToolCall''
     | EntryToolResult \<Rightarrow> ''ToolResult'' | EntrySystem \<Rightarrow> ''System'')"

definition table_row :: "nat \<Rightarrow> string \<Rightarrow> string \<Rightarrow> string \<Rightarrow> string" where
  "table_row n ts label cell = ''| '' @ show_nat n @ '' | '' @ ts @ '' | **'' @ label @ ''** | '' @ cell @ '' |'' @ [nl]"

definition sl_log :: "log_clock \<Rightarrow> files \<Rightarrow> SessionLogger \<Rightarrow> EntryType \<Rightarrow> string \<Rightarrow> string \<Rightarrow> files \<times> SessionLogger" where
  "sl_log c fs l typ content extra = (case sl_file l of
     None \<Rightarrow> (fs, l)
   | Some p \<Rightarrow>
       (append_file fs p (table_row (sl_seq l + 1) (lc_time c) (entry_label typ) (escapeMarkdown content)
          @ (if extra \<noteq> [] then ''| | | | '' @ extra @ '' |'' @ [nl] else [])), l\<lparr>sl_seq := sl_seq l + 1\<rparr>))"

definition LogUser where "LogUser c fs l content = sl_log c fs l EntryUser content []"

definition LogAssistant where "LogAssistant c fs l content stats = sl_log c fs l EntryAssistant content stats"

abbreviation fence :: string where "fence \<equiv> [CHR 0x60, CHR 0x60, CHR 0x60]"

definition LogToolCall where
  "LogToolCall c fs l name args result = sl_log c fs l EntryToolCall []
     (''**'' @ name @ ''**'' @ [nl] @ fence @ ''json'' @ [nl] @ args @ [nl] @ fence @ [nl] @ utf8 [0x2192] @ [nl] @ fence @ [nl] @ result @ [nl] @ fence)"

definition LogToolResult where
  "LogToolResult c fs l name result = sl_log c fs l EntryToolResult []
     (''**'' @ name @ ''** result:'' @ [nl] @ fence @ [nl] @ result @ [nl] @ fence)"

definition LogSystem where "LogSystem c fs l msg = sl_log c fs l EntrySystem msg []"

text \<open>\<open>LogRaw\<close> formats its first argument; \<open>sprintf\<close> is \<open>fmt.Sprintf\<close> with the given arguments.\<close>

definition LogRaw :: "(string \<Rightarrow> string) \<Rightarrow> log_clock \<Rightarrow> files \<Rightarrow> SessionLogger \<Rightarrow> string \<Rightarrow> files \<times> SessionLogger" where
  "LogRaw sprintf c fs l f = (case sl_file l of
     None \<Rightarrow> (fs, l)
   | Some p \<Rightarrow> (append_file fs p (table_row (sl_seq l + 1) (lc_time c) ''RAW'' ([CHR 0x60] @ escapeMarkdown (sprintf f) @ [CHR 0x60])),
       l\<lparr>sl_seq := sl_seq l + 1\<rparr>))"

definition sl_Close :: "log_clock \<Rightarrow> files \<Rightarrow> SessionLogger \<Rightarrow> files \<times> SessionLogger" where
  "sl_Close c fs l = (case sl_file l of
     None \<Rightarrow> (fs, l)
   | Some p \<Rightarrow> (append_file fs p ([nl] @ ''---'' @ [nl] @ ''Ended: '' @ lc_rfc c @ [nl]), l\<lparr>sl_file := None\<rparr>))"

text \<open>\<open>%04d\<close>\<close>

definition pad4 :: "nat \<Rightarrow> string" where
  "pad4 n = replicate (4 - length (show_nat n)) CHR ''0'' @ show_nat n"

definition WriteAssistantResponse ::
  "log_clock \<Rightarrow> bool \<Rightarrow> files \<Rightarrow> SessionLogger \<Rightarrow> string \<Rightarrow> string \<Rightarrow> string \<Rightarrow> files \<times> SessionLogger" where
  "WriteAssistantResponse c detail_ok fs l snippet fullContent stats = (case sl_file l of
     None \<Rightarrow> (fs, l)
   | Some p \<Rightarrow>
       (let n = sl_seq l + 1; detailFile = ''response_'' @ lc_detail c @ ''_'' @ pad4 n @ ''.md'';
            long = length fullContent > 200;
            fs1 = (if long \<and> detail_ok then fs(path_Join (path_Dir p) detailFile \<mapsto> fullContent) else fs);
            contentText = (if long then snippet @ '' '' @ utf8 [0x2014] @ '' [full response]('' @ detailFile @ '')'' else snippet) in
        (append_file fs1 p (table_row n (lc_time c) ''Assistant'' (escapeMarkdown contentText)
           @ (if stats \<noteq> [] then ''| | | _stats_ | '' @ stats @ '' |'' @ [nl] else [])), l\<lparr>sl_seq := n\<rparr>)))"

definition LogDir :: "SessionLogger \<Rightarrow> string" where
  "LogDir l = (case sl_file l of None \<Rightarrow> [] | Some p \<Rightarrow> path_Dir p)"

text \<open>The table of open loggers.\<close>

type_synonym loggers = "string \<rightharpoonup> SessionLogger"

definition log_dir_of_env :: "string \<Rightarrow> string" where
  "log_dir_of_env d = (if d \<noteq> [] then d else ''logs'')"

definition sl_Get :: "loggers \<Rightarrow> string \<Rightarrow> SessionLogger option" where
  "sl_Get ls sid = ls sid"

definition sl_Open ::
  "gerror option \<Rightarrow> gerror option \<Rightarrow> log_clock \<Rightarrow> string \<Rightarrow> files \<Rightarrow> loggers \<Rightarrow> string \<Rightarrow> files \<times> loggers \<times> SessionLogger option" where
  "sl_Open mkerr openerr c dir fs ls sid = (case ls sid of
     Some l \<Rightarrow> (fs, ls, Some l)
   | None \<Rightarrow> (case sessionlog_New mkerr openerr c fs sid dir of
       (fs1, Inl e) \<Rightarrow> (fs1, ls, None)
     | (fs1, Inr l) \<Rightarrow> (fs1, ls(sid \<mapsto> l), Some l)))"

definition sl_CloseSession :: "log_clock \<Rightarrow> files \<Rightarrow> loggers \<Rightarrow> string \<Rightarrow> files \<times> loggers" where
  "sl_CloseSession c fs ls sid = (case ls sid of
     None \<Rightarrow> (fs, ls)
   | Some l \<Rightarrow> (fst (sl_Close c fs l), ls(sid := None)))"

text \<open>\<open>ids\<close> are the keys in the order of Go's iteration.\<close>

definition sl_CloseAll :: "log_clock \<Rightarrow> string list \<Rightarrow> files \<Rightarrow> loggers \<Rightarrow> files \<times> loggers" where
  "sl_CloseAll c ids fs ls = foldl (\<lambda>(fs, ls) sid. sl_CloseSession c fs ls sid) (fs, ls) ids"

subsection \<open>The raw log (protocol/raw_log.go)\<close>

record RawLogProcessor =
  rp_dir :: string
  rp_file :: "string option"
  rp_open :: bool
  rp_date :: string
  rp_enabled :: bool

definition NewRawLogProcessor :: "gerror option \<Rightarrow> string \<Rightarrow> RawLogProcessor" where
  "NewRawLogProcessor mkerr dir = (case mkerr of
     Some _ \<Rightarrow> \<lparr>rp_dir = [], rp_file = None, rp_open = False, rp_date = [], rp_enabled = False\<rparr>
   | None \<Rightarrow> \<lparr>rp_dir = dir, rp_file = None, rp_open = False, rp_date = [], rp_enabled = True\<rparr>)"

definition raw_rotate :: "(string \<Rightarrow> bool) \<Rightarrow> string \<Rightarrow> RawLogProcessor \<Rightarrow> RawLogProcessor" where
  "raw_rotate can_open date p =
     (let path = path_Join (rp_dir p) (date @ ''.log'') in
      if can_open path then p\<lparr>rp_file := Some path, rp_open := True, rp_date := date\<rparr>
      else p\<lparr>rp_open := False, rp_enabled := False\<rparr>)"

text \<open>\<open>write_ok\<close>: the write to an open file succeeds.\<close>

definition tryWrite ::
  "(string \<Rightarrow> bool) \<Rightarrow> bool \<Rightarrow> bool \<Rightarrow> string \<Rightarrow> string \<Rightarrow> files \<Rightarrow> RawLogProcessor \<Rightarrow> files \<times> RawLogProcessor \<times> bool" where
  "tryWrite can_open locked write_ok today line fs p =
     (if \<not> locked then (fs, p, False)
      else
        (let p1 = (if rp_file p = None \<or> rp_date p \<noteq> today then raw_rotate can_open today p else p) in
         case rp_file p1 of
           None \<Rightarrow> (fs, p1, False)
         | Some path \<Rightarrow>
             if rp_open p1 \<and> write_ok then (append_file fs path (line @ [nl]), p1, True)
             else (fs, p1\<lparr>rp_enabled := False\<rparr>, False)))"

definition raw_kind :: "ChunkType \<Rightarrow> bool" where
  "raw_kind t \<longleftrightarrow> t \<in> {ChunkRawRequest, ChunkRawResponse, ChunkRawError}"

definition raw_record :: "(gany \<Rightarrow> string) \<Rightarrow> (ChunkType \<rightharpoonup> string) \<Rightarrow> string \<Rightarrow> Chunk \<Rightarrow> string" where
  "raw_record marshal names ts c =
     marshal (GObj [(''data'', GStr (ch_Text c)), (''kind'', GStr (ChunkType_String names (ch_Type c))), (''ts'', GStr ts)])"

text \<open>What a call needs from outside, and its result: the files, the processor and what it logs about a
  dropped chunk (if the context has a log function).\<close>

record raw_call =
  rk_locked :: bool
  rk_write_ok :: bool
  rk_today :: string
  rk_ts :: string

definition raw_Process ::
  "(string \<Rightarrow> bool) \<Rightarrow> (gany \<Rightarrow> string) \<Rightarrow> (ChunkType \<rightharpoonup> string) \<Rightarrow> raw_call \<Rightarrow> files \<Rightarrow> RawLogProcessor \<Rightarrow> Chunk \<Rightarrow>
   files \<times> RawLogProcessor \<times> string option" where
  "raw_Process can_open marshal names k fs p c =
     (if \<not> rp_enabled p \<or> \<not> raw_kind (ch_Type c) then (fs, p, None)
      else case tryWrite can_open (rk_locked k) (rk_write_ok k) (rk_today k) (raw_record marshal names (rk_ts k) c) fs p of
        (fs1, p1, ok) \<Rightarrow> (fs1, p1, if ok then None else Some (''raw log dropped: '' @ ChunkType_String names (ch_Type c))))"

definition raw_Stop :: "RawLogProcessor \<Rightarrow> RawLogProcessor" where
  "raw_Stop p = (if rp_file p \<noteq> None then p\<lparr>rp_file := None, rp_open := False, rp_date := []\<rparr> else p)"


subsection \<open>Lemmas\<close>

lemma segs_below:
  assumes "d \<noteq> []" and "list_all seg_ok ws" and "ws \<noteq> []"
  shows "segs (d @ slash # Join ws ''/'') = segs d @ ws" "IsAbs (d @ slash # Join ws ''/'') = IsAbs d"
proof -
  have "SplitChar slash (Join ws ''/'') = ws"
    using assms(2,3) SplitChar_Join [of ws slash] by (auto simp: seg_ok_def list_all_iff)
  moreover show a: "IsAbs (d @ slash # Join ws ''/'') = IsAbs d" using assms(1) by (cases d) auto
  ultimately show "segs (d @ slash # Join ws ''/'') = segs d @ ws"
    using assms(2) by (simp add: segs_def SplitChar_sep_append clean_seg_keep)
qed

lemma sanitize_seg:
  assumes "s \<noteq> []"
  shows "seg_ok (sanitize s)"
proof -
  have c: "safe_char c \<Longrightarrow> c \<noteq> slash \<and> c \<noteq> CHR ''.''" for c by (auto simp: safe_char_def is_digit_def)
  have "list_all (\<lambda>c. c \<noteq> slash \<and> c \<noteq> CHR ''.'') (sanitize s)" using c by (auto simp: sanitize_def list_all_iff)
  then have "slash \<notin> set (sanitize s)" "CHR ''.'' \<notin> set (sanitize s)" by (auto simp: list_all_iff)
  moreover have "sanitize s \<noteq> []" using assms by (simp add: sanitize_def)
  ultimately show ?thesis by (auto simp: seg_ok_def)
qed

lemma escape_no_newline: "nl \<notin> set (escapeMarkdown s)"
  by (auto simp: escapeMarkdown_def escape_char_def split: if_splits)

definition pipes_escaped :: "string \<Rightarrow> bool" where
  "pipes_escaped s \<longleftrightarrow> (\<forall>u v. s = u @ CHR ''|'' # v \<longrightarrow> u \<noteq> [] \<and> last u = CHR 0x5C)"

lemma pipes_escaped_concat: "pipes_escaped (concat (map escape_char s))"
proof (induction s)
  case (Cons c s)
  show ?case unfolding pipes_escaped_def
  proof (intro allI impI)
    fix u v assume a: "concat (map escape_char (c # s)) = u @ CHR ''|'' # v"
    show "u \<noteq> [] \<and> last u = CHR 0x5C"
    proof (cases "length (escape_char c) \<le> length u")
      case True
      then have "drop (length (escape_char c)) u @ CHR ''|'' # v = concat (map escape_char s)"
        using arg_cong [OF a, of "drop (length (escape_char c))"] by simp
      then have r: "drop (length (escape_char c)) u \<noteq> [] \<and> last (drop (length (escape_char c)) u) = CHR 0x5C"
        using Cons.IH unfolding pipes_escaped_def by metis
      then have "length (escape_char c) < length u" by simp
      with r show ?thesis by (auto simp: last_drop)
    next
      case False
      then have "escape_char c ! length u = CHR ''|''"
        using arg_cong [OF a, of "\<lambda>xs. xs ! length u"] by (simp add: nth_append)
      with False have u: "c = CHR ''|''" "length u = 1"
        by (auto simp: escape_char_def nth_Cons split: if_splits nat.splits)
      then have "u = [CHR 0x5C]" using a by (cases u) (auto simp: escape_char_def)
      then show ?thesis by simp
    qed
  qed
qed (simp add: pipes_escaped_def)

lemma show_nat_no_newline: "nl \<notin> set (show_nat n)"
  using show_nat_digits [of nl n] by (auto simp: is_digit_def)

text \<open>The raw log over its lifetime: an open file is that of the recorded date.\<close>

definition raw_inv :: "RawLogProcessor \<Rightarrow> bool" where
  "raw_inv p \<longleftrightarrow> (rp_open p \<longrightarrow> rp_file p = Some (path_Join (rp_dir p) (rp_date p @ ''.log'')))"

inductive raw_reach :: "(string \<Rightarrow> bool) \<Rightarrow> (gany \<Rightarrow> string) \<Rightarrow> (ChunkType \<rightharpoonup> string) \<Rightarrow> RawLogProcessor \<Rightarrow> bool"
  for can_open marshal names where
  raw_new: "raw_reach can_open marshal names (NewRawLogProcessor mkerr dir)"
| raw_process: "raw_reach can_open marshal names p \<Longrightarrow> raw_Process can_open marshal names k fs p c = (fs1, p1, out) \<Longrightarrow>
    raw_reach can_open marshal names p1"
| raw_stop: "raw_reach can_open marshal names p \<Longrightarrow> raw_reach can_open marshal names (raw_Stop p)"

lemma raw_inv_write: "raw_inv p \<Longrightarrow> tryWrite can_open locked ok today line fs p = (fs1, p1, r) \<Longrightarrow> raw_inv p1"
  by (auto simp: tryWrite_def raw_rotate_def raw_inv_def Let_def split: if_splits option.splits)

lemma raw_reach_inv: "raw_reach can_open marshal names p \<Longrightarrow> raw_inv p"
proof (induction rule: raw_reach.induct)
  case (raw_process p k fs c fs1 p1 out)
  then show ?case using raw_inv_write by (auto simp: raw_Process_def split: if_splits prod.splits)
qed (auto simp: raw_inv_def NewRawLogProcessor_def raw_Stop_def split: option.splits)

text \<open>A session's log in use: the steps are the operations of its logger (the entries of \<open>LogUser\<close>,
  \<open>LogAssistant\<close>, \<open>LogToolCall\<close>, \<open>LogToolResult\<close> and \<open>LogSystem\<close> all go through \<open>log\<close>). Formatted times
  contain no slash.\<close>

inductive session_run :: "string \<Rightarrow> string \<Rightarrow> files \<Rightarrow> files \<Rightarrow> SessionLogger \<Rightarrow> bool" for logDir sid fs0 where
  started: "sessionlog_New mkerr openerr c fs0 sid logDir = (fs, Inr l) \<Longrightarrow> seg_ok (lc_name c @ ''.md'') \<Longrightarrow> session_run logDir sid fs0 fs l"
| entry: "session_run logDir sid fs0 fs l \<Longrightarrow> sl_log c fs l typ content extra = (fs1, l1) \<Longrightarrow> session_run logDir sid fs0 fs1 l1"
| raw_entry: "session_run logDir sid fs0 fs l \<Longrightarrow> LogRaw sprintf c fs l f = (fs1, l1) \<Longrightarrow> session_run logDir sid fs0 fs1 l1"
| response: "session_run logDir sid fs0 fs l \<Longrightarrow> WriteAssistantResponse c ok fs l snippet full stats = (fs1, l1) \<Longrightarrow>
    slash \<notin> set (lc_detail c) \<Longrightarrow> session_run logDir sid fs0 fs1 l1"
| closed: "session_run logDir sid fs0 fs l \<Longrightarrow> sl_Close c fs l = (fs1, l1) \<Longrightarrow> session_run logDir sid fs0 fs1 l1"

lemma session_dir_shape:
  assumes "logDir \<noteq> []" and "sid \<noteq> []"
  shows "session_dir logDir sid = path_of (IsAbs logDir) (segs logDir @ [''sessions'', sanitize sid])"
    and "segs (session_dir logDir sid) = segs logDir @ [''sessions'', sanitize sid]"
    and "IsAbs (session_dir logDir sid) = IsAbs logDir" and "Clean (session_dir logDir sid) = session_dir logDir sid"
proof -
  let ?d = "logDir @ slash # Join [''sessions'', sanitize sid] ''/''"
  have ok: "list_all seg_ok [''sessions'', sanitize sid]" using sanitize_seg [OF assms(2)] by (simp add: seg_ok_def)
  have "sanitize sid \<noteq> []" using assms(2) by (simp add: sanitize_def)
  then have d: "session_dir logDir sid = Clean ?d" using assms(1) by (simp add: session_dir_def path_Join_def)
  have s: "segs ?d = segs logDir @ [''sessions'', sanitize sid]" "IsAbs ?d = IsAbs logDir"
    using segs_below [OF assms(1) ok] by simp_all
  show "session_dir logDir sid = path_of (IsAbs logDir) (segs logDir @ [''sessions'', sanitize sid])"
    using s by (simp add: d Clean_def)
  show "segs (session_dir logDir sid) = segs logDir @ [''sessions'', sanitize sid]"
    "IsAbs (session_dir logDir sid) = IsAbs logDir" "Clean (session_dir logDir sid) = session_dir logDir sid"
    unfolding d by (simp_all only: segs_Clean s Clean_def [of "Clean ?d"]) (simp only: Clean_def s)
qed

definition session_inv :: "string \<Rightarrow> string \<Rightarrow> files \<Rightarrow> files \<Rightarrow> SessionLogger \<Rightarrow> bool" where
  "session_inv logDir sid fs0 fs l \<longleftrightarrow>
     (\<forall>p. sl_file l = Some p \<longrightarrow> (\<exists>name. seg_ok name \<and> p = path_of (IsAbs logDir) (segs logDir @ [''sessions'', sanitize sid, name])))
   \<and> (\<forall>p. fs p \<noteq> fs0 p \<longrightarrow> (\<exists>name. seg_ok name \<and> p = path_of (IsAbs logDir) (segs logDir @ [''sessions'', sanitize sid, name])))
   \<and> LogDir l \<in> {[], session_dir logDir sid}"

lemma session_file_path:
  assumes "logDir \<noteq> []" and "sid \<noteq> []" and "seg_ok name"
  shows "path_Join (session_dir logDir sid) name = path_of (IsAbs logDir) (segs logDir @ [''sessions'', sanitize sid, name])"
    and "path_Dir (path_of (IsAbs logDir) (segs logDir @ [''sessions'', sanitize sid, name])) = session_dir logDir sid"
  using path_Join_name [OF assms(3), of "session_dir logDir sid"] session_dir_shape [OF assms(1,2)] by simp_all

lemma pad4_no_slash: "slash \<notin> set (pad4 n)"
  using show_nat_digits [of slash n] by (auto simp: pad4_def is_digit_def)

lemma session_inv_append:
  assumes "session_inv logDir sid fs0 fs l" and "sl_file l = Some p" and "sl_file l1 \<in> {None, Some p}"
  shows "session_inv logDir sid fs0 (append_file fs p s) l1"
  using assms by (auto simp: session_inv_def append_file_def LogDir_def split: if_splits)

lemma session_inv_response:
  assumes inv: "session_inv logDir sid fs0 fs l" and ne: "logDir \<noteq> []" "sid \<noteq> []" and sl: "slash \<notin> set (lc_detail c)"
    and w: "WriteAssistantResponse c ok fs l snippet full stats = (fs1, l1)"
  shows "session_inv logDir sid fs0 fs1 l1"
proof (cases "sl_file l")
  case (Some p)
  let ?detail = "''response_'' @ lc_detail c @ ''_'' @ pad4 (sl_seq l + 1) @ ''.md''"
  let ?fs = "if length full > 200 \<and> ok then fs(path_Join (path_Dir p) ?detail \<mapsto> full) else fs"
  have n: "seg_ok ?detail" using sl pad4_no_slash by (simp add: seg_ok_def)
  have "path_Dir p = session_dir logDir sid" using inv Some session_file_path(2) [OF ne] by (auto simp: session_inv_def)
  then have "session_inv logDir sid fs0 ?fs l"
    using inv n session_file_path(1) [OF ne n] by (auto simp: session_inv_def)
  from session_inv_append [OF this Some] w Some show ?thesis by (auto simp: WriteAssistantResponse_def Let_def split: if_splits)
qed (use inv w in \<open>simp add: WriteAssistantResponse_def\<close>)

lemma session_run_inv:
  assumes "session_run logDir sid fs0 fs l" and ne: "logDir \<noteq> []" "sid \<noteq> []"
  shows "session_inv logDir sid fs0 fs l"
  using assms(1)
proof (induction rule: session_run.induct)
  case (started mkerr openerr c fs l)
  then show ?case using session_file_path [OF ne started(2)]
    by (auto simp: session_inv_def sessionlog_New_def append_file_def LogDir_def Let_def split: option.splits if_splits)
next
  case (entry fs l c kind content extra fs1 l1)
  then show ?case using session_inv_append [OF entry.IH]
    by (auto simp: sl_log_def split: option.splits)
next
  case (raw_entry fs l sprintf c g fs1 l1)
  then show ?case using session_inv_append [OF raw_entry.IH] by (auto simp: LogRaw_def split: option.splits)
next
  case (response fs l c ok snippet full stats fs1 l1)
  then show ?case using session_inv_response ne by blast
next
  case (closed fs l c fs1 l1)
  then show ?case using session_inv_append [OF closed.IH] by (auto simp: sl_Close_def split: option.splits)
qed

subsection \<open>Properties\<close>

text \<open>C33: Whatever the client sends as its session identifier and however its log is used, the only files that
  change are in one directory of the session below the log directory: the identifier becomes exactly one
  path segment, every changed path is that directory and one more segment, and the directory the log
  reports is that one until it is closed.\<close>

theorem session_log_confined:
  assumes "session_run logDir sid fs0 fs l" and "logDir \<noteq> []" and "sid \<noteq> []" and "fs p \<noteq> fs0 p"
  shows "LogDir l \<in> {[], session_dir logDir sid}
    \<and> (\<exists>name. seg_ok name \<and> p = path_of (IsAbs logDir) (segs logDir @ [''sessions'', sanitize sid, name]))"
  using session_run_inv [OF assms(1-3)] assms(4) by (auto simp: session_inv_def)

theorem session_log_confined_witness:
  "LogDir \<lparr>sl_sessionID = ''../../etc'', sl_file = Some ''logs/sessions/______etc/t.md'', sl_seq = 0\<rparr> \<in> {[], ''logs/sessions/______etc''}"
proof -
  let ?c = "\<lparr>lc_name = ''t'', lc_rfc = ''r'', lc_time = [], lc_detail = []\<rparr>"
  let ?f = "''logs/sessions/______etc/t.md''"
  have d: "session_dir ''logs'' ''../../etc'' = ''logs/sessions/______etc''"
    using session_dir_shape [of "''logs''" "''../../etc''"]
    by (simp add: path_of_def segs_def clean_seg_def sanitize_def safe_char_def is_digit_def)
  have j: "path_Join ''logs/sessions/______etc'' ''t.md'' = ?f"
    by (simp add: path_Join_def Clean_def path_of_def segs_def clean_seg_def)
  have "sessionlog_New None None ?c Map.empty ''../../etc'' ''logs'' =
      (append_file Map.empty ?f (log_header ''../../etc'' ''r''), Inr \<lparr>sl_sessionID = ''../../etc'', sl_file = Some ?f, sl_seq = 0\<rparr>)"
    by (simp add: sessionlog_New_def d j Let_def)
  then have r: "session_run ''logs'' ''../../etc'' Map.empty (append_file Map.empty ?f (log_header ''../../etc'' ''r''))
      \<lparr>sl_sessionID = ''../../etc'', sl_file = Some ?f, sl_seq = 0\<rparr>"
    by (rule session_run.started) (simp add: seg_ok_def)
  show ?thesis using session_log_confined [OF r, of ?f] by (simp add: append_file_def d)
qed

text \<open>A logged user message is one row of the session's table: the text appended to the log file is a single
  line whose last cell has no unescaped separator, the sequence number grows by one, and no other file
  changes.\<close>

theorem user_entry_is_one_row:
  assumes "sl_file l = Some p" and "nl \<notin> set (lc_time c)" and "LogUser c fs l content = (fs1, l1)"
  shows "\<exists>row cell. fs1 = append_file fs p (row @ cell @ '' |'' @ [nl]) \<and> nl \<notin> set (row @ cell) \<and> pipes_escaped cell
    \<and> length cell \<le> 5 * 203 \<and> sl_seq l1 = sl_seq l + 1 \<and> sl_file l1 = Some p"
proof -
  let ?row = "''| '' @ show_nat (sl_seq l + 1) @ '' | '' @ lc_time c @ '' | **User** | ''"
  have "length (concat (map escape_char s)) \<le> 5 * length s" for s by (induction s) (auto simp: escape_char_def)
  from this [of "if length content > 200 then take 200 content @ ''...'' else content"]
  have "length (escapeMarkdown content) \<le> 5 * 203" by (auto simp: escapeMarkdown_def split: if_splits)
  moreover have "nl \<notin> set (?row @ escapeMarkdown content)"
    using assms(2) escape_no_newline show_nat_no_newline [of "sl_seq l + 1"] by auto
  moreover have "pipes_escaped (escapeMarkdown content)" unfolding escapeMarkdown_def by (rule pipes_escaped_concat)
  moreover have "fs1 = append_file fs p (?row @ escapeMarkdown content @ '' |'' @ [nl])" "sl_seq l1 = sl_seq l + 1" "sl_file l1 = Some p"
    using assms(1,3) by (auto simp: LogUser_def sl_log_def table_row_def entry_label_def)
  ultimately show ?thesis by blast
qed

theorem user_entry_is_one_row_witness:
  "sl_seq (snd (LogUser \<lparr>lc_name = [], lc_rfc = [], lc_time = ''12:00'', lc_detail = []\<rparr> Map.empty
     \<lparr>sl_sessionID = ''s'', sl_file = Some ''f.md'', sl_seq = 4\<rparr> ''a|b'')) = 5"
proof -
  let ?c = "\<lparr>lc_name = [], lc_rfc = [], lc_time = ''12:00'', lc_detail = []\<rparr>"
  let ?l = "\<lparr>sl_sessionID = ''s'', sl_file = Some ''f.md'', sl_seq = 4\<rparr>"
  obtain fs1 l1 where h: "LogUser ?c Map.empty ?l ''a|b'' = (fs1, l1)" by fastforce
  from user_entry_is_one_row [OF _ _ h, of "''f.md''"] h show ?thesis by auto
qed

text \<open>A request or response offered to the enabled raw log is either written, as exactly one line at the end of
  the file of the day, or reported as dropped and no file changes; other chunks have no effect.\<close>

theorem raw_log_records_or_reports:
  assumes "raw_reach can_open marshal names p" and "raw_Process can_open marshal names k fs p c = (fs1, p1, out)"
  shows "if rp_enabled p \<and> raw_kind (ch_Type c)
    then (case out of
        None \<Rightarrow> fs1 = append_file fs (path_Join (rp_dir p) (rk_today k @ ''.log'')) (raw_record marshal names (rk_ts k) c @ [nl]) \<and> rp_enabled p1
      | Some msg \<Rightarrow> fs1 = fs \<and> msg = ''raw log dropped: '' @ ChunkType_String names (ch_Type c))
    else fs1 = fs \<and> p1 = p \<and> out = None"
  using assms(2) raw_reach_inv [OF assms(1)]
  by (auto simp: raw_Process_def tryWrite_def raw_rotate_def raw_inv_def Let_def split: if_splits option.splits prod.splits)

theorem raw_log_records_or_reports_witness:
  "case raw_Process (\<lambda>_. True) (\<lambda>_. ''x'') raw_names \<lparr>rk_locked = True, rk_write_ok = True, rk_today = ''d'', rk_ts = ''t''\<rparr>
       Map.empty (NewRawLogProcessor None ''l'') (zero_Chunk ChunkRawRequest) of
     (fs1, p1, None) \<Rightarrow> fs1 ''l/d.log'' = Some (''x'' @ [nl]) | _ \<Rightarrow> True"
proof -
  let ?k = "\<lparr>rk_locked = True, rk_write_ok = True, rk_today = ''d'', rk_ts = ''t''\<rparr>" and ?p = "NewRawLogProcessor None ''l''"
  obtain fs1 p1 out where h: "raw_Process (\<lambda>_. True) (\<lambda>_. ''x'') raw_names ?k Map.empty ?p (zero_Chunk ChunkRawRequest) = (fs1, p1, out)"
    by (metis prod_cases3)
  have j: "path_Join ''l'' ''d.log'' = ''l/d.log''" by code_simp
  from raw_log_records_or_reports [OF raw_new h] h j show ?thesis
    by (auto simp: NewRawLogProcessor_def raw_kind_def zero_Chunk_def append_file_def raw_record_def split: option.splits)
qed

end
