(* ===== verification/Machine.thy ===== *)
theory Machine
  imports Main
begin

section \<open>State machines\<close>

text \<open>
  Goroutines that share state are modelled by step relations: one rule per branch that can be taken, in any
  order. This theory holds what their proofs share: reachable states, the invariance rule, stated as a locale
  that each machine interprets with its own invariant, and machines with a final phase that is never left.
\<close>

inductive reach :: "('s \<Rightarrow> bool) \<Rightarrow> ('s \<Rightarrow> 's \<Rightarrow> bool) \<Rightarrow> 's \<Rightarrow> bool" for init step where
  start: "init s \<Longrightarrow> reach init step s"
| move: "reach init step s \<Longrightarrow> step s t \<Longrightarrow> reach init step t"

lemma reach_steps: "reach init step s \<Longrightarrow> step\<^sup>*\<^sup>* s t \<Longrightarrow> reach init step t"
  by (rotate_tac, induction rule: rtranclp_induct) (auto intro: reach.move)

locale state_machine =
  fixes init :: "'s \<Rightarrow> bool" and step :: "'s \<Rightarrow> 's \<Rightarrow> bool" and inv :: "'s \<Rightarrow> bool"
  assumes initially: "init s \<Longrightarrow> inv s"
    and kept: "inv s \<Longrightarrow> step s t \<Longrightarrow> inv t"
begin

lemma reach_inv: "reach init step s \<Longrightarrow> inv s"
  by (induction rule: reach.induct) (blast intro: initially kept)+

lemma steps_inv: "step\<^sup>*\<^sup>* s t \<Longrightarrow> inv s \<Longrightarrow> inv t"
  by (induction rule: rtranclp_induct) (blast intro: kept)+

end

text \<open>A machine that never leaves its final states, and whose observation is then fixed.\<close>

locale halting_machine = state_machine init step inv
  for init :: "'s \<Rightarrow> bool" and step :: "'s \<Rightarrow> 's \<Rightarrow> bool" and inv :: "'s \<Rightarrow> bool" +
  fixes final :: "'s \<Rightarrow> bool" and obs :: "'s \<Rightarrow> 'o"
  assumes final_kept: "inv s \<Longrightarrow> final s \<Longrightarrow> step s t \<Longrightarrow> final t \<and> obs t = obs s"
begin

lemma final_steps: "step\<^sup>*\<^sup>* s t \<Longrightarrow> inv s \<Longrightarrow> final s \<Longrightarrow> final t \<and> obs t = obs s"
proof (induction rule: rtranclp_induct)
  case (step t u)
  then show ?case using final_kept [of t u] steps_inv [of s t] by auto
qed simp

end

end
