(* ===== verification/StallGuard.thy ===== *)
theory StallGuard
  imports Machine
begin

section \<open>The watchdog of a stream (protocol/openai.go, startStallGuard)\<close>

text \<open>
  While a response body is read, a goroutine waits for the first of four events: the context ends, the idle
  timer expires, the reader reports activity, or the reader is done. The reader reports a line through a
  channel with room for one element and drops the report if the channel is full. The rules of \<open>stall_step\<close>
  are the branches of the goroutine's \<open>select\<close> and what its environment does; several may be possible at once,
  and then any of them is taken. The timer channel is ready when the deadline has passed; stopping,
  draining and resetting it moves the deadline. Three fields only observe: the times of the last report and
  of the last one that was received, and, when the timer has fired, how long before the last report was and
  whether one was waiting in the channel.
\<close>

datatype guard_end = Timeout | Cancelled_ctx | Reader_done

record stall_guard =
  sg_now :: int
  sg_ended :: "guard_end option"
  sg_activity :: bool
  sg_deadline :: int
  sg_ctx_done :: bool
  sg_done :: bool
  sg_stalled :: bool
  sg_closed :: nat
  sg_last_reset :: int
  sg_last_received :: int
  sg_quiet :: "(int \<times> bool) option"

definition guard_start :: "int \<Rightarrow> int \<Rightarrow> stall_guard" where
  "guard_start timeout now = \<lparr>sg_now = now, sg_ended = None, sg_activity = False, sg_deadline = now + timeout,
     sg_ctx_done = False, sg_done = False, sg_stalled = False, sg_closed = 0,
     sg_last_reset = now, sg_last_received = now, sg_quiet = None\<rparr>"

text \<open>\<open>reset\<close>, called by the reader for every line.\<close>

definition reset_stall :: "stall_guard \<Rightarrow> stall_guard" where
  "reset_stall g = g\<lparr>sg_activity := True, sg_last_reset := sg_now g\<rparr>"

definition receive_activity :: "int \<Rightarrow> stall_guard \<Rightarrow> stall_guard" where
  "receive_activity timeout g = g\<lparr>sg_activity := False, sg_deadline := sg_now g + timeout, sg_last_received := sg_now g\<rparr>"

definition idle_expired :: "stall_guard \<Rightarrow> stall_guard" where
  "idle_expired g = g\<lparr>sg_stalled := True, sg_closed := sg_closed g + 1, sg_ended := Some Timeout,
     sg_quiet := Some (sg_now g - sg_last_reset g, sg_activity g)\<rparr>"

definition ctx_ended :: "stall_guard \<Rightarrow> stall_guard" where
  "ctx_ended g = g\<lparr>sg_closed := sg_closed g + 1, sg_ended := Some Cancelled_ctx\<rparr>"

inductive stall_step :: "int \<Rightarrow> stall_guard \<Rightarrow> stall_guard \<Rightarrow> bool" for timeout where
  time: "sg_now g \<le> t \<Longrightarrow> stall_step timeout g (g\<lparr>sg_now := t\<rparr>)"
| report: "\<not> sg_done g \<Longrightarrow> stall_step timeout g (reset_stall g)"
| cancel: "stall_step timeout g (g\<lparr>sg_ctx_done := True\<rparr>)"
| finish: "\<not> sg_done g \<Longrightarrow> stall_step timeout g (g\<lparr>sg_done := True\<rparr>)"
| sel_ctx: "sg_ended g = None \<Longrightarrow> sg_ctx_done g \<Longrightarrow> stall_step timeout g (ctx_ended g)"
| sel_idle: "sg_ended g = None \<Longrightarrow> sg_deadline g \<le> sg_now g \<Longrightarrow> stall_step timeout g (idle_expired g)"
| sel_activity: "sg_ended g = None \<Longrightarrow> sg_activity g \<Longrightarrow> stall_step timeout g (receive_activity timeout g)"
| sel_done: "sg_ended g = None \<Longrightarrow> sg_done g \<Longrightarrow> stall_step timeout g (g\<lparr>sg_ended := Some Reader_done\<rparr>)"

lemmas stall_ops = reset_stall_def receive_activity_def idle_expired_def ctx_ended_def guard_start_def

definition guard_init :: "int \<Rightarrow> stall_guard \<Rightarrow> bool" where
  "guard_init timeout g \<longleftrightarrow> (\<exists>now. g = guard_start timeout now)"

abbreviation guard_reach :: "int \<Rightarrow> stall_guard \<Rightarrow> bool" where
  "guard_reach timeout \<equiv> reach (guard_init timeout) (stall_step timeout)"

text \<open>While the guard runs, the deadline belongs to the last report it received, and a later report is still
  in the channel. Afterwards the flags tell how it ended.\<close>

definition guard_inv :: "int \<Rightarrow> stall_guard \<Rightarrow> bool" where
  "guard_inv timeout g \<longleftrightarrow>
     sg_last_reset g \<le> sg_now g \<and> sg_last_received g \<le> sg_now g
   \<and> (case sg_ended g of
        None \<Rightarrow> \<not> sg_stalled g \<and> sg_closed g = 0 \<and> sg_deadline g = sg_last_received g + timeout
          \<and> (\<not> sg_activity g \<longrightarrow> sg_last_reset g \<le> sg_last_received g)
      | Some Timeout \<Rightarrow> sg_stalled g \<and> sg_closed g = 1 \<and> (\<exists>q pending. sg_quiet g = Some (q, pending) \<and> (\<not> pending \<longrightarrow> timeout \<le> q))
      | Some Cancelled_ctx \<Rightarrow> \<not> sg_stalled g \<and> sg_closed g = 1 \<and> sg_ctx_done g
      | Some Reader_done \<Rightarrow> \<not> sg_stalled g \<and> sg_closed g = 0 \<and> sg_done g)"

lemma guard_inv_step:
  assumes "guard_inv timeout g" and "stall_step timeout g h"
  shows "guard_inv timeout h"
  using assms(2,1)
proof cases
  case report
  with assms(1) show ?thesis by (cases "sg_ended g") (auto simp: guard_inv_def stall_ops split: guard_end.splits)
next
  case time
  with assms(1) show ?thesis by (cases "sg_ended g") (auto simp: guard_inv_def split: guard_end.splits)
next
  case cancel
  with assms(1) show ?thesis by (cases "sg_ended g") (auto simp: guard_inv_def split: guard_end.splits)
next
  case finish
  with assms(1) show ?thesis by (cases "sg_ended g") (auto simp: guard_inv_def split: guard_end.splits)
qed (use assms(1) in \<open>auto simp: guard_inv_def stall_ops\<close>)

interpretation guard: halting_machine "guard_init timeout" "stall_step timeout" "guard_inv timeout"
  "\<lambda>g. sg_ended g \<noteq> None" "\<lambda>g. (sg_ended g, sg_stalled g, sg_closed g, sg_quiet g)"
proof
  show "guard_init timeout s \<Longrightarrow> guard_inv timeout s" for s
    by (auto simp: guard_init_def guard_inv_def stall_ops)
  show "guard_inv timeout s \<Longrightarrow> stall_step timeout s t \<Longrightarrow> guard_inv timeout t" for s t
    by (rule guard_inv_step)
  show "guard_inv timeout s \<Longrightarrow> sg_ended s \<noteq> None \<Longrightarrow> stall_step timeout s t \<Longrightarrow>
      sg_ended t \<noteq> None \<and> (sg_ended t, sg_stalled t, sg_closed t, sg_quiet t) = (sg_ended s, sg_stalled s, sg_closed s, sg_quiet s)" for s t
    by (erule stall_step.cases) (simp_all add: stall_ops)
qed

subsection \<open>Properties\<close>

text \<open>C19: In every interleaving of the reader, the clock and the guard: a stream is reported as stalled only if
  the guard ended by its timer, and then no line was read for the whole timeout, unless a report was waiting
  in the channel when the timer fired; the body is closed at most once, exactly if the timer or the context
  ended the guard; and once it has ended, none of this changes any more.\<close>

theorem stall_only_when_idle:
  assumes "guard_reach timeout g" and "(stall_step timeout)\<^sup>*\<^sup>* g h"
  shows "(sg_stalled g \<longleftrightarrow> sg_ended g = Some Timeout)
    \<and> (sg_stalled g \<longrightarrow> (\<exists>q pending. sg_quiet g = Some (q, pending) \<and> (\<not> pending \<longrightarrow> timeout \<le> q)))
    \<and> sg_closed g = (if sg_ended g = Some Timeout \<or> sg_ended g = Some Cancelled_ctx then 1 else 0)
    \<and> (sg_ended g \<noteq> None \<longrightarrow> (sg_ended h, sg_stalled h, sg_closed h) = (sg_ended g, sg_stalled g, sg_closed g))"
proof -
  have inv: "guard_inv timeout g" by (rule guard.reach_inv [OF assms(1)])
  moreover have "sg_ended g \<noteq> None \<longrightarrow> (sg_ended h, sg_stalled h, sg_closed h) = (sg_ended g, sg_stalled g, sg_closed g)"
    using guard.final_steps [OF assms(2) inv] by auto
  ultimately show ?thesis by (cases "sg_ended g") (auto simp: guard_inv_def split: guard_end.splits)
qed

lemma idle_guard_reach: "guard_reach 10 (idle_expired ((guard_start 10 0)\<lparr>sg_now := 12\<rparr>))"
proof -
  have "guard_reach 10 (guard_start 10 0)" by (rule reach.start) (auto simp: guard_init_def)
  then have "guard_reach 10 ((guard_start 10 0)\<lparr>sg_now := 12\<rparr>)"
    by (rule reach.move) (rule stall_step.time, simp add: guard_start_def)
  then show ?thesis by (rule reach.move) (rule stall_step.sel_idle, simp_all add: guard_start_def)
qed

theorem stall_only_when_idle_witness:
  "sg_quiet (idle_expired ((guard_start 10 0)\<lparr>sg_now := 12\<rparr>)) = Some (12, False) \<and> (10 :: int) \<le> 12"
  using stall_only_when_idle [OF idle_guard_reach rtranclp.rtrancl_refl] by (simp add: stall_ops)

text \<open>From every reachable state a guard can come to its end, whatever the reader does: its timer is never
  disarmed.\<close>

theorem guard_can_end:
  assumes "guard_reach timeout g"
  shows "\<exists>h. (stall_step timeout)\<^sup>*\<^sup>* g h \<and> sg_ended h \<noteq> None"
proof (cases "sg_ended g")
  case None
  let ?g1 = "g\<lparr>sg_now := max (sg_now g) (sg_deadline g)\<rparr>"
  have "stall_step timeout g ?g1" by (rule stall_step.time) simp
  moreover have "stall_step timeout ?g1 (idle_expired ?g1)" using None by (intro stall_step.sel_idle) simp_all
  ultimately show ?thesis
    by (intro exI [of _ "idle_expired ?g1"]) (auto simp: idle_expired_def intro: converse_rtranclp_into_rtranclp)
qed auto

end
