(* ===== verification/Health.thy ===== *)
theory Health
  imports Retry Machine
begin

section \<open>The health manager and its goroutines (protocol/health_check.go, health_manager.go)\<close>

text \<open>
  The manager starts one goroutine per registered vendor. It probes the vendor's endpoint once at the start
  and then at every tick until the manager's context or the checker's stop channel ends it. The same
  breaker, if the vendor has one, is used by the probes, by the status query and by the retrying sender, so
  all of them are steps of one machine over the state of \<open>Retry\<close>. A \<open>select\<close> with several ready branches
  takes any of them: a tick may still be served after the manager was stopped. \<open>hm_probes\<close> observes the
  outcomes of a vendor's probes, the latest first.
\<close>

datatype phase = Starting | Waiting | Returned

record HealthManager =
  hm_net :: "Vendor \<Rightarrow> net_state"
  hm_phase :: "Vendor \<rightharpoonup> phase"
  hm_stopCh :: "Vendor \<Rightarrow> bool"
  hm_cancelled :: bool
  hm_probes :: "Vendor \<Rightarrow> probe_outcome list"

text \<open>The table of shared breakers is separate from the manager: \<open>breakers\<close> is what it holds at the start.\<close>

definition NewHealthManager :: "(Vendor \<rightharpoonup> CircuitBreaker) \<Rightarrow> HealthManager" where
  "NewHealthManager breakers = \<lparr>hm_net = (\<lambda>v. \<lparr>ns_checker = None, ns_breaker = breakers v, ns_health_has_breaker = False\<rparr>),
     hm_phase = Map.empty, hm_stopCh = (\<lambda>_. False), hm_cancelled = False, hm_probes = (\<lambda>_. [])\<rparr>"

abbreviation set_net :: "HealthManager \<Rightarrow> Vendor \<Rightarrow> net_state \<Rightarrow> HealthManager" where
  "set_net m v st \<equiv> m\<lparr>hm_net := (hm_net m)(v := st)\<rparr>"

text \<open>A client registers its vendor with the breaker the table holds at that time, or nil.\<close>

definition hm_Register :: "HealthManager \<Rightarrow> Vendor \<Rightarrow> HealthManager" where
  "hm_Register m v =
     (let st = hm_net m v in
      if ns_checker st \<noteq> None then m
      else (set_net m v (st\<lparr>ns_checker := Some NewHealthChecker, ns_health_has_breaker := (ns_breaker st \<noteq> None)\<rparr>))
             \<lparr>hm_phase := (hm_phase m)(v \<mapsto> Starting)\<rparr>)"

definition probe_net :: "net_state \<Rightarrow> int \<Rightarrow> probe_outcome \<Rightarrow> net_state" where
  "probe_net st now outcome = (case ns_checker st of
     None \<Rightarrow> st
   | Some h \<Rightarrow>
       (case health_check h (if ns_health_has_breaker st then ns_breaker st else None) now outcome of (h1, b1) \<Rightarrow>
          st\<lparr>ns_checker := Some h1, ns_breaker := (if ns_health_has_breaker st then b1 else ns_breaker st)\<rparr>))"

text \<open>One probe by the goroutine, which then waits in its loop.\<close>

definition hm_probe :: "HealthManager \<Rightarrow> Vendor \<Rightarrow> int \<Rightarrow> probe_outcome \<Rightarrow> HealthManager" where
  "hm_probe m v now outcome = (set_net m v (probe_net (hm_net m v) now outcome))
     \<lparr>hm_phase := (hm_phase m)(v \<mapsto> Waiting), hm_probes := (hm_probes m)(v := outcome # hm_probes m v)\<rparr>"

definition checker_Stop :: "HealthManager \<Rightarrow> Vendor \<Rightarrow> HealthManager" where
  "checker_Stop m v = m\<lparr>hm_stopCh := (hm_stopCh m)(v := True)\<rparr>"

definition hm_Stop :: "HealthManager \<Rightarrow> HealthManager" where
  "hm_Stop m = m\<lparr>hm_cancelled := True, hm_stopCh := (\<lambda>v. hm_stopCh m v \<or> ns_checker (hm_net m v) \<noteq> None)\<rparr>"

definition setCheckerStatus :: "HealthManager \<Rightarrow> Vendor \<Rightarrow> HealthStatus \<Rightarrow> HealthManager" where
  "setCheckerStatus m v s = set_net m v ((hm_net m v)\<lparr>ns_checker := map_option (\<lambda>h. h\<lparr>h_status := s\<rparr>) (ns_checker (hm_net m v))\<rparr>)"

text \<open>The machine; \<open>setCheckerStatus\<close>, which only tests call, is not a step of it.\<close>

inductive hm_step :: "HealthManager \<Rightarrow> HealthManager \<Rightarrow> bool" where
  registers: "hm_step m (hm_Register m v)"
| first_check: "hm_phase m v = Some Starting \<Longrightarrow> hm_step m (hm_probe m v now outcome)"
| ticks: "hm_phase m v = Some Waiting \<Longrightarrow> hm_step m (hm_probe m v now outcome)"
| leaves_loop: "hm_phase m v = Some Waiting \<Longrightarrow> hm_cancelled m \<or> hm_stopCh m v \<Longrightarrow> hm_step m (m\<lparr>hm_phase := (hm_phase m)(v \<mapsto> Returned)\<rparr>)"
| stops: "hm_step m (hm_Stop m)"
| stops_one: "hm_step m (checker_Stop m v)"
| asks_status: "hm_step m (set_net m v (fst (net_GetStatus (hm_net m v) now)))"
| sends: "SendWithRetry v env (hm_net m v) = (st, evs, res) \<Longrightarrow> hm_step m (set_net m v st)"
| succeeds: "hm_step m (set_net m v (net_success (hm_net m v)))"

definition hm_init :: "(Vendor \<rightharpoonup> CircuitBreaker) \<Rightarrow> HealthManager \<Rightarrow> bool" where
  "hm_init breakers m \<longleftrightarrow> m = NewHealthManager breakers"

abbreviation hm_reach :: "(Vendor \<rightharpoonup> CircuitBreaker) \<Rightarrow> HealthManager \<Rightarrow> bool" where
  "hm_reach breakers \<equiv> reach (hm_init breakers) hm_step"

subsection \<open>What a checker remembers\<close>

fun probe_err :: "probe_outcome \<Rightarrow> gerror option" where
  "probe_err (ProbeBuildErr e) = Some e"
| "probe_err (ProbeDoErr e) = Some e"
| "probe_err (ProbeStatus s) = (if s = 200 \<or> s = 401 then None else Some (ErrMsg (''unexpected status: '' @ show_nat s)))"

definition remembers :: "HealthChecker \<Rightarrow> probe_outcome list \<Rightarrow> bool" where
  "remembers h os \<longleftrightarrow>
     h_consecutiveFailures h = length (takeWhile (\<lambda>p. probe_err p \<noteq> None) os)
   \<and> h_lastErr h = (case os of [] \<Rightarrow> None | p # _ \<Rightarrow> probe_err p)
   \<and> h_status h = (case os of [] \<Rightarrow> HealthUnknown | p # _ \<Rightarrow> if probe_err p = None then HealthHealthy else HealthUnhealthy)"

lemma health_check_eq:
  "health_check h b now p = (case probe_err p of None \<Rightarrow> recordSuccess h b now | Some e \<Rightarrow> recordFailure h b now e)"
  by (cases p) (simp_all add: health_check_def)

lemma remembers_new: "remembers NewHealthChecker []"
  by (simp add: remembers_def NewHealthChecker_def)

lemma remembers_probe: "remembers h os \<Longrightarrow> remembers (fst (health_check h b now p)) (p # os)"
  by (cases "probe_err p") (simp_all add: remembers_def health_check_eq recordSuccess_def recordFailure_def)

lemma probe_net_checker [simp]:
  "ns_checker (probe_net st now p) = map_option (\<lambda>h. fst (health_check h (if ns_health_has_breaker st then ns_breaker st else None) now p)) (ns_checker st)"
  "ns_health_has_breaker (probe_net st now p) = ns_health_has_breaker st"
  by (auto simp: probe_net_def split: option.splits prod.splits)

lemma probe_net_no_breaker: "ns_breaker st = None \<Longrightarrow> ns_breaker (probe_net st now p) = None"
  by (cases "probe_err p") (auto simp: probe_net_def health_check_eq recordSuccess_def recordFailure_def split: option.splits)

text \<open>The sender and the status query change neither the checker nor its registration, and install no breaker.\<close>

definition same_checker :: "net_state \<Rightarrow> net_state \<Rightarrow> bool" where
  "same_checker st st' \<longleftrightarrow> ns_checker st' = ns_checker st \<and> ns_health_has_breaker st' = ns_health_has_breaker st
     \<and> (ns_breaker st = None \<longrightarrow> ns_breaker st' = None)"

lemma same_checker_trans: "same_checker a b \<Longrightarrow> same_checker b c \<Longrightarrow> same_checker a c"
  by (auto simp: same_checker_def)

lemma same_checker_ops:
  "same_checker st (fst (net_GetStatus st now))" "same_checker st (fst (net_check st now err))" "same_checker st (net_success st)"
  by (auto simp: same_checker_def net_GetStatus_def GetStatus_def net_check_def net_success_def split: option.splits prod.splits)

lemma same_checker_pairs:
  "net_GetStatus st now = (st1, s) \<Longrightarrow> same_checker st st1" "net_check st now err = (st1, ok) \<Longrightarrow> same_checker st st1"
  using same_checker_ops(1) [of st now] same_checker_ops(2) [of st now err] by auto

lemma same_checker_try: "send_try v e attempt st = (st1, evs, r) \<Longrightarrow> same_checker st st1"
  unfolding send_try_def Let_def
  by (auto split: prod.splits if_splits option.splits do_outcome.splits dest!: same_checker_pairs
      intro: same_checker_trans same_checker_ops)

lemma same_checker_loop: "send_loop v env left attempt ra le st = (st1, evs, r) \<Longrightarrow> same_checker st st1"
proof (induction left arbitrary: attempt ra le st st1 evs r)
  case (Suc left)
  then show ?case
    by (auto simp: Let_def split: prod.splits if_splits try_result.splits dest: same_checker_try
        intro: same_checker_trans) (auto simp: same_checker_def)
qed (simp add: same_checker_def)

subsection \<open>Invariants\<close>

definition vendor_inv :: "HealthManager \<Rightarrow> Vendor \<Rightarrow> bool" where
  "vendor_inv m v \<longleftrightarrow> (case ns_checker (hm_net m v) of
     None \<Rightarrow> hm_phase m v = None \<and> hm_probes m v = []
   | Some h \<Rightarrow> remembers h (hm_probes m v) \<and> hm_phase m v \<noteq> None \<and> (hm_phase m v = Some Starting \<longleftrightarrow> hm_probes m v = []))"

lemma vendor_inv_same:
  assumes "vendor_inv m v" and "same_checker (hm_net m u) st"
  shows "vendor_inv (set_net m u st) v"
  using assms by (cases "u = v") (simp_all add: vendor_inv_def same_checker_def split: option.splits)

lemma vendor_inv_step:
  assumes "vendor_inv m v" and "hm_step m m'"
  shows "vendor_inv m' v"
  using assms(2)
proof cases
  case (registers u)
  with assms(1) remembers_new show ?thesis
    by (cases "u = v") (auto simp: vendor_inv_def hm_Register_def Let_def split: option.splits)
next
  case (first_check u now outcome)
  with assms(1) show ?thesis
    by (cases "u = v") (auto simp: vendor_inv_def hm_probe_def remembers_probe split: option.splits)
next
  case (ticks u now outcome)
  with assms(1) show ?thesis
    by (cases "u = v") (auto simp: vendor_inv_def hm_probe_def remembers_probe split: option.splits)
next
  case (leaves_loop u)
  with assms(1) show ?thesis by (cases "u = v") (auto simp: vendor_inv_def split: option.splits)
next
  case (asks_status u now)
  with assms(1) vendor_inv_same same_checker_ops(1) show ?thesis by blast
next
  case (sends u env st evs res)
  with assms(1) vendor_inv_same same_checker_loop show ?thesis unfolding SendWithRetry_def by blast
next
  case (succeeds u)
  with assms(1) vendor_inv_same same_checker_ops(3) show ?thesis by blast
qed (use assms(1) in \<open>simp_all add: vendor_inv_def hm_Stop_def checker_Stop_def split: option.splits\<close>)

text \<open>The machine seen from one vendor: its final states are those in which the goroutine has returned.\<close>

interpretation vendor_health: halting_machine "hm_init breakers" hm_step "\<lambda>m. vendor_inv m v"
  "\<lambda>m. hm_phase m v = Some Returned" "\<lambda>m. hm_probes m v"
proof
  show "hm_init breakers m \<Longrightarrow> vendor_inv m v" for m by (simp add: hm_init_def NewHealthManager_def vendor_inv_def)
  show "vendor_inv m v \<Longrightarrow> hm_step m m' \<Longrightarrow> vendor_inv m' v" for m m' by (rule vendor_inv_step)
  show "vendor_inv m v \<Longrightarrow> hm_phase m v = Some Returned \<Longrightarrow> hm_step m m' \<Longrightarrow> hm_phase m' v = Some Returned \<and> hm_probes m' v = hm_probes m v" for m m'
    by (erule hm_step.cases) (auto simp: hm_Register_def Let_def hm_probe_def hm_Stop_def checker_Stop_def vendor_inv_def split: option.splits)
qed

definition no_breakers :: "HealthManager \<Rightarrow> bool" where
  "no_breakers m \<longleftrightarrow> (\<forall>v. ns_breaker (hm_net m v) = None)"

lemma no_breakers_same: "no_breakers m \<Longrightarrow> same_checker (hm_net m v) st \<Longrightarrow> no_breakers (set_net m v st)"
  by (auto simp: no_breakers_def same_checker_def)

interpretation production: state_machine "hm_init Map.empty" hm_step no_breakers
proof
  show "hm_init Map.empty m \<Longrightarrow> no_breakers m" for m by (simp add: hm_init_def NewHealthManager_def no_breakers_def)
next
  fix m m' assume n: "no_breakers m" and "hm_step m m'"
  from this(2) show "no_breakers m'"
  proof cases
    case (asks_status v now)
    then show ?thesis using no_breakers_same [OF n same_checker_ops(1)] by simp
  next
    case (sends v env st evs res)
    then show ?thesis using no_breakers_same [OF n same_checker_loop] unfolding SendWithRetry_def by blast
  next
    case (succeeds v)
    then show ?thesis using no_breakers_same [OF n same_checker_ops(3)] by simp
  qed (use n probe_net_no_breaker in \<open>auto simp: no_breakers_def hm_Register_def hm_probe_def hm_Stop_def checker_Stop_def Let_def\<close>)
qed

subsection \<open>Properties\<close>

text \<open>C20: However probes, senders, status queries and stops interleave, the status of a vendor is what its last
  probe found: unknown before the first, healthy after a successful one, and otherwise unhealthy, which is
  reported as an open circuit exactly while the vendor's breaker refuses a request; the checker counts the
  failures since the last success and keeps the last error.\<close>

theorem health_status_is_last_probe:
  assumes "hm_reach breakers m" and "net_GetStatus (hm_net m v) now = (st, s)"
  shows "case hm_probes m v of
      [] \<Rightarrow> s = HealthUnknown
    | p # _ \<Rightarrow> (\<exists>h. ns_checker (hm_net m v) = Some h \<and> h_lastErr h = probe_err p
        \<and> h_consecutiveFailures h = length (takeWhile (\<lambda>p. probe_err p \<noteq> None) (hm_probes m v)))
      \<and> s = (if probe_err p = None then HealthHealthy
             else if ns_health_has_breaker (hm_net m v) \<and> \<not> snd (net_check (hm_net m v) now None) then HealthCircuitOpen
             else HealthUnhealthy)"
proof -
  have inv: "vendor_inv m v" by (rule vendor_health.reach_inv [OF assms(1)])
  show ?thesis
  proof (cases "ns_checker (hm_net m v)")
    case None
    with inv assms(2) show ?thesis by (auto simp: vendor_inv_def net_GetStatus_def GetStatus_def split: if_splits)
  next
    case (Some h)
    with inv have r: "remembers h (hm_probes m v)" by (simp add: vendor_inv_def)
    show ?thesis
    proof (cases "hm_probes m v")
      case Nil
      with r assms(2) Some show ?thesis by (auto simp: remembers_def net_GetStatus_def GetStatus_def split: if_splits)
    next
      case (Cons p ps)
      with r assms(2) Some show ?thesis
        by (auto simp: remembers_def net_GetStatus_def GetStatus_def net_check_def split: if_splits option.splits prod.splits)
    qed
  qed
qed

definition probed :: HealthManager where
  "probed = hm_probe (hm_Register (NewHealthManager Map.empty) VendorDeepSeek) VendorDeepSeek 5 (ProbeStatus 503)"

lemma probed_phase: "hm_phase probed VendorDeepSeek = Some Waiting"
  by (simp add: probed_def hm_probe_def)

lemma probed_reach: "hm_reach Map.empty probed"
proof -
  let ?m = "hm_Register (NewHealthManager Map.empty) VendorDeepSeek"
  have "hm_reach Map.empty (NewHealthManager Map.empty)" by (rule reach.start) (simp add: hm_init_def)
  then have "hm_reach Map.empty ?m" by (rule reach.move) (rule hm_step.registers)
  then show ?thesis unfolding probed_def
    by (rule reach.move) (rule hm_step.first_check, simp add: hm_Register_def NewHealthManager_def)
qed

theorem health_status_is_last_probe_witness: "snd (net_GetStatus (hm_net probed VendorDeepSeek) 7) = HealthUnhealthy"
proof -
  obtain st s where g: "net_GetStatus (hm_net probed VendorDeepSeek) 7 = (st, s)" by fastforce
  have p: "hm_probes probed VendorDeepSeek = [ProbeStatus 503]" "\<not> ns_health_has_breaker (hm_net probed VendorDeepSeek)"
    by (simp_all add: probed_def hm_probe_def hm_Register_def NewHealthManager_def)
  show ?thesis using health_status_is_last_probe [OF probed_reach g] g by (simp add: p)
qed



text \<open>No code of the program puts a breaker into the shared table, so in every state it can reach no vendor
  has one: the circuit is never reported as open and \<open>SendWithRetry\<close> never refuses a request for it.\<close>

theorem breaker_never_installed:
  assumes "hm_reach Map.empty m"
  shows "ns_breaker (hm_net m v) = None \<and> snd (net_GetStatus (hm_net m v) now) \<noteq> HealthCircuitOpen
    \<and> net_check (hm_net m v) now err = (hm_net m v, True)"
proof -
  have b: "ns_breaker (hm_net m v) = None" using production.reach_inv [OF assms] by (simp add: no_breakers_def)
  have "\<forall>h. ns_checker (hm_net m v) = Some h \<longrightarrow> h_status h \<noteq> HealthCircuitOpen"
    using vendor_health.reach_inv [OF assms, of v] by (auto simp: vendor_inv_def remembers_def split: list.splits if_splits)
  then have "snd (net_GetStatus (hm_net m v) now) \<noteq> HealthCircuitOpen"
    using b by (auto simp: net_GetStatus_def GetStatus_def split: option.splits)
  with b show ?thesis by (simp add: net_check_def)
qed

theorem breaker_never_installed_witness: "net_check (hm_net probed VendorDeepSeek) 7 None = (hm_net probed VendorDeepSeek, True)"
  using breaker_never_installed [OF probed_reach] by simp

end
