(* ===== verification/Stats.thy ===== *)
theory Stats
  imports ChatModel Telemetry Float64
begin

section \<open>Statistics for the user (protocol/telemetry.go, internal/adk/llm/bridge.go)\<close>

text \<open>
  After a call the server shows a line and a map with the duration, the model, the token counts and how much
  of the context window the prompt took. Durations and percentages are doubles, rounded for display as
  \<open>fmt\<close> rounds them (\<open>Float64\<close>).
\<close>

definition humanTok :: "int \<Rightarrow> string" where
  "humanTok n =
     (if n \<ge> 1000 * 1000 then (case float_quot (float64_of_uint (nat n)) (1000 * 1000) of (a, b) \<Rightarrow> fixed1 a b @ ''M'')
      else if n \<ge> 1000 then (case float_quot (float64_of_uint (nat n)) 1000 of (a, b) \<Rightarrow> fixed1 a b @ ''k'')
      else show_int n)"

definition telemetry_Last :: "Telemetry \<Rightarrow> CallRecord" where "telemetry_Last t = t_last t"

text \<open>\<open>%.0f\<close> of \<open>float64(n) * 100 / float64(maxCtx)\<close>; a negative quotient keeps its sign even if it rounds to zero.\<close>

definition pct_text :: "int \<Rightarrow> int \<Rightarrow> string" where
  "pct_text n maxCtx =
     (case float_quot (float64_of_uint (float64_of_uint (nat \<bar>n\<bar>) * 100)) (float64_of_uint (nat maxCtx)) of (a, b) \<Rightarrow>
       (if n < 0 then ''-'' else []) @ fixed0 a b)"

definition FormatLine :: "Telemetry \<Rightarrow> string \<Rightarrow> string" where
  "FormatLine t sep =
     (let r = telemetry_Last t; inTok = humanTok (cr_PromptTokens r); outTok = humanTok (cr_CompletionTokens r);
          maxCtx = ModelContextWindow (cr_Model r) in
      format_f0 (cr_Duration r) @ ''s'' @ sep @ cr_Model r
      @ (if inTok \<noteq> ''0'' \<or> outTok \<noteq> ''0'' then sep @ utf8 [0x2191] @ inTok @ sep @ utf8 [0x2193] @ outTok else [])
      @ (if maxCtx > 0 \<and> cr_PromptTokens r > 0
         then sep @ ''ctx '' @ humanTok (cr_PromptTokens r) @ ''/'' @ humanTok maxCtx @ '' '' @ pct_text (cr_PromptTokens r) maxCtx @ ''%''
         else []))"

definition FormatMap :: "Telemetry \<Rightarrow> (string \<times> gany) list" where
  "FormatMap t =
     (let r = telemetry_Last t; maxCtx = ModelContextWindow (cr_Model r) in
      [(''duration'', GStr (format_f0 (cr_Duration r) @ ''s'')), (''model'', GStr (cr_Model r)),
       (''in_tokens'', GInt (cr_PromptTokens r)), (''out_tokens'', GInt (cr_CompletionTokens r)),
       (''in_tokens_h'', GStr (humanTok (cr_PromptTokens r))), (''out_tokens_h'', GStr (humanTok (cr_CompletionTokens r)))]
      @ (if maxCtx > 0
         then [(''ctx_max'', GInt maxCtx), (''ctx_max_h'', GStr (humanTok maxCtx)),
               (''ctx_pct'', GStr (pct_text (cr_PromptTokens r) maxCtx @ ''%''))] else []))"

text \<open>The bridge's accessors; a protocol without telemetry is \<open>None\<close>. \<open>json.Marshal\<close> ignores errors here.\<close>

definition stats_sep :: string where "stats_sep = '' '' @ utf8 [0xB7] @ '' ''"

definition bridge_StatsLine :: "string \<Rightarrow> Telemetry option \<Rightarrow> string" where
  "bridge_StatsLine model tel = (case tel of None \<Rightarrow> model | Some t \<Rightarrow> FormatLine t stats_sep)"

definition bridge_StatsJSON :: "(gany \<Rightarrow> gerror + string) \<Rightarrow> Telemetry option \<Rightarrow> string" where
  "bridge_StatsJSON marshal tel = (case tel of
     None \<Rightarrow> []
   | Some t \<Rightarrow> (case marshal (GObj (FormatMap t)) of Inl _ \<Rightarrow> [] | Inr s \<Rightarrow> s))"

subsection \<open>Lemmas\<close>

text \<open>A token count is shown to the nearest tenth of its unit: the two roundings together are no worse than one.\<close>

lemma fixed1_unit:
  assumes n: "0 < n" "n < 2 ^ 52" and u: "u = 10 * v" "0 < v"
  shows "\<exists>d. (case float_quot n u of (a, b) \<Rightarrow> fixed1 a b) = show_nat (d div 10) @ ''.'' @ show_nat (d mod 10)
    \<and> 2 * \<bar>int (v * d) - int n\<bar> \<le> int v"
proof -
  have up: "0 < u" and lt: "n < u * 2 ^ 53" using n(2) u mult_le_mono1 [of 1 u "2 ^ 53"] by simp_all
  obtain m k where q: "float_quot n u = (m, 2 ^ k)" "u * 2 ^ 52 \<le> n * 2 ^ k" "m = round_half_even (n * 2 ^ k) u"
    by (rule float_quot_spec [OF n(1) up lt])
  define D :: nat where "D = 2 ^ k"
  define d where "d = round_half_even (10 * m) D"
  have D: "0 < D" by (simp add: D_def)
  have "n * D < 2 ^ 52 * D" using n(2) D by (rule mult_less_mono1)
  with q(2) have "u * 2 ^ 52 < D * 2 ^ 52" unfolding D_def by (metis le_less_trans mult.commute)
  then have uD: "u < D" using mult_less_cancel2 [of u "2 ^ 52" D] by blast
  have 1: "2 * \<bar>int m * int u - int n * int D\<bar> \<le> int u" using round_error [of u "n * 2 ^ k"] u q(3) by (simp add: D_def)
  have 2: "2 * \<bar>int d * int D - 10 * int m\<bar> \<le> int D" using round_error [OF D, of "10 * m"] by (simp add: d_def)
  have 3: "2 * \<bar>int v * (int d * int D - 10 * int m)\<bar> \<le> int v * int D"
    using mult_left_mono [OF 2, of "int v"] by (simp add: abs_mult mult.left_commute)
  have "(int (v * d) - int n) * int D = int v * (int d * int D - 10 * int m) + (int m * int u - int n * int D)"
    by (simp add: u(1) algebra_simps)
  moreover have "2 * \<bar>a\<bar> \<le> x \<Longrightarrow> 2 * \<bar>b\<bar> \<le> y \<Longrightarrow> 2 * \<bar>b + a\<bar> \<le> y + x" for a b x y :: int using abs_triangle_ineq [of b a] by (simp add: distrib_left)
  ultimately have "2 * \<bar>(int (v * d) - int n) * int D\<bar> \<le> int v * int D + int u" using 1 3 by presburger
  also have "\<dots> < (int v + 1) * int D" using uD by (simp add: algebra_simps)
  finally have "2 * \<bar>int (v * d) - int n\<bar> * int D < (int v + 1) * int D" by (simp add: abs_mult)
  then have "2 * \<bar>int (v * d) - int n\<bar> \<le> int v" using D by (simp add: mult_less_cancel_right)
  then show ?thesis by (intro exI [of _ d]) (simp add: q(1) fixed1_def d_def D_def Let_def)
qed

lemma ModelContextWindow_le: "ModelContextWindow model \<le> 524288"
proof -
  have "\<forall>(k, v) \<in> set model_table. v \<le> 524288" by (simp add: model_table_def)
  then have "map_of model_table model = Some v \<Longrightarrow> v \<le> 524288" for v by (auto dest!: map_of_SomeD)
  then show ?thesis by (auto simp: ModelContextWindow_def split: option.splits)
qed

subsection \<open>Properties\<close>

text \<open>A token count from a thousand up is shown in thousands or millions with one decimal, and what is shown
  is a nearest tenth of the unit: the quotient in double precision and its rounding for display do not add
  up to a visible error.\<close>

theorem human_tokens_accurate:
  assumes "1000 \<le> n" and "n < 2 ^ 52"
  shows "\<exists>d. humanTok n = show_nat (d div 10) @ ''.'' @ show_nat (d mod 10) @ (if n < 1000000 then ''k'' else ''M'')
    \<and> 2 * \<bar>(if n < 1000000 then 100 else 100000) * int d - n\<bar> \<le> (if n < 1000000 then 100 else 100000)"
proof -
  have e: "float64_of_uint (nat n) = nat n" using assms(2) by (intro float64_exact) simp
  have b: "0 < nat n" "nat n < 2 ^ 52" using assms by simp_all
  show ?thesis
  proof (cases "n < 1000000")
    case True
    obtain d where "(case float_quot (nat n) 1000 of (a, b) \<Rightarrow> fixed1 a b) = show_nat (d div 10) @ ''.'' @ show_nat (d mod 10)"
      "2 * \<bar>int (100 * d) - int (nat n)\<bar> \<le> int 100" using fixed1_unit [OF b, of 1000 100] by auto
    with True assms(1) e show ?thesis by (intro exI [of _ d]) (auto simp: humanTok_def split: prod.splits)
  next
    case False
    obtain d where "(case float_quot (nat n) 1000000 of (a, b) \<Rightarrow> fixed1 a b) = show_nat (d div 10) @ ''.'' @ show_nat (d mod 10)"
      "2 * \<bar>int (100000 * d) - int (nat n)\<bar> \<le> int 100000" using fixed1_unit [OF b, of 1000000 100000] by auto
    with False assms(1) e show ?thesis by (intro exI [of _ d]) (auto simp: humanTok_def split: prod.splits)
  qed
qed

theorem human_tokens_accurate_witness: "\<exists>d. humanTok 999999 = show_nat (d div 10) @ ''.'' @ show_nat (d mod 10) @ ''k'' \<and> \<bar>100 * int d - 999999\<bar> \<le> 50"
  using human_tokens_accurate [of 999999] by auto

text \<open>The percentage shown to the user and the one compared with the thresholds: for a prompt of less than
  \<open>2 ^ 45\<close> tokens the shown one is the compared one or one more, so a threshold that seems reached may not have
  fired, but never the other way round.\<close>

theorem shown_percent_vs_threshold:
  assumes "0 < n" and "n < 2 ^ 45"
  shows "\<exists>q. pct_text n (ModelContextWindow model) = show_nat q
    \<and> int q \<in> {context_pct n (ModelContextWindow model), context_pct n (ModelContextWindow model) + 1}"
proof -
  define M where "M = nat (ModelContextWindow model)"
  define N where "N = nat n * 100"
  define c where "c = N div M"
  have M: "0 < M" "M < 2 ^ 53" using ModelContextWindow_pos [of model] ModelContextWindow_le [of model] by (simp_all add: M_def)
  have N: "0 < N" "N < 2 ^ 53" using assms by (auto simp: N_def) 
  have e: "float64_of_uint (float64_of_uint (nat n) * 100) = N" "float64_of_uint M = M"
    using float64_exact [of "nat n"] float64_exact [OF N(2)] float64_exact [OF M(2)] assms by (simp_all add: N_def)
  have lt: "N < M * 2 ^ 53" using N(2) mult_le_mono1 [of 1 M "2 ^ 53"] M(1) by simp
  obtain m k where q: "float_quot N M = (m, 2 ^ k)" "m = round_half_even (N * 2 ^ k) M"
    by (rule float_quot_spec [OF N(1) M(1) lt])
  have cN: "c * M \<le> N" "N < (c + 1) * M" using M(1) by (simp_all add: c_def dividend_less_div_times)
  have "c * 2 ^ k \<le> m" unfolding q(2) using M(1) cN(1) by (intro round_ge) (simp_all add: mult.commute mult.left_commute)
  moreover have "N * 2 ^ k \<le> (c + 1) * 2 ^ k * M"
    using mult_le_mono1 [OF less_imp_le [OF cN(2)], of "2 ^ k"] by (metis mult.commute mult.left_commute)
  then have "m \<le> (c + 1) * 2 ^ k" unfolding q(2) by (intro round_le M(1))
  ultimately have "c \<le> round_half_even m (2 ^ k)" "round_half_even m (2 ^ k) \<le> c + 1" by (simp_all add: round_ge round_le)
  moreover have "int c = context_pct n (ModelContextWindow model)"
    using assms ModelContextWindow_pos [of model] by (simp add: context_pct_eq c_def N_def M_def zdiv_int)
  ultimately show ?thesis using assms e q(1)
    by (intro exI [of _ "round_half_even m (2 ^ k)"]) (auto simp: pct_text_def fixed0_def M_def)
qed

theorem shown_percent_vs_threshold_witness:
  "\<exists>q. pct_text 104333 (ModelContextWindow ''gpt-4o'') = show_nat q
    \<and> int q \<in> {context_pct 104333 (ModelContextWindow ''gpt-4o''), context_pct 104333 (ModelContextWindow ''gpt-4o'') + 1}"
  by (rule shown_percent_vs_threshold) simp_all

end
