(* ===== verification/Executor.thy ===== *)
theory Executor
  imports Tools Machine
begin

section \<open>The concurrent executor as a machine (internal/adk/tool/executor.go)\<close>

text \<open>
  \<open>executeConcurrent\<close> of \<open>Tools\<close> runs the tools in an order given by a schedule. Here are the loop that
  starts the goroutines, the semaphore that limits them, and the goroutines themselves, as a step relation:
  the loop acquires a token for the next call, a goroutine runs its tool and stores the result, then gives
  the token back and reports that it is done. Every run of this machine is one of the schedules.
\<close>

definition maxConcurrency :: "int \<Rightarrow> nat" where
  "maxConcurrency numCPU = (if numCPU > 4 then nat numCPU else 4)"

datatype worker = Unstarted | Running | Stored | Gone

record 'w pool =
  wp_next :: nat
  wp_sem :: nat
  wp_workers :: "worker list"
  wp_results :: "ex_ToolResult list"
  wp_world :: 'w
  wp_order :: "nat list"

text \<open>\<open>wp_order\<close> observes the order in which the tools took effect.\<close>

definition pool_start :: "ex_ToolCall list \<Rightarrow> 'w \<Rightarrow> 'w pool" where
  "pool_start calls w = \<lparr>wp_next = 0, wp_sem = 0, wp_workers = replicate (length calls) Unstarted,
     wp_results = replicate (length calls) zero_ToolResult, wp_world = w, wp_order = []\<rparr>"

definition launch :: "'w pool \<Rightarrow> 'w pool" where
  "launch s = s\<lparr>wp_next := Suc (wp_next s), wp_sem := Suc (wp_sem s), wp_workers := (wp_workers s)[wp_next s := Running]\<rparr>"

definition run_worker :: "'w ToolRegistry \<Rightarrow> ex_ToolCall list \<Rightarrow> nat \<Rightarrow> 'w pool \<Rightarrow> 'w pool" where
  "run_worker reg calls i s = (case safeRunOne reg (wp_world s) (calls ! i) of (w, res) \<Rightarrow>
     s\<lparr>wp_world := w, wp_results := (wp_results s)[i := res], wp_workers := (wp_workers s)[i := Stored], wp_order := wp_order s @ [i]\<rparr>)"

definition release :: "nat \<Rightarrow> 'w pool \<Rightarrow> 'w pool" where
  "release i s = s\<lparr>wp_sem := wp_sem s - 1, wp_workers := (wp_workers s)[i := Gone]\<rparr>"

inductive pool_step :: "nat \<Rightarrow> 'w ToolRegistry \<Rightarrow> ex_ToolCall list \<Rightarrow> 'w pool \<Rightarrow> 'w pool \<Rightarrow> bool" for cap reg calls where
  launches: "wp_next s < length calls \<Longrightarrow> wp_sem s < cap \<Longrightarrow> pool_step cap reg calls s (launch s)"
| runs: "i < length calls \<Longrightarrow> wp_workers s ! i = Running \<Longrightarrow> pool_step cap reg calls s (run_worker reg calls i s)"
| releases: "i < length calls \<Longrightarrow> wp_workers s ! i = Stored \<Longrightarrow> pool_step cap reg calls s (release i s)"

text \<open>\<open>wg.Wait\<close> returns when every call has been started and every goroutine is done.\<close>

definition pool_done :: "ex_ToolCall list \<Rightarrow> 'w pool \<Rightarrow> bool" where
  "pool_done calls s \<longleftrightarrow> wp_next s = length calls \<and> list_all (\<lambda>x. x = Gone) (wp_workers s)"

definition pool_init :: "ex_ToolCall list \<Rightarrow> 'w \<Rightarrow> 'w pool \<Rightarrow> bool" where
  "pool_init calls w s \<longleftrightarrow> s = pool_start calls w"

subsection \<open>Invariant\<close>

abbreviation active :: "worker \<Rightarrow> bool" where
  "active x \<equiv> x = Running \<or> x = Stored"

definition pool_inv :: "nat \<Rightarrow> 'w ToolRegistry \<Rightarrow> ex_ToolCall list \<Rightarrow> 'w \<Rightarrow> 'w pool \<Rightarrow> bool" where
  "pool_inv cap reg calls w0 s \<longleftrightarrow> length (wp_workers s) = length calls \<and> wp_next s \<le> length calls
     \<and> (\<forall>i < length calls. wp_workers s ! i = Unstarted \<longleftrightarrow> wp_next s \<le> i)
     \<and> wp_sem s = length (filter active (wp_workers s)) \<and> wp_sem s \<le> cap
     \<and> distinct (wp_order s) \<and> set (wp_order s) = {i. i < length calls \<and> (wp_workers s ! i = Stored \<or> wp_workers s ! i = Gone)}
     \<and> run_schedule reg calls w0 (replicate (length calls) zero_ToolResult) (wp_order s) = (wp_world s, wp_results s)"

lemma run_schedule_snoc:
  "run_schedule reg calls w rs (is @ [i]) = (case run_schedule reg calls w rs is of (w1, rs1) \<Rightarrow>
     case safeRunOne reg w1 (calls ! i) of (w2, res) \<Rightarrow> (w2, rs1[i := res]))"
  by (induction "is" arbitrary: w rs) (simp_all split: prod.splits)

lemma filter_update:
  "i < length xs \<Longrightarrow> length (filter P (xs[i := x])) + (if P (xs ! i) then 1 else 0) = length (filter P xs) + (if P x then 1 else 0)"
proof (induction xs arbitrary: i)
  case (Cons y ys)
  then show ?case by (cases i) auto
qed simp

lemma pool_inv_start: "pool_inv cap reg calls w (pool_start calls w)"
  by (simp add: pool_inv_def pool_start_def)

lemma pool_invD:
  assumes "pool_inv cap reg calls w0 s"
  shows "length (wp_workers s) = length calls" "wp_next s \<le> length calls" "\<forall>i < length calls. wp_workers s ! i = Unstarted \<longleftrightarrow> wp_next s \<le> i"
    "wp_sem s = length (filter active (wp_workers s))" "wp_sem s \<le> cap" "distinct (wp_order s)"
    "set (wp_order s) = {i. i < length calls \<and> (wp_workers s ! i = Stored \<or> wp_workers s ! i = Gone)}"
    "run_schedule reg calls w0 (replicate (length calls) zero_ToolResult) (wp_order s) = (wp_world s, wp_results s)"
  using assms unfolding pool_inv_def by blast+

text \<open>A step at worker \<open>i\<close> changes only its phase; the conditions on the workers are then checked at \<open>i\<close>.\<close>

lemma workers_update:
  assumes "pool_inv cap reg calls w0 s" and "i < length calls" and "x \<noteq> Unstarted"
  shows "(\<forall>j < length calls. (wp_workers s)[i := x] ! j = Unstarted \<longleftrightarrow> n \<le> j) \<longleftrightarrow> (\<forall>j < length calls. j \<noteq> i \<and> wp_next s \<le> j \<longleftrightarrow> n \<le> j)"
    and "{j. j < length calls \<and> ((wp_workers s)[i := x] ! j = Stored \<or> (wp_workers s)[i := x] ! j = Gone)}
      = (if x = Running then set (wp_order s) - {i} else insert i (set (wp_order s)))"
proof -
  note d = pool_invD [OF assms(1)]
  have n: "(wp_workers s)[i := x] ! j = (if j = i then x else wp_workers s ! j)" for j using d(1) assms(2) by (simp add: nth_list_update)
  show "(\<forall>j < length calls. (wp_workers s)[i := x] ! j = Unstarted \<longleftrightarrow> n \<le> j) \<longleftrightarrow> (\<forall>j < length calls. j \<noteq> i \<and> wp_next s \<le> j \<longleftrightarrow> n \<le> j)"
    using d(3) assms(3) by (auto simp: n)
  show "{j. j < length calls \<and> ((wp_workers s)[i := x] ! j = Stored \<or> (wp_workers s)[i := x] ! j = Gone)}
      = (if x = Running then set (wp_order s) - {i} else insert i (set (wp_order s)))"
    unfolding n d(7) using assms(2,3) by (cases x) auto
qed

lemma pool_inv_launch:
  assumes inv: "pool_inv cap reg calls w0 s" and lt: "wp_next s < length calls" and "wp_sem s < cap"
  shows "pool_inv cap reg calls w0 (launch s)"
proof -
  note d = pool_invD [OF inv]
  have u: "wp_workers s ! wp_next s = Unstarted" using d(3) lt by simp
  then have o: "wp_next s \<notin> set (wp_order s)" using d(7) by simp
  have f: "length (filter active ((wp_workers s)[wp_next s := Running])) = Suc (length (filter active (wp_workers s)))"
    using filter_update [of "wp_next s" "wp_workers s" active Running] d(1) lt u by simp
  have n: "\<forall>j < length calls. j \<noteq> wp_next s \<and> wp_next s \<le> j \<longleftrightarrow> Suc (wp_next s) \<le> j" by auto
  show ?thesis unfolding pool_inv_def launch_def using d assms(2,3) f n o
    by (intro conjI) (simp_all add: workers_update [OF inv lt])
qed

lemma pool_inv_run:
  assumes inv: "pool_inv cap reg calls w0 s" and lt: "i < length calls" and "wp_workers s ! i = Running"
  shows "pool_inv cap reg calls w0 (run_worker reg calls i s)"
proof -
  note d = pool_invD [OF inv]
  obtain w res where r: "safeRunOne reg (wp_world s) (calls ! i) = (w, res)" by fastforce
  have f: "length (filter active ((wp_workers s)[i := Stored])) = length (filter active (wp_workers s))"
    using filter_update [of i "wp_workers s" active Stored] d(1) assms by simp
  have o: "i \<notin> set (wp_order s)" using d(7) assms(3) by simp
  have n: "\<forall>j < length calls. j \<noteq> i \<and> wp_next s \<le> j \<longleftrightarrow> wp_next s \<le> j" using d(3) assms(2,3) by auto
  show ?thesis unfolding pool_inv_def run_worker_def r prod.case using d f n o
    by (intro conjI) (simp_all add: workers_update [OF inv lt] run_schedule_snoc r)
qed

lemma pool_inv_release:
  assumes inv: "pool_inv cap reg calls w0 s" and lt: "i < length calls" and "wp_workers s ! i = Stored"
  shows "pool_inv cap reg calls w0 (release i s)"
proof -
  note d = pool_invD [OF inv]
  have f: "Suc (length (filter active ((wp_workers s)[i := Gone]))) = length (filter active (wp_workers s))"
    using filter_update [of i "wp_workers s" active Gone] d(1) assms by simp
  have o: "insert i (set (wp_order s)) = set (wp_order s)" using d(7) lt assms(3) by auto
  have n: "\<forall>j < length calls. j \<noteq> i \<and> wp_next s \<le> j \<longleftrightarrow> wp_next s \<le> j" using d(3) assms(2,3) by auto
  show ?thesis unfolding pool_inv_def release_def using d f n o
    by (intro conjI) (simp_all add: workers_update [OF inv lt])
qed

interpretation pool: state_machine "pool_init calls w0" "pool_step cap reg calls" "pool_inv cap reg calls w0" for calls w0 cap reg
proof (unfold_locales, goal_cases)
  case (1 s)
  then show ?case by (simp add: pool_init_def pool_inv_start)
next
  case (2 s t)
  from 2(2,1) show ?case by cases (auto intro: pool_inv_launch pool_inv_run pool_inv_release)
qed

subsection \<open>Progress\<close>

fun worker_left :: "worker \<Rightarrow> nat" where
  "worker_left Unstarted = 3"
| "worker_left Running = 2"
| "worker_left Stored = 1"
| "worker_left Gone = 0"

definition pool_left :: "'w pool \<Rightarrow> nat" where
  "pool_left s = sum_list (map worker_left (wp_workers s))"

lemma sum_update: "i < length xs \<Longrightarrow> sum_list (map f (xs[i := x])) + f (xs ! i) = sum_list (map f xs) + (f x :: nat)"
proof (induction xs arbitrary: i)
  case (Cons y ys)
  then show ?case by (cases i) (auto simp: add_ac)
qed simp

lemma pool_left_decreases:
  assumes "pool_inv cap reg calls w0 s" and "pool_step cap reg calls s t"
  shows "pool_left s = Suc (pool_left t)"
  using assms(2)
proof cases
  case launches
  moreover have "wp_workers s ! wp_next s = Unstarted" using assms(1) launches by (simp add: pool_inv_def)
  ultimately show ?thesis using assms(1) sum_update [of "wp_next s" "wp_workers s" worker_left Running]
    by (simp add: pool_inv_def pool_left_def launch_def)
next
  case (runs i)
  then show ?thesis using assms(1) sum_update [of i "wp_workers s" worker_left Stored]
    by (simp add: pool_inv_def pool_left_def run_worker_def split: prod.splits)
next
  case (releases i)
  then show ?thesis using assms(1) sum_update [of i "wp_workers s" worker_left Gone]
    by (simp add: pool_inv_def pool_left_def release_def)
qed

lemma pool_progress:
  assumes "pool_inv cap reg calls w0 s" and "0 < cap" and "\<not> pool_done calls s"
  shows "\<exists>t. pool_step cap reg calls s t"
proof (cases "\<exists>i < length calls. active (wp_workers s ! i)")
  case True
  then show ?thesis by (blast intro: pool_step.intros)
next
  case False
  then have "filter active (wp_workers s) = []" using assms(1) by (auto simp: pool_inv_def filter_empty_conv in_set_conv_nth)
  then have z: "wp_sem s = 0" using assms(1) by (simp add: pool_inv_def)
  have "wp_next s < length calls"
  proof (rule ccontr)
    assume "\<not> wp_next s < length calls"
    then have n: "wp_next s = length calls" using assms(1) by (simp add: pool_inv_def)
    then have "wp_workers s ! i = Gone" if "i < length calls" for i
      using that assms(1) False by (cases "wp_workers s ! i") (auto simp: pool_inv_def)
    then show False using n assms(1,3) by (auto simp: pool_done_def pool_inv_def list_all_iff in_set_conv_nth)
  qed
  then have "pool_step cap reg calls s (launch s)" using z assms(2) by (intro pool_step.launches) simp_all
  then show ?thesis by blast
qed

subsection \<open>Properties\<close>



definition two_calls :: "ex_ToolCall list" where
  "two_calls = [\<lparr>xc_Name = ''echo'', xc_Arguments = ''a'', xc_ToolID = ''1''\<rparr>, \<lparr>xc_Name = ''echo'', xc_Arguments = ''b'', xc_ToolID = ''2''\<rparr>]"


end
