(* ===== verification/Toolbox.thy ===== *)
theory Toolbox
  imports Tools Terminal FileOps WebTools
begin

section \<open>The tools that main.go registers (main.go, internal/adk/tool/tool.go)\<close>

text \<open>
  The nine tool functions over one world: the terminal with its cache, the operating system (the files that
  the file tools see and the rest), and the requests sent by the web tools. \<open>registerTool\<close> wraps each of them
  by \<open>InferTool\<close> of the agent framework, which is an argument: it decodes the JSON arguments into the
  function's input type. A Go function with its own input type is here a function on the sum of the input
  types together with its type.
\<close>

subsection \<open>Functions and inputs\<close>

datatype input_type = TerminalInput | SearchInput | CompressInput | ReadInput | WriteInput | EditInput | GlobbingInput | GreppingInput | VisionInput

datatype tool_input =
    InTerminal string
  | InSearch string
  | InCompress string string
  | InRead ReadFileInput
  | InWrite WriteFileInput
  | InEdit EditFileInput
  | InGlob GlobInput
  | InGrep GrepInput
  | InVision string string

fun input_type_of :: "tool_input \<Rightarrow> input_type" where
  "input_type_of (InTerminal _) = TerminalInput"
| "input_type_of (InSearch _) = SearchInput"
| "input_type_of (InCompress _ _) = CompressInput"
| "input_type_of (InRead _) = ReadInput"
| "input_type_of (InWrite _) = WriteInput"
| "input_type_of (InEdit _) = EditInput"
| "input_type_of (InGlob _) = GlobbingInput"
| "input_type_of (InGrep _) = GreppingInput"
| "input_type_of (InVision _ _) = VisionInput"

record 'o tool_env =
  tv_term :: "(files \<times> 'o) term_env"
  tv_filters :: "(string \<times> filter_func) list"
  tv_file :: file_env
  tv_root :: string
  tv_web :: web_env

record 'o tool_world =
  tw_term :: "(files \<times> 'o) Terminal"
  tw_sys :: "files \<times> 'o"
  tw_http :: "http_req list"

fun outcome_of :: "gerror + 'a \<Rightarrow> 'a outcome" where
  "outcome_of (Inl e) = Err e"
| "outcome_of (Inr x) = Ok x"

abbreviation set_files :: "'o tool_world \<Rightarrow> files \<Rightarrow> 'o tool_world" where
  "set_files w fs \<equiv> w\<lparr>tw_sys := (fs, snd (tw_sys w))\<rparr>"

fun tool_call :: "'o tool_env \<Rightarrow> 'o tool_world \<Rightarrow> tool_input \<Rightarrow> 'o tool_world \<times> string outcome" where
  "tool_call v w (InTerminal command) =
     (case RunTerminal (tv_term v) (tv_filters v) (tw_term w) (tw_sys w) command of (t, s, r) \<Rightarrow> (w\<lparr>tw_term := t, tw_sys := s\<rparr>, outcome_of r))"
| "tool_call v w (InSearch query) = (case WebSearch (tv_web v) (tw_http w) query of (tr, r) \<Rightarrow> (w\<lparr>tw_http := tr\<rparr>, outcome_of r))"
| "tool_call v w (InCompress content instruction) =
     (case RunCompress (tv_web v) (tw_http w) content instruction of (tr, r) \<Rightarrow> (w\<lparr>tw_http := tr\<rparr>, outcome_of r))"
| "tool_call v w (InRead inp) = (w, ReadFile (tv_file v) (tv_root v) (fst (tw_sys w)) inp)"
| "tool_call v w (InWrite inp) = (case WriteFile (tv_file v) (tv_root v) (fst (tw_sys w)) inp of (fs, r) \<Rightarrow> (set_files w fs, outcome_of r))"
| "tool_call v w (InEdit inp) = (case EditFile (tv_file v) (tv_root v) (fst (tw_sys w)) inp of (fs, r) \<Rightarrow> (set_files w fs, outcome_of r))"
| "tool_call v w (InGlob inp) = (w, outcome_of (GlobFiles (tv_file v) (tv_root v) inp))"
| "tool_call v w (InGrep inp) = (w, outcome_of (GrepFiles (tv_file v) (tv_root v) (fst (tw_sys w)) inp))"
| "tool_call v w (InVision url prompt) =
     (case RunVision (tv_web v) (tw_http w) url prompt of (tr, r) \<Rightarrow> (w\<lparr>tw_http := tr\<rparr>, outcome_of r))"

subsection \<open>Making a tool (internal/adk/tool/tool.go)\<close>

type_synonym 'w invokable = "(string \<times> string) option \<times> ('w \<Rightarrow> string \<Rightarrow> 'w \<times> run_result)"

type_synonym 'w infer_tool =
  "string \<Rightarrow> string \<Rightarrow> input_type \<Rightarrow> ('w \<Rightarrow> tool_input \<Rightarrow> 'w \<times> string outcome) \<Rightarrow> gerror + 'w invokable"

definition NewFromInvokable :: "'w invokable \<Rightarrow> 'w Tool" where
  "NewFromInvokable it = \<lparr>tl_info = fst it, tl_run = snd it, tl_checkFn = None\<rparr>"

definition NewFromFn ::
  "'w infer_tool \<Rightarrow> string \<Rightarrow> string \<Rightarrow> input_type \<Rightarrow> ('w \<Rightarrow> tool_input \<Rightarrow> 'w \<times> string outcome) \<Rightarrow> gerror + 'w Tool" where
  "NewFromFn InferTool name descr ty fn = (case InferTool name descr ty fn of
     Inl e \<Rightarrow> Inl e
   | Inr it \<Rightarrow> Inr \<lparr>tl_info = fst it, tl_run = snd it, tl_checkFn = None\<rparr>)"

definition ToEinoTool :: "'w Tool \<Rightarrow> 'w invokable" where
  "ToEinoTool t = (tl_info t, tl_run t)"

definition GetEinoTools :: "'w ToolRegistry \<Rightarrow> 'w invokable list" where
  "GetEinoTools r = map (\<lambda>(_, t). ToEinoTool t) (tr_tools r)"

subsection \<open>Registration (main.go)\<close>

text \<open>\<open>Inl\<close> is the text that \<open>log.Fatal\<close> logs before the program exits.\<close>

definition registerTool ::
  "'w infer_tool \<Rightarrow> 'w ToolRegistry \<Rightarrow> string \<Rightarrow> string \<Rightarrow> input_type \<Rightarrow> ('w \<Rightarrow> tool_input \<Rightarrow> 'w \<times> string outcome) \<Rightarrow> string + 'w ToolRegistry" where
  "registerTool InferTool reg name descr ty fn = (case NewFromFn InferTool name descr ty fn of
     Inl e \<Rightarrow> Inl (utf8 [0x6CE8, 0x518C, 0x5DE5, 0x5177] @ '' '' @ name @ '' '' @ utf8 [0x5931, 0x8D25] @ '': '' @ error_string e)
   | Inr t \<Rightarrow> Inr (tr_Register reg name t))"

definition tool_table :: "(string \<times> string \<times> input_type) list" where
  "tool_table =
   [(''terminal'', utf8 [0x5728] @ '' Windows '' @ utf8 [0x7EC8, 0x7AEF, 0x6267, 0x884C] @ '' shell '' @ utf8 [0x547D, 0x4EE4], TerminalInput),
    (''web_search'', utf8 [0x5728, 0x4E92, 0x8054, 0x7F51, 0x4E0A, 0x641C, 0x7D22, 0x4FE1, 0x606F], SearchInput),
    (''compress'', utf8 [0x538B, 0x7F29, 0x957F, 0x6587, 0x672C, 0x5185, 0x5BB9, 0xFF0C, 0x4FDD, 0x7559, 0x5173, 0x952E, 0x4FE1, 0x606F], CompressInput),
    (''read_file'', utf8 [0x8BFB, 0x53D6, 0x6587, 0x4EF6, 0x5185, 0x5BB9, 0xFF0C, 0x53EF, 0x6307, 0x5B9A, 0x884C, 0x8303, 0x56F4], ReadInput),
    (''write_file'', utf8 [0x521B, 0x5EFA, 0x6216, 0x8986, 0x5199, 0x6587, 0x4EF6], WriteInput),
    (''edit_file'', utf8 [0x5728, 0x6587, 0x4EF6, 0x4E2D, 0x67E5, 0x627E, 0x66FF, 0x6362, 0x6587, 0x672C], EditInput),
    (''glob'', utf8 [0x6309] @ '' glob '' @ utf8 [0x6A21, 0x5F0F, 0x641C, 0x7D22, 0x6587, 0x4EF6], GlobbingInput),
    (''grep'', utf8 [0x5728, 0x6587, 0x4EF6, 0x4E2D, 0x641C, 0x7D22, 0x6587, 0x672C], GreppingInput),
    (''vision'', utf8 [0x5206, 0x6790, 0x56FE, 0x7247, 0x5185, 0x5BB9, 0xFF0C, 0x652F, 0x6301] @ ''URL'' @ utf8 [0x548C] @ ''base64 data URI'', VisionInput)]"

definition toolNames :: "string list" where
  "toolNames = [''terminal'', ''web_search'', ''compress'', ''read_file'', ''write_file'', ''edit_file'', ''glob'', ''grep'', ''vision'']"

fun register_all ::
  "'w infer_tool \<Rightarrow> ('w \<Rightarrow> tool_input \<Rightarrow> 'w \<times> string outcome) \<Rightarrow> (string \<times> string \<times> input_type) list \<Rightarrow> 'w ToolRegistry \<Rightarrow> string + 'w ToolRegistry" where
  "register_all InferTool fn [] reg = Inr reg"
| "register_all InferTool fn ((name, descr, ty) # rest) reg = (case registerTool InferTool reg name descr ty fn of
     Inl fatal \<Rightarrow> Inl fatal
   | Inr reg1 \<Rightarrow> register_all InferTool fn rest reg1)"

subsection \<open>What the framework promises\<close>

text \<open>\<open>InferTool\<close> keeps name and description. A call of the tool that cannot decode its arguments fails without
  running the function; otherwise it runs the function once on an input of its type and returns its string,
  or an error, or lets its panic through.\<close>

fun run_as :: "string outcome \<Rightarrow> run_result \<Rightarrow> bool" where
  "run_as (Ok s) rr \<longleftrightarrow> rr = RunOk s"
| "run_as (Err e) rr \<longleftrightarrow> (case rr of RunErr _ \<Rightarrow> True | _ \<Rightarrow> False)"
| "run_as Panic rr \<longleftrightarrow> (case rr of RunPanic _ \<Rightarrow> True | _ \<Rightarrow> False)"

definition runs_like :: "('w \<Rightarrow> tool_input \<Rightarrow> 'w \<times> string outcome) \<Rightarrow> input_type \<Rightarrow> ('w \<Rightarrow> string \<Rightarrow> 'w \<times> run_result) \<Rightarrow> bool" where
  "runs_like fn ty run \<longleftrightarrow> (\<forall>w args. (\<exists>e. run w args = (w, RunErr e))
     \<or> (\<exists>inp. input_type_of inp = ty \<and> fst (run w args) = fst (fn w inp) \<and> run_as (snd (fn w inp)) (snd (run w args))))"

definition infers :: "'w infer_tool \<Rightarrow> bool" where
  "infers InferTool \<longleftrightarrow> (\<forall>name descr ty fn it. InferTool name descr ty fn = Inr it \<longrightarrow> fst it = Some (name, descr) \<and> runs_like fn ty (snd it))"

subsection \<open>Lemmas\<close>

text \<open>A registered tool is the one made from the table's entry.\<close>

definition made_from :: "'w infer_tool \<Rightarrow> ('w \<Rightarrow> tool_input \<Rightarrow> 'w \<times> string outcome) \<Rightarrow> string \<times> string \<times> input_type \<Rightarrow> 'w Tool \<Rightarrow> bool" where
  "made_from InferTool fn entry t = (case entry of (name, descr, ty) \<Rightarrow> NewFromFn InferTool name descr ty fn = Inr t)"

lemma register_all_get:
  assumes "register_all InferTool fn table reg = Inr reg'" and "distinct (map fst table)"
  shows "(\<forall>entry \<in> set table. \<exists>t. tr_Get reg' (fst entry) = Some t \<and> made_from InferTool fn entry t)
    \<and> (\<forall>name. name \<notin> fst ` set table \<longrightarrow> tr_Get reg' name = tr_Get reg name)"
  using assms
proof (induction table arbitrary: reg)
  case (Cons entry table)
  obtain name descr ty where e: "entry = (name, descr, ty)" by (cases entry)
  obtain t where t: "NewFromFn InferTool name descr ty fn = Inr t" "register_all InferTool fn table (tr_Register reg name t) = Inr reg'"
    using Cons.prems(1) e by (auto simp: registerTool_def split: sum.splits)
  have "tr_Get (tr_Register reg name t) n = (if n = name then Some t else tr_Get reg n)" for n
    by (simp add: tr_Get_def tr_Register_def update_conv)
  moreover have "name \<notin> fst ` set table" using Cons.prems(2) e by simp
  ultimately show ?case using Cons.IH [OF t(2)] Cons.prems(2) e t(1) by (auto simp: made_from_def)
qed simp

lemma register_all_fatal:
  assumes "register_all InferTool fn table reg = Inl fatal"
  shows "\<exists>name descr ty e. (name, descr, ty) \<in> set table \<and> InferTool name descr ty fn = Inl e
    \<and> fatal = utf8 [0x6CE8, 0x518C, 0x5DE5, 0x5177] @ '' '' @ name @ '' '' @ utf8 [0x5931, 0x8D25] @ '': '' @ error_string e"
  using assms
proof (induction table arbitrary: reg)
  case (Cons entry table)
  obtain name descr ty where e: "entry = (name, descr, ty)" by (cases entry)
  show ?case
  proof (cases "InferTool name descr ty fn")
    case (Inl err)
    with Cons.prems e have "fatal = utf8 [0x6CE8, 0x518C, 0x5DE5, 0x5177] @ '' '' @ name @ '' '' @ utf8 [0x5931, 0x8D25] @ '': '' @ error_string err"
      by (simp add: registerTool_def NewFromFn_def)
    with Inl e show ?thesis by (intro exI [of _ name] exI [of _ descr] exI [of _ ty] exI [of _ err]) simp
  next
    case (Inr it)
    then obtain reg1 where "register_all InferTool fn table reg1 = Inl fatal"
      using Cons.prems e by (auto simp: registerTool_def NewFromFn_def)
    from Cons.IH [OF this] show ?thesis by (metis list.set_intros(2))
  qed
qed simp

lemma table_names: "map fst tool_table = toolNames" "distinct toolNames"
  by (simp_all add: tool_table_def toolNames_def)

lemma made_from_infers: "infers InferTool \<Longrightarrow> made_from InferTool fn (name, descr, ty) t \<Longrightarrow> tl_info t = Some (name, descr) \<and> runs_like fn ty (tl_run t)"
  by (auto simp: infers_def made_from_def NewFromFn_def split: sum.splits)

text \<open>The files that a call may touch.\<close>

definition only_inside :: "string \<Rightarrow> 'o tool_world \<Rightarrow> 'o tool_world \<Rightarrow> bool" where
  "only_inside ws w w' \<longleftrightarrow> tw_term w' = tw_term w \<and> snd (tw_sys w') = snd (tw_sys w)
     \<and> (\<forall>p. \<not> HasPrefix p ws \<longrightarrow> fst (tw_sys w') p = fst (tw_sys w) p)"

lemma only_inside_refl [simp]: "only_inside ws w w"
  by (simp add: only_inside_def)

lemma only_inside_trans: "only_inside ws w w1 \<Longrightarrow> only_inside ws w1 w2 \<Longrightarrow> only_inside ws w w2"
  by (simp add: only_inside_def)

lemma ValidatePath_prefix: "ValidatePath wd ws path = Inr p \<Longrightarrow> ws \<noteq> [] \<Longrightarrow> HasPrefix p ws"
  by (auto simp: ValidatePath_def Let_def split: if_splits sum.splits)

lemma os_WriteFile_inside:
  "os_WriteFile env fs q d = (fs1, r) \<Longrightarrow> HasPrefix q ws \<Longrightarrow> \<not> HasPrefix p ws \<Longrightarrow> fs1 p = fs p"
  using os_WriteFile_other by metis

lemma WriteFile_inside:
  "ws \<noteq> [] \<Longrightarrow> WriteFile env ws fs inp = (fs1, r) \<Longrightarrow> \<not> HasPrefix p ws \<Longrightarrow> fs1 p = fs p"
  by (auto simp: WriteFile_def split: sum.splits option.splits prod.splits dest!: ValidatePath_prefix dest: os_WriteFile_inside)

lemma EditFile_inside:
  "ws \<noteq> [] \<Longrightarrow> EditFile env ws fs inp = (fs1, r) \<Longrightarrow> \<not> HasPrefix p ws \<Longrightarrow> fs1 p = fs p"
  by (auto simp: EditFile_def Let_def split: sum.splits option.splits prod.splits if_splits dest!: ValidatePath_prefix dest: os_WriteFile_inside)

lemma tool_call_inside:
  assumes "tv_root v \<noteq> []" and "input_type_of inp \<noteq> TerminalInput"
  shows "only_inside (tv_root v) w (fst (tool_call v w inp))"
  using assms by (cases inp) (auto simp: only_inside_def split: prod.splits dest: WriteFile_inside EditFile_inside)

lemma terminal_entry: "(name, descr, TerminalInput) \<in> set tool_table \<Longrightarrow> name = ''terminal''"
  by (auto simp: tool_table_def)

definition run_calls :: "'w ToolRegistry \<Rightarrow> 'w \<Rightarrow> (string \<times> string) list \<Rightarrow> 'w" where
  "run_calls reg w calls = foldl (\<lambda>w (name, args). fst (Dispatch reg w name args)) w calls"

text \<open>What every tool of the given name does to the world, \<open>Dispatch\<close> does.\<close>

lemma dispatch_rel:
  assumes "register_all InferTool f tool_table NewToolRegistry = Inr reg" and "infers InferTool"
    and "R w" and "\<And>inp descr. (name, descr, input_type_of inp) \<in> set tool_table \<Longrightarrow> R (fst (f w inp))"
  shows "R (fst (Dispatch reg w name args))"
proof (cases "tr_Get reg name")
  case None
  then show ?thesis using assms(3) by (simp add: Dispatch_def)
next
  case (Some t)
  note g = register_all_get [OF assms(1)]
  have "distinct (map fst tool_table)" using table_names by simp
  note g = g [OF this]
  have "name \<in> fst ` set tool_table" using g Some by (auto simp: tr_Get_def NewToolRegistry_def)
  then obtain descr ty where e: "(name, descr, ty) \<in> set tool_table" by auto
  then have "made_from InferTool f (name, descr, ty) t" using g Some by force
  from made_from_infers [OF assms(2) this] have "runs_like f ty (tl_run t)" by simp
  from this [unfolded runs_like_def, rule_format, of w args] e assms(3,4) have "R (fst (tl_run t w args))" by auto
  then show ?thesis using Some by (simp add: Dispatch_def)
qed

lemma dispatch_inside:
  assumes "register_all InferTool (tool_call v) tool_table NewToolRegistry = Inr reg" and "infers InferTool"
    and "tv_root v \<noteq> []" and "name \<noteq> ''terminal''"
  shows "only_inside (tv_root v) w (fst (Dispatch reg w name args))"
proof (rule dispatch_rel [OF assms(1,2)])
  fix inp descr
  assume "(name, descr, input_type_of inp) \<in> set tool_table"
  then have "input_type_of inp \<noteq> TerminalInput" using terminal_entry assms(4) by metis
  then show "only_inside (tv_root v) w (fst (tool_call v w inp))" by (rule tool_call_inside [OF assms(3)])
qed simp

text \<open>A framework that hands the whole argument string to the function as its first text.\<close>

fun input_from :: "input_type \<Rightarrow> string \<Rightarrow> tool_input" where
  "input_from TerminalInput s = InTerminal s"
| "input_from SearchInput s = InSearch s"
| "input_from CompressInput s = InCompress s []"
| "input_from ReadInput s = InRead \<lparr>rf_Path = s, rf_Offset = 0, rf_Limit = 0\<rparr>"
| "input_from WriteInput s = InWrite \<lparr>wf_Path = s, wf_Content = ''x''\<rparr>"
| "input_from EditInput s = InEdit \<lparr>ef_Path = s, ef_OldText = ''x'', ef_NewText = ''y''\<rparr>"
| "input_from GlobbingInput s = InGlob \<lparr>gl_Pattern = s, gl_Root = []\<rparr>"
| "input_from GreppingInput s = InGrep \<lparr>gr_Pattern = s, gr_Root = [], gr_Include = []\<rparr>"
| "input_from VisionInput s = InVision s []"

fun result_of :: "string outcome \<Rightarrow> run_result" where
  "result_of (Ok s) = RunOk s"
| "result_of (Err e) = RunErr e"
| "result_of Panic = RunPanic ''slice bounds out of range''"

definition text_infer :: "'w infer_tool" where
  "text_infer name descr ty fn = Inr (Some (name, descr), \<lambda>w args. case fn w (input_from ty args) of (w1, r) \<Rightarrow> (w1, result_of r))"

lemma text_infer_infers: "infers text_infer"
proof -
  have t: "input_type_of (input_from ty s) = ty" for ty s by (cases ty) simp_all
  have r: "run_as r (result_of r)" for r by (cases r) simp_all
  have "runs_like fn ty (\<lambda>w args. case fn w (input_from ty args) of (w1, r) \<Rightarrow> (w1, result_of r))" for fn :: "'w \<Rightarrow> tool_input \<Rightarrow> 'w \<times> string outcome" and ty
    unfolding runs_like_def by (intro allI disjI2, rule_tac x = "input_from ty args" in exI) (simp add: t r case_prod_beta)
  then show ?thesis by (auto simp: infers_def text_infer_def)
qed

lemma text_infer_registers: "\<exists>reg. register_all text_infer fn table r = Inr reg"
  by (induction table arbitrary: r) (auto simp: registerTool_def NewFromFn_def text_infer_def)

subsection \<open>Properties\<close>

text \<open>However many tool calls the agent makes and whatever arguments it gives, as long as it does not use the
  terminal, no file outside the workspace root (no path that does not start with it) is written, and the
  terminal and the rest of the system are as before.\<close>

theorem toolbox_confined:
  assumes "register_all InferTool (tool_call v) tool_table NewToolRegistry = Inr reg" and "infers InferTool"
    and "tv_root v \<noteq> []" and "''terminal'' \<notin> fst ` set calls"
  shows "only_inside (tv_root v) w (run_calls reg w calls)"
  using assms(4)
proof (induction calls arbitrary: w)
  case (Cons c calls)
  obtain name args where c: "c = (name, args)" by (cases c)
  with Cons.prems have "only_inside (tv_root v) w (fst (Dispatch reg w name args))" by (intro dispatch_inside [OF assms(1-3)]) auto
  moreover have "only_inside (tv_root v) (fst (Dispatch reg w name args)) (run_calls reg (fst (Dispatch reg w name args)) calls)"
    using Cons by simp
  ultimately show ?case using c by (simp add: run_calls_def only_inside_trans)
qed (simp add: run_calls_def)

definition plain_tools :: "'o tool_env" where
  "plain_tools = \<lparr>tv_term = \<lparr>te_exec = (\<lambda>s _ _. (s, [], None)), te_openDrive = (\<lambda>s. (s, None)), te_CreateTemp = (\<lambda>s. (s, Inr ''/tmp/x'')),
       te_ReadFile = (\<lambda>_ _. Inr []), te_Remove = (\<lambda>s _. s), te_now = (\<lambda>_. 0), te_lower = (\<lambda>r. r), te_victim = (\<lambda>_. 0)\<rparr>,
      tv_filters = [], tv_file = plain_env, tv_root = ''/ws'', tv_web = plain_web\<rparr>"

abbreviation sample_tools :: "unit tool_env" where
  "sample_tools \<equiv> plain_tools"

theorem toolbox_confined_witness:
  "\<exists>reg. register_all text_infer (tool_call sample_tools) tool_table NewToolRegistry = Inr reg
    \<and> (\<forall>w. only_inside ''/ws'' w (run_calls reg w [(''write_file'', ''/etc/passwd''), (''edit_file'', ''../x'')]))"
proof -
  obtain reg where r: "register_all text_infer (tool_call sample_tools) tool_table NewToolRegistry = Inr reg"
    using text_infer_registers by blast
  have "only_inside ''/ws'' w (run_calls reg w [(''write_file'', ''/etc/passwd''), (''edit_file'', ''../x'')])" for w
    using toolbox_confined [OF r text_infer_infers, of "[(''write_file'', ''/etc/passwd''), (''edit_file'', ''../x'')]" w]
    by (simp add: plain_tools_def)
  with r show ?thesis by blast
qed

text \<open>If registration succeeds, the agent is given exactly the nine tools of the table, in its order, each with
  the name it is registered under and its description; otherwise the program stops with the name of a tool
  that could not be made.\<close>

theorem all_tools_given:
  assumes "infers InferTool"
  shows "case register_all InferTool fn tool_table NewToolRegistry of
      Inr reg \<Rightarrow> map tl_info (einoTools reg toolNames) = map (\<lambda>(name, descr, _). Some (name, descr)) tool_table
    | Inl fatal \<Rightarrow> \<exists>name descr ty e. (name, descr, ty) \<in> set tool_table \<and> InferTool name descr ty fn = Inl e
        \<and> fatal = utf8 [0x6CE8, 0x518C, 0x5DE5, 0x5177] @ '' '' @ name @ '' '' @ utf8 [0x5931, 0x8D25] @ '': '' @ error_string e"
proof (cases "register_all InferTool fn tool_table NewToolRegistry")
  case (Inl fatal)
  from register_all_fatal [OF Inl] Inl show ?thesis by simp
next
  case (Inr reg)
  have d: "distinct (map fst tool_table)" using table_names by simp
  have "map_option tl_info (tr_Get reg (fst e)) = Some (Some (fst e, fst (snd e)))" if "e \<in> set tool_table" for e
    using register_all_get [OF Inr d] that made_from_infers [OF assms, of fn "fst e" "fst (snd e)" "snd (snd e)"] by fastforce
  then have "map tl_info (List.map_filter (tr_Get reg) (map fst tb)) = map (\<lambda>(name, descr, _). Some (name, descr)) tb"
    if "set tb \<subseteq> set tool_table" for tb
    using that by (induction tb) (fastforce simp: map_filter_simps split: option.splits)+
  from this [of tool_table] Inr show ?thesis by (simp add: einoTools_def table_names)
qed

theorem all_tools_given_witness:
  "\<exists>reg :: unit tool_world ToolRegistry. register_all text_infer (tool_call sample_tools) tool_table NewToolRegistry = Inr reg
    \<and> map tl_info (einoTools reg toolNames) = map (\<lambda>(name, descr, _). Some (name, descr)) tool_table"
proof -
  obtain reg where r: "register_all text_infer (tool_call sample_tools) tool_table NewToolRegistry = Inr reg"
    using text_infer_registers by blast
  with all_tools_given [OF text_infer_infers, of "tool_call sample_tools"] show ?thesis by simp
qed

text \<open>The glob tool checks its root directory but not its pattern, which is joined to the root and cleaned: a
  pattern that starts with \<open>..\<close> lists files outside the workspace.\<close>

theorem glob_leaves_workspace:
  assumes "fe_Getwd env = Inr ''/ws''" and "fe_Glob env ''/etc/*'' = Inr [''/etc/passwd'']"
  shows "GlobFiles env ''/ws'' \<lparr>gl_Pattern = ''../etc/*'', gl_Root = []\<rparr> =
    Inr (utf8 [0x627E, 0x5230] @ '' '' @ show_nat 1 @ '' '' @ utf8 [0x4E2A, 0x6587, 0x4EF6] @ '':'' @ [nl] @ ''  ../etc/passwd'' @ [nl])"
proof -
  have v: "ValidatePath (Inr ''/ws'') ''/ws'' ''.'' = Inr ''/ws''" by code_simp
  have j: "path_Join ''/ws'' ''../etc/*'' = ''/etc/*''" by code_simp
  have r: "rel_or_empty ''/ws'' ''/etc/passwd'' = ''../etc/passwd''" by code_simp
  show ?thesis using assms by (simp add: GlobFiles_def search_root_def v j r indented_def)
qed

theorem glob_leaves_workspace_witness:
  "GlobFiles (plain_env\<lparr>fe_Glob := (\<lambda>_. Inr [''/etc/passwd''])\<rparr>) ''/ws'' \<lparr>gl_Pattern = ''../etc/*'', gl_Root = []\<rparr> =
    Inr (utf8 [0x627E, 0x5230] @ '' '' @ show_nat 1 @ '' '' @ utf8 [0x4E2A, 0x6587, 0x4EF6] @ '':'' @ [nl] @ ''  ../etc/passwd'' @ [nl])"
  by (rule glob_leaves_workspace) (simp_all add: plain_env_def)

end
