(* ===== verification/RawCopies.thy ===== *)
theory RawCopies
  imports Client EventBus Redact Logs
begin

section \<open>Copies of the traffic for the log (protocol/openai.go, protocol/stream.go, protocol/raw_log.go)\<close>

text \<open>
  The client publishes copies of what it sends and receives on its event bus: the body of a request that is
  not streamed, failures, bodies of error responses, the header of a streamed response, and every chunk it
  delivers. Two subscribers write them down: the raw log, which keeps the three raw kinds, and the log
  processor, which makes a line from each other kind.
\<close>

subsection \<open>What is published\<close>

definition raw_copy :: "ChunkType \<Rightarrow> string \<Rightarrow> Chunk" where
  "raw_copy t text = (zero_Chunk t)\<lparr>ch_Text := text\<rparr>"

text \<open>\<open>chatDirect\<close>: \<open>redact\<close> is \<open>RedactBody\<close>. A successful response is not copied.\<close>

definition chat_copies :: "(string \<Rightarrow> string) \<Rightarrow> string \<Rightarrow> chat_io \<Rightarrow> Chunk list" where
  "chat_copies redact body io = (case ci_newReq_err io of
     Some _ \<Rightarrow> []
   | None \<Rightarrow> raw_copy ChunkRawRequest (redact body)
       # (case ci_outcome io of
            DoErr e \<Rightarrow> [raw_copy ChunkRawError (''request failed: '' @ error_string e)]
          | DoResp status data _ \<Rightarrow>
              if status \<noteq> 200 then [raw_copy ChunkRawResponse (''HTTP '' @ show_nat status @ '': '' @ TrimSpace data)] else []))"

text \<open>The header of a response: protocol version, status and the fields in the order of the map.\<close>

record response_head =
  rh_major :: nat
  rh_minor :: nat
  rh_code :: nat
  rh_status :: string
  rh_fields :: "(string \<times> string list) list"

definition header_copy :: "response_head \<Rightarrow> Chunk" where
  "header_copy h = raw_copy ChunkRawResponse
     (''HTTP/'' @ show_nat (rh_major h) @ ''.'' @ show_nat (rh_minor h) @ '' '' @ show_nat (rh_code h) @ '' '' @ rh_status h @ [nl]
      @ concat (map (\<lambda>(k, vs). concat (map (\<lambda>v. k @ '': '' @ v @ [nl]) vs)) (rh_fields h)))"

text \<open>One attempt of a streamed call: a send that failed, or a response whose chunks were delivered and whose
  reading ended with or without an error.\<close>

datatype attempt_trace = SendFailed gerror | Responded response_head "Chunk list" "gerror option"

definition attempt_copies :: "attempt_trace \<Rightarrow> Chunk list" where
  "attempt_copies a = (case a of
     SendFailed e \<Rightarrow> [raw_copy ChunkRawError (''send_with_retry: '' @ error_string e)]
   | Responded h cs err \<Rightarrow> header_copy h # cs
       @ (case err of Some e \<Rightarrow> [raw_copy ChunkRawError (''readStream: '' @ error_string e)] | None \<Rightarrow> []))"

subsection \<open>The log processor (protocol/stream.go)\<close>

definition log_text :: "Chunk \<Rightarrow> string option" where
  "log_text c = (case ch_Type c of
     ChunkText \<Rightarrow> if length (ch_Text c) > 0 then Some (''RAW chunk text len='' @ show_nat (length (ch_Text c))) else None
   | ChunkReasoning \<Rightarrow> if length (ch_Text c) > 0 then Some (''RAW chunk reasoning len='' @ show_nat (length (ch_Text c))) else None
   | ChunkToolCallStart \<Rightarrow> map_option (\<lambda>tc. ''RAW tool_call_start id='' @ tc_ID tc @ '' name='' @ tc_Name tc) (ch_ToolCall c)
   | ChunkToolCall \<Rightarrow> map_option (\<lambda>tc. ''RAW tool_call id='' @ tc_ID tc @ '' name='' @ tc_Name tc @ '' args='' @ tc_Arguments tc) (ch_ToolCall c)
   | ChunkUsage \<Rightarrow> map_option (\<lambda>u. ''RAW usage prompt='' @ show_int (PromptTokens u) @ '' completion='' @ show_int (CompletionTokens u)
       @ '' total='' @ show_int (TotalTokens u)) (ch_Usage c)
   | ChunkWarn \<Rightarrow> Some (''RAW warn: '' @ ch_Warning c)
   | ChunkError \<Rightarrow> map_option (\<lambda>e. ''RAW error: '' @ error_string e) (ch_Error c)
   | _ \<Rightarrow> None)"

text \<open>\<open>OpenAI.logf\<close>: a line goes to the logger of the context, else to the client's own, else nowhere.\<close>

datatype log_sink = ToContext string | ToClient string

definition openai_logf :: "bool \<Rightarrow> bool \<Rightarrow> string \<Rightarrow> log_sink list" where
  "openai_logf ctxLogger ownLogger line = (if ctxLogger then [ToContext line] else if ownLogger then [ToClient line] else [])"

text \<open>The processor logs in the background context, which carries no logger.\<close>

definition log_Process :: "bool \<Rightarrow> Chunk \<Rightarrow> log_sink list" where
  "log_Process ownLogger c = (case log_text c of None \<Rightarrow> [] | Some line \<Rightarrow> openai_logf False ownLogger line)"

subsection \<open>The raw log of a list of copies\<close>

fun raw_run ::
  "(string \<Rightarrow> bool) \<Rightarrow> (gany \<Rightarrow> string) \<Rightarrow> (ChunkType \<rightharpoonup> string) \<Rightarrow> raw_call \<Rightarrow> files \<Rightarrow> RawLogProcessor \<Rightarrow> Chunk list \<Rightarrow> files \<times> RawLogProcessor" where
  "raw_run can_open marshal names k fs p [] = (fs, p)"
| "raw_run can_open marshal names k fs p (c # cs) = (case raw_Process can_open marshal names k fs p c of
     (fs1, p1, _) \<Rightarrow> raw_run can_open marshal names k fs1 p1 cs)"

definition raw_lines :: "(gany \<Rightarrow> string) \<Rightarrow> (ChunkType \<rightharpoonup> string) \<Rightarrow> string \<Rightarrow> Chunk list \<Rightarrow> string" where
  "raw_lines marshal names ts cs = concat (map (\<lambda>c. raw_record marshal names ts c @ [nl]) (filter (\<lambda>c. raw_kind (ch_Type c)) cs))"

definition raw_file :: "RawLogProcessor \<Rightarrow> string \<Rightarrow> string" where
  "raw_file p today = path_Join (rp_dir p) (today @ ''.log'')"

text \<open>A processor that can write today: enabled, and without a file, or with one of an earlier day, or with
  today's open file.\<close>

definition raw_ready :: "RawLogProcessor \<Rightarrow> string \<Rightarrow> bool" where
  "raw_ready p today \<longleftrightarrow> rp_enabled p \<and> (rp_file p \<noteq> None \<and> rp_date p = today \<longrightarrow> rp_open p \<and> rp_file p = Some (raw_file p today))"

lemma raw_Process_step:
  assumes "raw_ready p today" and "can_open (raw_file p today)" and "rk_locked k" and "rk_write_ok k" and "rk_today k = today"
  shows "\<exists>p1. raw_Process can_open marshal names k fs p c =
      (if raw_kind (ch_Type c) then append_file fs (raw_file p today) (raw_record marshal names (rk_ts k) c @ [nl]) else fs, p1, None)
    \<and> raw_ready p1 today \<and> rp_dir p1 = rp_dir p"
  using assms by (auto simp: raw_Process_def tryWrite_def raw_rotate_def raw_ready_def raw_file_def Let_def)

lemma append_file_append: "append_file (append_file fs p a) p b = append_file fs p (a @ b)"
  by (simp add: append_file_def)

lemma raw_run_lines:
  assumes "raw_ready p today" and "can_open (raw_file p today)" and "rk_locked k" and "rk_write_ok k" and "rk_today k = today"
  shows "fst (raw_run can_open marshal names k fs p cs) =
    (if \<exists>c \<in> set cs. raw_kind (ch_Type c) then append_file fs (raw_file p today) (raw_lines marshal names (rk_ts k) cs) else fs)"
  using assms(1,2)
proof (induction cs arbitrary: fs p)
  case (Cons c cs)
  obtain p1 where p1: "raw_Process can_open marshal names k fs p c =
      (if raw_kind (ch_Type c) then append_file fs (raw_file p today) (raw_record marshal names (rk_ts k) c @ [nl]) else fs, p1, None)"
    "raw_ready p1 today" "raw_file p1 today = raw_file p today"
    using raw_Process_step [where can_open = can_open, OF Cons.prems assms(3-5)] by (metis raw_file_def)
  then show ?case using Cons.IH [OF p1(2)] Cons.prems(2) by (auto simp: raw_lines_def append_file_append)
qed simp

text \<open>The raw kinds among the copies of an attempt; the chunks of a stream are of the other kinds.\<close>

definition no_raw_delivered :: "attempt_trace \<Rightarrow> bool" where
  "no_raw_delivered a = (case a of SendFailed _ \<Rightarrow> True | Responded _ cs _ \<Rightarrow> list_all (\<lambda>c. \<not> raw_kind (ch_Type c)) cs)"

definition attempt_raw :: "attempt_trace \<Rightarrow> Chunk list" where
  "attempt_raw a = (case a of
     SendFailed e \<Rightarrow> [raw_copy ChunkRawError (''send_with_retry: '' @ error_string e)]
   | Responded h _ (Some e) \<Rightarrow> [header_copy h, raw_copy ChunkRawError (''readStream: '' @ error_string e)]
   | Responded h _ None \<Rightarrow> [header_copy h])"

lemma raw_kind_copy [simp]:
  "raw_kind (ch_Type (raw_copy t s)) = raw_kind t" "raw_kind (ch_Type (header_copy h))" "raw_kind ChunkRawError"
  by (simp_all add: raw_copy_def header_copy_def zero_Chunk_def raw_kind_def)

lemma attempt_raw_filter: "no_raw_delivered a \<Longrightarrow> filter (\<lambda>c. raw_kind (ch_Type c)) (attempt_copies a) = attempt_raw a"
  by (auto simp: no_raw_delivered_def attempt_copies_def attempt_raw_def list_all_iff split: attempt_trace.splits option.splits)

lemma attempt_has_raw: "\<exists>c \<in> set (attempt_copies a). raw_kind (ch_Type c)"
  by (cases a) (auto simp: attempt_copies_def)

lemma concat_concat_map: "concat (map f (concat xs)) = concat (map (\<lambda>x. concat (map f x)) xs)"
  by (induction xs) simp_all

subsection \<open>Properties\<close>



definition leaked_copy :: Chunk where
  "leaked_copy = raw_copy ChunkRawResponse ''HTTP 401: bad key AKIA0123456789ABCDEF''"

text \<open>The body of an error response is written to the raw log as it is: a provider that echoes the key in its
  answer, as in this example, leaves the key readable in the file, although the request before it is redacted.\<close>

theorem raw_log_keeps_secret:
  "leaked_copy \<in> set (chat_copies redact body \<lparr>ci_newReq_err = None, ci_outcome = DoResp 401 ''bad key AKIA0123456789ABCDEF'' [], ci_dur = d\<rparr>)
    \<and> RedactString (ch_Text leaked_copy) \<noteq> ch_Text leaked_copy"
proof -
  have t: "TrimSpace ''bad key AKIA0123456789ABCDEF'' = ''bad key AKIA0123456789ABCDEF''" by code_simp
  have n: "show_nat 401 = ''401''" by code_simp
  have "RedactString ''HTTP 401: bad key AKIA0123456789ABCDEF'' \<noteq> ''HTTP 401: bad key AKIA0123456789ABCDEF''" by code_simp
  then show ?thesis by (simp add: leaked_copy_def chat_copies_def raw_copy_def t n)
qed

end
