(* ===== verification/Startup.thy ===== *)
theory Startup
  imports React Configuration Usage Logs Toolbox Health
begin

section \<open>Start-up, routing and shutdown (main.go, internal/adk/runner.go)\<close>

text \<open>
  \<open>main\<close> reads the configuration, makes the bridge to the model, registers the tools, makes the agent, the
  runner and the server, restores the history and serves until a signal arrives. What it needs from outside
  is the record \<open>boot_env\<close>; a call of \<open>log.Fatal\<close> ends the program and is the value \<open>Inl\<close> with its text. Other
  log lines are left out. The running program is a machine: requests, the clean-up goroutine and the steps of
  the shutdown goroutine in any order.
\<close>

subsection \<open>Runners (internal/adk/runner.go)\<close>

definition NewRunnerWithAgent ::
  "('w \<Rightarrow> adk_Request \<Rightarrow> 'w \<times> (gerror + adk_Response option)) \<Rightarrow> ('s store_get \<times> 's store_append) option \<Rightarrow>
   (string \<Rightarrow> string \<Rightarrow> GuardrailResult) option \<Rightarrow> 'w MiddlewareFuncs list option \<Rightarrow> ('s, 'w) Runner" where
  "NewRunnerWithAgent agent store guards mw = \<lparr>rn_agent = agent, rn_store = store, rn_guards = guards, rn_mw = mw\<rparr>"

record ('s, 'w) RunnerConfig =
  rc_AgentConfig :: "'w AgentConfig option"
  rc_Bridge :: bool
  rc_Registry :: "'w ToolRegistry"
  rc_Store :: "('s store_get \<times> 's store_append) option"
  rc_Prompt :: "string option"
  rc_Guardrails :: "Guardrails option"
  rc_Middleware :: "'w MiddlewareFuncs list option"

text \<open>\<open>run\<close> turns the framework's agent into the runner's; \<open>check\<close> is \<open>Guardrails.Check\<close> at the time of a call.\<close>

definition NewRunner ::
  "('w react_config \<Rightarrow> gerror + 'i) \<Rightarrow> ('i \<Rightarrow> 'w \<Rightarrow> adk_Request \<Rightarrow> 'w \<times> (gerror + adk_Response option)) \<Rightarrow>
   (Guardrails \<Rightarrow> string \<Rightarrow> string \<Rightarrow> GuardrailResult) \<Rightarrow> ('s, 'w) RunnerConfig option \<Rightarrow> gerror + ('s, 'w) Runner" where
  "NewRunner NewAgent run check config = (case config of
     None \<Rightarrow> Inl (ErrMsg ''runner config is nil'')
   | Some c \<Rightarrow> (case rc_AgentConfig c of
       None \<Rightarrow> Inl (ErrMsg ''runner agent config is nil'')
     | Some a \<Rightarrow>
        (case NewReactAgent NewAgent (Some \<lparr>ac_Bridge = rc_Bridge c, ac_Tools = rc_Registry c, ac_ToolNames = ac_ToolNames a,
            ac_Prompt = (case rc_Prompt c of Some p \<Rightarrow> p | None \<Rightarrow> []), ac_MaxSteps = ac_MaxSteps a,
            ac_Middleware = rc_Middleware c, ac_Guardrails = rc_Guardrails c\<rparr>) of
           Inl e \<Rightarrow> Inl (ErrWrap ''create agent'' e)
         | Inr agent \<Rightarrow> Inr \<lparr>rn_agent = run agent, rn_store = rc_Store c, rn_guards = map_option check (rc_Guardrails c), rn_mw = rc_Middleware c\<rparr>)))"

subsection \<open>Start-up\<close>

definition systemPrompt :: string where
  "systemPrompt = utf8 [0x4F60, 0x662F, 0x5BC6, 0x7C73, 0x5C14, 0xFF0C, 0x4E00, 0x4E2A, 0x6C89, 0x7A33, 0x777F, 0x667A, 0x7684] @ '' AI ''
     @ utf8 [0x52A9, 0x624B, 0x3002, 0x601D, 0x8003, 0x6B65, 0x9AA4, 0x548C, 0x8C03, 0x7528, 0x5DE5, 0x5177, 0x65F6, 0x4F7F, 0x7528, 0x4E2D, 0x6587,
       0xFF0C, 0x4F46, 0x5728, 0x8F93, 0x51FA, 0x6700, 0x7EC8, 0x56DE, 0x7B54, 0x65F6, 0xFF0C, 0x8BF7, 0x7ED3, 0x5408, 0x7528, 0x6237, 0x63D0, 0x95EE,
       0x6240, 0x4F7F, 0x7528, 0x7684, 0x8BED, 0x8A00, 0xFF08, 0x4E2D, 0x6587, 0x6216, 0x82F1, 0x6587, 0xFF09, 0xFF0C, 0x4F7F, 0x7528, 0x5BF9, 0x5E94,
       0x7684, 0x8BED, 0x8A00, 0x8F93, 0x51FA, 0x3002, 0x4E0D, 0x8981, 0x540C, 0x65F6, 0x8F93, 0x51FA, 0x4E2D, 0x82F1, 0x6587, 0x6DF7, 0x5408, 0x7684,
       0x5185, 0x5BB9, 0x3002]"

record ('o, 'b) boot_env =
  bt_ParseDuration :: "string \<Rightarrow> int option"
  bt_environ :: environment
  bt_envfile :: "string option"
  bt_Getwd :: "gerror + string"
  bt_parse_text :: "string \<Rightarrow> string"
  bt_rawdir :: "gerror option"
  bt_usage :: open_env
  bt_rows :: "UsageRecord list"
  bt_seq :: int
  bt_InferTool :: "'o tool_world infer_tool"
  bt_tools :: "'o tool_env"
  bt_NewAgent :: "'o tool_world react_config \<Rightarrow> gerror + 'o tool_world react_stream"
  bt_stats :: string
  bt_frontend :: "gerror + string"
  bt_codec :: "'b history_codec"
  bt_disk :: "string \<rightharpoonup> 'b"
  bt_world :: "'o tool_world"

record 'o app =
  ap_config :: AppConfig
  ap_tools :: "'o tool_env"
  ap_client :: OpenAI
  ap_model :: string
  ap_raw :: "RawLogProcessor option"
  ap_tracker :: "UsageTracker option"
  ap_registry :: "'o tool_world ToolRegistry"
  ap_inner :: "'o tool_world react_stream"
  ap_runner :: "(unit, 'o tool_world) Runner"
  ap_frontend :: string
  ap_health :: HealthManager
  ap_server :: "(unit, 'o tool_world) run_state srv_state"

abbreviation failed_to :: "string \<Rightarrow> gerror \<Rightarrow> string" where
  "failed_to what e \<equiv> what @ '' '' @ utf8 [0x5931, 0x8D25] @ '': '' @ error_string e"

text \<open>The raw log and the usage database are optional: a failure there is only logged.\<close>

definition boot_raw :: "('o, 'b) boot_env \<Rightarrow> AppConfig \<Rightarrow> RawLogProcessor option" where
  "boot_raw be cfg = (if rw_RawLog (cf_Raw cfg) then Some (NewRawLogProcessor (bt_rawdir be) (rw_RawLogDir (cf_Raw cfg))) else None)"

definition boot_usage :: "('o, 'b) boot_env \<Rightarrow> AppConfig \<Rightarrow> UsageTracker option" where
  "boot_usage be cfg =
     (if rw_UsageDB (cf_Raw cfg)
      then (case NewUsageTracker (bt_usage be) (bt_rows be) (bt_seq be) of Inl _ \<Rightarrow> None | Inr ut \<Rightarrow> Some ut)
      else None)"

text \<open>The client's telemetry reports to the tracker, if there is one.\<close>

definition boot_client :: "('o, 'b) boot_env \<Rightarrow> AppConfig \<Rightarrow> OpenAI \<Rightarrow> OpenAI" where
  "boot_client be cfg client = (case boot_usage be cfg of
     None \<Rightarrow> client
   | Some _ \<Rightarrow> client\<lparr>oa_Telemetry := SetTracker (oa_Telemetry client) (Some [])\<rparr>)"

definition agent_config :: "'w ToolRegistry \<Rightarrow> AppConfig \<Rightarrow> 'w AgentConfig" where
  "agent_config reg cfg = \<lparr>ac_Bridge = True, ac_Tools = reg, ac_ToolNames = toolNames, ac_Prompt = systemPrompt,
     ac_MaxSteps = as_MaxStep (cf_Agent cfg), ac_Middleware = None, ac_Guardrails = None\<rparr>"

text \<open>The server is started with a manager that holds the restored history; the client has registered its
  vendor with the health manager, if it knows an endpoint to probe.\<close>

definition boot_state :: "('o, 'b) boot_env \<Rightarrow> (unit, 'o tool_world) run_state srv_state" where
  "boot_state be = LoadHistory (bt_codec be) (bt_disk be)
     \<lparr>sv_sessions = NewManager ''default'', sv_world = \<lparr>rs_store = (), rs_world = bt_world be, rs_events = []\<rparr>, sv_log = [], sv_http = []\<rparr>"

definition boot :: "('o, 'b) boot_env \<Rightarrow> string + 'o app" where
  "boot be =
     (case Load_config (bt_ParseDuration be) (bt_environ be) (bt_envfile be) of (e, cfg) \<Rightarrow>
       (let v = (bt_tools be)\<lparr>tv_root := SetWorkspaceRoot (bt_Getwd be) (sc_WorkspaceRoot (cf_Server cfg))\<rparr>;
            apiKey = oc_APIKey (cf_OpenAI cfg); baseURL = oc_BaseURL (cf_OpenAI cfg) in
        if apiKey = [] \<or> baseURL = [] then Inl (utf8 [0x8BF7, 0x8BBE, 0x7F6E] @ '' OPENAI_API_KEY '' @ utf8 [0x548C] @ '' OPENAI_BASE_URL'')
        else case ValidateBaseURL (Getenv e ''ALLOW_PRIVATE_URLS'' = ''true'') baseURL of
          Some err \<Rightarrow> Inl (''BaseURL '' @ utf8 [0x6821, 0x9A8C, 0x5931, 0x8D25] @ '': '' @ error_string (url_failure (bt_parse_text be) baseURL err))
        | None \<Rightarrow> (case NewBridgeFromConfig (bt_parse_text be) e cfg of
            Inl err \<Rightarrow> Inl (failed_to (utf8 [0x521B, 0x5EFA] @ '' LLM Bridge'') err)
          | Inr ((client, vendor, healthURL), model) \<Rightarrow>
             (case register_all (bt_InferTool be) (tool_call v) tool_table NewToolRegistry of
                Inl fatal \<Rightarrow> Inl fatal
              | Inr reg \<Rightarrow> (case NewReactAgent (bt_NewAgent be) (Some (agent_config reg cfg)) of
                  Inl err \<Rightarrow> Inl (failed_to (utf8 [0x521B, 0x5EFA] @ '' Agent'') err)
                | Inr inner \<Rightarrow> (case bt_frontend be of
                    Inl err \<Rightarrow> Inl (utf8 [0x8BFB, 0x53D6, 0x524D, 0x7AEF, 0x6587, 0x4EF6, 0x5931, 0x8D25] @ '': '' @ error_string err)
                  | Inr frontend \<Rightarrow> Inr \<lparr>ap_config = cfg, ap_tools = v, ap_client = boot_client be cfg client, ap_model = model, ap_raw = boot_raw be cfg,
                      ap_tracker = boot_usage be cfg, ap_registry = reg, ap_inner = inner,
                      ap_runner = NewRunnerWithAgent (react_Run inner (bt_stats be)) None None None, ap_frontend = frontend,
                      ap_health = (if healthURL \<noteq> [] then hm_Register (NewHealthManager Map.empty) vendor else NewHealthManager Map.empty),
                      ap_server = boot_state be\<rparr>))))))"

subsection \<open>Routing (main.go, net/http)\<close>

text \<open>What a request's handler sees: the agent through the adapter, the model's name, the page and the root are
  the program's; the rest comes with the request. \<open>cancel\<close> and \<open>stop\<close> are the events of the request's
  context.\<close>

definition request_env ::
  "'o app \<Rightarrow> nat option \<Rightarrow> nat option \<Rightarrow> (unit, 'o tool_world) run_state srv_env \<Rightarrow> (unit, 'o tool_world) run_state srv_env" where
  "request_env app cancel stop x = x\<lparr>sx_Generate := agent_Generate (ap_runner app),
     sx_Stream := agent_Stream (ap_runner app) (react_Stream (ap_inner app) cancel) cancel stop,
     sx_Model := ap_model app, sx_frontend := ap_frontend app, sx_root := tv_root (ap_tools app)\<rparr>"

definition handlers :: "(string \<times> 'w handler) list" where
  "handlers = [(''/'', ServeFrontend), (''/api/chat'', HandleChat), (''/api/chat/stream'', HandleChatStream),
     (''/api/vision'', HandleVision), (''/api/vision/native'', HandleVisionNativeStream)]"

text \<open>\<open>ServeMux\<close>: a path that is not clean is redirected; otherwise a pattern matches its own path, and \<open>/\<close> all
  the rest. The usage server is mounted at \<open>/mcp\<close> only if there is a tracker.\<close>

definition cleanPath :: "string \<Rightarrow> string" where
  "cleanPath p0 =
     (if p0 = [] then ''/''
      else let p = (if hd p0 \<noteq> slash then slash # p0 else p0); np = Clean p in
        if last p = slash \<and> np \<noteq> ''/'' then np @ ''/'' else np)"

datatype 'w route = Redirected string | Usage_server | Handler "'w handler"

definition mux :: "bool \<Rightarrow> string \<Rightarrow> 'w route" where
  "mux usage path =
     (if cleanPath path \<noteq> path then Redirected (cleanPath path)
      else if usage \<and> path = ''/mcp'' then Usage_server
      else case map_of handlers path of Some h \<Rightarrow> Handler h | None \<Rightarrow> Handler ServeFrontend)"

definition serve ::
  "'o app \<Rightarrow> nat option \<Rightarrow> nat option \<Rightarrow> (unit, 'o tool_world) run_state srv_env \<Rightarrow> http_in \<Rightarrow>
   (unit, 'o tool_world) run_state srv_state \<Rightarrow> (unit, 'o tool_world) run_state srv_state \<times> http_write list \<times> bool" where
  "serve app cancel stop x r st = (case mux (ap_tracker app \<noteq> None) (hi_Path r) of
     Handler h \<Rightarrow> h (request_env app cancel stop x) r st
   | Redirected p \<Rightarrow> (st, [WHeader ''Location'' p], False)
   | Usage_server \<Rightarrow> (st, [], False))"

end
