(* ===== verification/Program.thy ===== *)
theory Program
  imports Startup
begin

section \<open>The running program (main.go)\<close>

text \<open>
  After start-up the program is a machine over its parts, the history file and the stage of the shutdown:
  requests, the clean-up goroutine and the steps of the shutdown goroutine happen in any order. The theory
  composes start-up, routing, the handlers, the agent and the session manager, and shows what survives a
  restart.
\<close>

subsection \<open>The running program\<close>

text \<open>The shutdown goroutine saves the history, closes the usage database, stops the probes and then shuts the
  HTTP server down; \<open>main\<close> returns as soon as the server no longer listens. Requests are served at any time
  before that, and the listener may fail, which ends the program at once. A save that panics ends it too.
  \<open>pr_saved\<close> observes the manager at the time of a successful save.\<close>

datatype stage = Serving | HistorySaved | TrackerClosed | ProbesStopped | Exited

record ('o, 'b) running =
  pr_app :: "'o app"
  pr_disk :: "string \<rightharpoonup> 'b"
  pr_stage :: stage
  pr_saved :: "Manager option"

definition started :: "('o, 'b) boot_env \<Rightarrow> ('o, 'b) running \<Rightarrow> bool" where
  "started be p \<longleftrightarrow> (\<exists>app. boot be = Inr app \<and> p = \<lparr>pr_app = app, pr_disk = bt_disk be, pr_stage = Serving, pr_saved = None\<rparr>)"

abbreviation pr_server :: "('o, 'b) running \<Rightarrow> (unit, 'o tool_world) run_state srv_state" where
  "pr_server p \<equiv> ap_server (pr_app p)"

abbreviation set_server :: "('o, 'b) running \<Rightarrow> (unit, 'o tool_world) run_state srv_state \<Rightarrow> ('o, 'b) running" where
  "set_server p st \<equiv> p\<lparr>pr_app := (pr_app p)\<lparr>ap_server := st\<rparr>\<rparr>"

definition save_history :: "'b history_codec \<Rightarrow> (gerror \<times> 'b option) option \<Rightarrow> ('o, 'b) running \<Rightarrow> ('o, 'b) running" where
  "save_history hc werr p = (case SaveHistory hc werr (pr_server p) (pr_disk p) of
     (fs, Panic) \<Rightarrow> p\<lparr>pr_stage := Exited\<rparr>
   | (fs, Err _) \<Rightarrow> p\<lparr>pr_disk := fs, pr_stage := HistorySaved\<rparr>
   | (fs, Ok _) \<Rightarrow> p\<lparr>pr_disk := fs, pr_stage := HistorySaved, pr_saved := Some (sv_sessions (pr_server p))\<rparr>)"

definition close_tracker :: "('o, 'b) running \<Rightarrow> ('o, 'b) running" where
  "close_tracker p = p\<lparr>pr_app := (pr_app p)\<lparr>ap_tracker := map_option tracker_Close (ap_tracker (pr_app p))\<rparr>, pr_stage := TrackerClosed\<rparr>"

definition StopHealthManager :: "('o, 'b) running \<Rightarrow> ('o, 'b) running" where
  "StopHealthManager p = p\<lparr>pr_app := (pr_app p)\<lparr>ap_health := hm_Stop (ap_health (pr_app p))\<rparr>, pr_stage := ProbesStopped\<rparr>"

definition cleanup_tick :: "int \<Rightarrow> ('o, 'b) running \<Rightarrow> ('o, 'b) running" where
  "cleanup_tick now p = set_server p ((pr_server p)\<lparr>sv_sessions := fst (Cleanup (sv_sessions (pr_server p)) now (30 * 60 * Second))\<rparr>)"

inductive app_step :: "'b history_codec \<Rightarrow> ('o, 'b) running \<Rightarrow> ('o, 'b) running \<Rightarrow> bool" for hc where
  serves: "pr_stage p \<noteq> Exited \<Longrightarrow> serve (pr_app p) cancel stop x r (pr_server p) = (st, ws, panic) \<Longrightarrow> app_step hc p (set_server p st)"
| cleans: "pr_stage p \<noteq> Exited \<Longrightarrow> app_step hc p (cleanup_tick now p)"
| saves: "pr_stage p = Serving \<Longrightarrow> app_step hc p (save_history hc werr p)"
| closes: "pr_stage p = HistorySaved \<Longrightarrow> app_step hc p (close_tracker p)"
| stops: "pr_stage p = TrackerClosed \<Longrightarrow> app_step hc p (StopHealthManager p)"
| exits: "pr_stage p = ProbesStopped \<Longrightarrow> app_step hc p (p\<lparr>pr_stage := Exited\<rparr>)"
| fails: "pr_stage p \<noteq> Exited \<Longrightarrow> app_step hc p (p\<lparr>pr_stage := Exited\<rparr>)"

subsection \<open>Lemmas\<close>

lemma mgr_inv_snapshot: "snapshot env sid m st = (st1, msgs) \<Longrightarrow> mgr_inv (sv_sessions st) \<Longrightarrow> mgr_inv (sv_sessions st1)"
  using mgr_inv_ops(1) [of "sv_sessions st" "sx_now env" sid "[m]"] by (auto simp: snapshot_def split: prod.splits)

lemma mgr_inv_append [simp]: "mgr_inv (sv_sessions st) \<Longrightarrow> mgr_inv (sv_sessions (append_turn env sid ms st))"
  by (simp add: append_turn_def mgr_inv_ops)

lemma log_sessions [simp]: "sv_sessions (logUserMessage env sid t st) = sv_sessions st" "sv_sessions (logAssistantResponse env sid t st) = sv_sessions st"
  by (simp_all add: logUserMessage_def logAssistantResponse_def)

lemma vision_mgr_inv [simp]:
  assumes "mgr_inv (sv_sessions st)"
  shows "mgr_inv (sv_sessions (fst (processVisionNonStream env sid url prompt st)))"
    "mgr_inv (sv_sessions (fst (processVisionStream env sid url prompt st)))"
  using assms by (auto simp: processVisionNonStream_def processVisionStream_def Let_def
      split: prod.splits sum.splits option.splits dest!: mgr_inv_snapshot)

lemma handler_mgr_inv:
  assumes "mgr_inv (sv_sessions st)" and "h \<in> insert ServeFrontend (snd ` set handlers)"
  shows "mgr_inv (sv_sessions (fst (h env r st)))"
proof -
  have "mgr_inv (sv_sessions (fst (ServeFrontend env r st)))" using assms(1) by (simp add: ServeFrontend_def)
  moreover have "mgr_inv (sv_sessions (fst (HandleChat env r st)))"
    using assms(1) by (auto simp: HandleChat_def Let_def split: prod.splits sum.splits option.splits dest!: mgr_inv_snapshot)
  moreover have "mgr_inv (sv_sessions (fst (HandleChatStream env r st)))"
    using assms(1) by (auto simp: HandleChatStream_def Let_def split: prod.splits sum.splits option.splits dest!: mgr_inv_snapshot)
  moreover have "mgr_inv (sv_sessions (fst (HandleVision env r st)))"
    using assms(1) by (auto simp: HandleVision_def split: option.splits)
  moreover have "mgr_inv (sv_sessions (fst (HandleVisionNativeStream env r st)))"
  proof (cases "hi_vision r")
    case (Some p)
    then show ?thesis using assms(1) vision_mgr_inv(2) [of "logUserMessage env (sessionID (sv_sessions st) r) (picture_tag @ snd p) st"]
      by (cases p) (auto simp: HandleVisionNativeStream_def Let_def case_prod_beta)
  qed (simp add: HandleVisionNativeStream_def assms(1))
  ultimately show ?thesis using assms(2) by (auto simp: handlers_def)
qed

lemma serve_mgr_inv:
  assumes "serve app cancel stop x r st = (st', ws, panic)" and "mgr_inv (sv_sessions st)"
  shows "mgr_inv (sv_sessions st')"
proof (cases "mux (ap_tracker app \<noteq> None) (hi_Path r) :: (unit, 'a tool_world) run_state route")
  case (Handler h)
  then have "h \<in> insert ServeFrontend (snd ` set handlers)"
    by (auto simp: mux_def split: if_splits option.splits dest!: map_of_SomeD intro: rev_image_eqI)
  from handler_mgr_inv [OF assms(2) this, of "request_env app cancel stop x" r] Handler assms(1) show ?thesis by (simp add: serve_def)
qed (use assms in \<open>auto simp: serve_def\<close>)

text \<open>A successful save writes the file that the next start reads, unless there is no session to save.\<close>

definition booted :: "('o, 'b) boot_env \<Rightarrow> 'o app \<Rightarrow> bool" where
  "booted be app \<longleftrightarrow> (\<exists>s t h. boot be = Inr (app\<lparr>ap_server := s, ap_tracker := t, ap_health := h\<rparr>))"

definition app_inv :: "('o, 'b) boot_env \<Rightarrow> ('o, 'b) running \<Rightarrow> bool" where
  "app_inv be p \<longleftrightarrow> booted be (pr_app p) \<and> mgr_inv (sv_sessions (pr_server p))
     \<and> (pr_stage p = Serving \<longrightarrow> pr_disk p = bt_disk be \<and> pr_saved p = None)
     \<and> (\<forall>m. pr_saved p = Some m \<longrightarrow> mgr_inv m \<and> (\<exists>werr. Save (bt_codec be) werr m DefaultHistoryFile (bt_disk be) = (pr_disk p, Ok ())))"

lemma booted_boot: "boot be = Inr app \<Longrightarrow> booted be app"
  unfolding booted_def by (intro exI [of _ "ap_server app"] exI [of _ "ap_tracker app"] exI [of _ "ap_health app"]) simp

lemma booted_update [simp]:
  assumes "booted be app"
  shows "booted be (app\<lparr>ap_server := s\<rparr>)" "booted be (app\<lparr>ap_tracker := t\<rparr>)" "booted be (app\<lparr>ap_health := h\<rparr>)"
  using assms by (simp_all add: booted_def)

lemma boot_server: "boot be = Inr app \<Longrightarrow> ap_server app = boot_state be"
  by (auto simp: boot_def Let_def split: prod.splits if_splits option.splits sum.splits)

lemma boot_state_inv: "mgr_inv (sv_sessions (boot_state be))"
  by (simp add: boot_state_def LoadHistory_def mgr_inv_ops mgr_inv_New)

lemma save_history_inv: "app_inv be p \<Longrightarrow> pr_stage p = Serving \<Longrightarrow> app_inv be (save_history (bt_codec be) werr p)"
  by (fastforce simp: app_inv_def save_history_def SaveHistory_def split: prod.splits outcome.splits)

interpretation program: halting_machine "started be" "app_step (bt_codec be)" "app_inv be" "\<lambda>p. pr_stage p \<noteq> Serving" "\<lambda>p. (pr_disk p, pr_saved p)" for be
proof (unfold_locales, goal_cases)
  case (1 p)
  then show ?case by (auto simp: started_def app_inv_def boot_server boot_state_inv booted_boot)
next
  case (2 p q)
  from 2(2,1) show ?case
  proof cases
    case (serves cancel stop x r st ws panic)
    then show ?thesis using 2(1) serve_mgr_inv [OF serves(3)] by (simp add: app_inv_def)
  next
    case (saves werr)
    then show ?thesis using 2(1) save_history_inv by blast
  qed (simp_all add: app_inv_def cleanup_tick_def close_tracker_def StopHealthManager_def mgr_inv_ops)
next
  case (3 p q)
  from 3(3,2) show ?case
    by cases (simp_all add: cleanup_tick_def close_tracker_def StopHealthManager_def)
qed


lemma boot_parts:
  assumes "boot be = Inr app"
  obtains e client vendor healthURL where
    "Load_config (bt_ParseDuration be) (bt_environ be) (bt_envfile be) = (e, ap_config app)"
    "NewBridgeFromConfig (bt_parse_text be) e (ap_config app) = Inr ((client, vendor, healthURL), ap_model app)"
    "ap_client app = boot_client be (ap_config app) client"
    "tv_root (ap_tools app) = SetWorkspaceRoot (bt_Getwd be) (sc_WorkspaceRoot (cf_Server (ap_config app)))"
    "register_all (bt_InferTool be) (tool_call (ap_tools app)) tool_table NewToolRegistry = Inr (ap_registry app)"
    "NewReactAgent (bt_NewAgent be) (Some (agent_config (ap_registry app) (ap_config app))) = Inr (ap_inner app)"
    "ap_runner app = NewRunnerWithAgent (react_Run (ap_inner app) (bt_stats be)) None None None"
    "ap_tracker app = boot_usage be (ap_config app)"
  using assms by (auto simp: boot_def Let_def split: prod.splits if_splits option.splits sum.splits)

lemma app_main_server:
  assumes "booted be app" and "sx_flusher x" and "sx_done x = None" and "\<forall>v. sx_marshal x v \<noteq> None"
  shows "main_server (ap_inner app) (ap_runner app) (request_env app None None x)"
proof -
  obtain s t h where a: "boot be = Inr (app\<lparr>ap_server := s, ap_tracker := t, ap_health := h\<rparr>)" (is "_ = Inr ?a")
    using assms(1) by (auto simp: booted_def)
  have "ap_runner ?a = NewRunnerWithAgent (react_Run (ap_inner ?a) (bt_stats be)) None None None" by (rule boot_parts [OF a])
  with assms(2-4) show ?thesis by (simp add: main_server_def request_env_def NewRunnerWithAgent_def)
qed

lemma mux_stream: "mux usage ''/api/chat/stream'' = Handler HandleChatStream"
proof -
  have "cleanPath ''/api/chat/stream'' = ''/api/chat/stream''" by code_simp
  then show ?thesis by (simp add: mux_def handlers_def)
qed

lemma boot_disk:
  "boot (be\<lparr>bt_disk := d\<rparr>) = (case boot be of Inl f \<Rightarrow> Inl f | Inr app \<Rightarrow> Inr (app\<lparr>ap_server := boot_state (be\<lparr>bt_disk := d\<rparr>)\<rparr>))"
  by (simp add: boot_def boot_raw_def boot_usage_def boot_client_def Let_def split: prod.split option.split sum.split)

text \<open>What the next start restores from the disk that a run leaves behind.\<close>

abbreviation restored :: "('o, 'b) boot_env \<Rightarrow> ('o, 'b) running \<Rightarrow> string \<Rightarrow> EMessage option list" where
  "restored be p \<equiv> conversations (boot_state (be\<lparr>bt_disk := pr_disk p\<rparr>))"

lemma next_boot:
  assumes "reach (started be) (app_step (bt_codec be)) p"
  shows "\<exists>app. boot (be\<lparr>bt_disk := pr_disk p\<rparr>) = Inr app \<and> conversations (ap_server app) = restored be p"
  using program.reach_inv [OF assms] by (auto simp: app_inv_def booted_def boot_disk)

lemma save_ok_file: "Save hc werr m path fs = (fs', Ok ()) \<Longrightarrow> mg_sessions m \<noteq> [] \<Longrightarrow> Save hc None m path fs = (fs', Ok ())"
  by (auto simp: Save_def split: outcome.splits option.splits)

lemma restored_saved:
  assumes "reach (started be) (app_step (bt_codec be)) p" and "pr_saved p = Some m"
    and "list_all (\<lambda>(_, ms). storable_msgs ms) (mg_sessions m)" and "mg_sessions m \<noteq> []"
    and "\<forall>d. \<exists>b. hc_marshal (bt_codec be) d = Inr b \<and> hc_unmarshal (bt_codec be) b = Inr d"
  shows "restored be p = messages_of m"
proof -
  obtain werr where s: "mgr_inv m" "Save (bt_codec be) werr m DefaultHistoryFile (bt_disk be) = (pr_disk p, Ok ())"
    using program.reach_inv [OF assms(1)] assms(2) by (auto simp: app_inv_def)
  have "mg_sessions (fst (Load (bt_codec be) (NewManager ''default'') DefaultHistoryFile (pr_disk p))) = mg_sessions m"
    using save_then_load [OF s(1) assms(3-5), of DefaultHistoryFile "bt_disk be" "''default''"] save_ok_file [OF s(2) assms(4)] by auto
  then show ?thesis by (simp add: boot_state_def LoadHistory_def messages_of_def fun_eq_iff)
qed

lemma storable_sessions:
  assumes "mgr_inv m" and "\<And>sid. storable_msgs (messages_of m sid)"
  shows "list_all (\<lambda>(_, ms). storable_msgs ms) (mg_sessions m)"
proof -
  have "storable_msgs ms" if "(sid, ms) \<in> set (mg_sessions m)" for sid ms
    using assms(2) [of sid] that map_of_is_SomeI [of "mg_sessions m" sid ms] assms(1) by (simp add: mgr_inv_def messages_of_def)
  then show ?thesis by (auto simp: list_all_iff)
qed

lemma save_succeeds:
  assumes "mgr_inv (sv_sessions (pr_server p))" and "list_all (\<lambda>(_, ms). storable_msgs ms) (mg_sessions (sv_sessions (pr_server p)))"
    and "mg_sessions (sv_sessions (pr_server p)) \<noteq> []"
    and "\<forall>d. \<exists>b. hc_marshal hc d = Inr b \<and> hc_unmarshal hc b = Inr d"
  shows "pr_saved (save_history hc None p) = Some (sv_sessions (pr_server p))"
  using save_then_load [OF assms, of DefaultHistoryFile "pr_disk p" "[]"] by (auto simp: save_history_def SaveHistory_def)

lemma serve_stream:
  assumes "reach (started be) (app_step (bt_codec be)) p" and "sx_flusher x" and "sx_done x = None" and "\<forall>v. sx_marshal x v \<noteq> None"
    and "hi_Path q = ''/api/chat/stream''" and "chat_post q message" and "sid = sessionID (sv_sessions (pr_server p)) q"
    and "ap_inner (pr_app p) (rs_world (sv_world (pr_server p)))
          (ToEinoSlice (FromEinoSlice (conversations (pr_server p) sid @ [Some (user_message message)]))) = (w, Inr (ms, err))"
    and "serve (pr_app p) None None x q (pr_server p) = (st', ws, panic)"
  shows "\<not> panic \<and> last ws = sse ''[DONE]''
    \<and> conversations st' = (conversations (pr_server p))(sid := conversations (pr_server p) sid
         @ [Some (user_message message), Some (assistant_message (concat (map em_Content ms)))])"
proof -
  have "booted be (pr_app p)" using program.reach_inv [OF assms(1)] by (simp add: app_inv_def)
  moreover have "HandleChatStream (request_env (pr_app p) None None x) q (pr_server p) = (st', ws, panic)"
    using assms(9) by (simp add: serve_def assms(5) mux_stream)
  ultimately show ?thesis using HandleChatStream_react [OF app_main_server assms(6-8)] assms(2-4) by blast
qed

subsection \<open>A sample\<close>

text \<open>A program whose agent answers \<open>pong\<close>, after it has done \<open>act\<close> to the world.\<close>

definition boot_with :: "'o \<Rightarrow> ('o tool_world \<Rightarrow> 'o tool_world) \<Rightarrow> ('o, dto) boot_env" where
  "boot_with sys act = \<lparr>bt_ParseDuration = (\<lambda>_. None),
     bt_environ = [''OPENAI_API_KEY'' \<mapsto> ''k'', ''OPENAI_BASE_URL'' \<mapsto> ''https://api.deepseek.com''], bt_envfile = None,
     bt_Getwd = Inr ''/ws'', bt_parse_text = (\<lambda>_. ''bad''), bt_rawdir = None,
     bt_usage = \<lparr>oe_mkdir = None, oe_open = None, oe_wal = None, oe_table = None, oe_index = None, oe_prepare = None\<rparr>,
     bt_rows = [], bt_seq = 0, bt_InferTool = text_infer, bt_tools = plain_tools,
     bt_NewAgent = (\<lambda>_. Inr (\<lambda>w _. (act w, Inr ([assistant_message ''pong''], None)))), bt_stats = [], bt_frontend = Inr ''page'',
     bt_codec = \<lparr>hc_marshal = Inr, hc_unmarshal = Inr\<rparr>, bt_disk = Map.empty,
     bt_world = \<lparr>tw_term = \<lparr>cmdCache = [], cacheTTL = 0, term_items = []\<rparr>, tw_sys = (Map.empty, sys), tw_http = []\<rparr>\<rparr>"

abbreviation sample_boot :: "(unit, dto) boot_env" where
  "sample_boot \<equiv> boot_with () (\<lambda>w. w)"

lemma sample_boots: "\<exists>app. boot (boot_with sys act) = Inr app"
proof -
  let ?e = "[''OPENAI_API_KEY'' \<mapsto> ''k'', ''OPENAI_BASE_URL'' \<mapsto> ''https://api.deepseek.com'']"
  define cfg where "cfg = snd (Load_config (\<lambda>_. None) ?e None)"
  have l: "Load_config (bt_ParseDuration (boot_with sys act)) (bt_environ (boot_with sys act)) (bt_envfile (boot_with sys act)) = (?e, cfg)"
    by (simp add: cfg_def boot_with_def Load_config_def LoadEnvFile_def Let_def)
  have k: "oc_APIKey (cf_OpenAI cfg) = ''k''" "oc_BaseURL (cf_OpenAI cfg) = ''https://api.deepseek.com''"
    by (simp_all add: cfg_def Load_config_def LoadEnvFile_def Let_def Getenv_def)
  have v: "ValidateBaseURL False ''https://api.deepseek.com'' = None" by code_simp
  have a: "(Getenv ?e ''ALLOW_PRIVATE_URLS'' = ''true'') = False" by (simp add: Getenv_def)
  have "case NewBridgeFromConfig (\<lambda>_. ''bad'') ?e cfg of Inr _ \<Rightarrow> True | Inl _ \<Rightarrow> False" unfolding cfg_def by code_simp
  then obtain client vendor health model where b: "NewBridgeFromConfig (bt_parse_text (boot_with sys act)) ?e cfg = Inr ((client, vendor, health), model)"
    by (auto simp: boot_with_def split: sum.splits)
  obtain reg where r: "register_all (bt_InferTool (boot_with sys act))
      (tool_call ((bt_tools (boot_with sys act))\<lparr>tv_root := SetWorkspaceRoot (bt_Getwd (boot_with sys act)) (sc_WorkspaceRoot (cf_Server cfg))\<rparr>)) tool_table NewToolRegistry = Inr reg"
    using text_infer_registers by (fastforce simp: boot_with_def)
  have n: "NewReactAgent (bt_NewAgent (boot_with sys act)) (Some (agent_config reg cfg)) = Inr (\<lambda>w _. (act w, Inr ([assistant_message ''pong''], None)))"
    by (simp add: NewReactAgent_def agent_config_def boot_with_def)
  have f: "bt_frontend (boot_with sys act) = Inr ''page''" by (simp add: boot_with_def)
  show ?thesis unfolding boot_def Let_def l by (simp add: k a v b r n f)
qed


lemma sample_inner: "boot (boot_with sys act) = Inr app \<Longrightarrow> ap_inner app w ms = (act w, Inr ([assistant_message ''pong''], None))"
proof -
  assume "boot (boot_with sys act) = Inr app"
  then have "NewReactAgent (bt_NewAgent (boot_with sys act)) (Some (agent_config (ap_registry app) (ap_config app))) = Inr (ap_inner app)"
    by (rule boot_parts)
  then have "(\<lambda>w _. (act w, Inr ([assistant_message ''pong''], None))) = ap_inner app"
    by (simp add: NewReactAgent_def agent_config_def boot_with_def)
  from this [symmetric] show ?thesis by simp
qed

definition sample_conn :: "(unit, 'o tool_world) run_state srv_env" where
  "sample_conn = \<lparr>sx_Generate = (\<lambda>w _. (w, Inr None)), sx_Stream = (\<lambda>w _. (w, Inr [])),
     sx_done = None, sx_now = 0, sx_now_append = 1, sx_marshal = (\<lambda>_. Some ''x''), sx_encode = cr_Reply, sx_quote = (\<lambda>s. s),
     sx_Model = [], sx_StatsLine = [], sx_StatsJSON = [], sx_stats_map = (\<lambda>_. None), sx_logger = (\<lambda>_. False), sx_flusher = True,
     sx_frontend = [], sx_file = plain_env, sx_root = [], sx_files = (\<lambda>_. None), sx_stat = (\<lambda>_. False), sx_web = plain_web,
     sx_ContentType = (\<lambda>_. []), sx_DetectContentType = (\<lambda>_. []), sx_lower = (\<lambda>r. r)\<rparr>"

lemma sample_conn_plain: "sx_flusher sample_conn" "sx_done sample_conn = None" "\<forall>v. sx_marshal sample_conn v \<noteq> None"
  by (simp_all add: sample_conn_def)

definition stream_request :: http_in where
  "stream_request = hi_request\<lparr>hi_Path := ''/api/chat/stream''\<rparr>"

lemma stream_request_post: "hi_Path stream_request = ''/api/chat/stream''" "chat_post stream_request ''hi''" "sessionID m stream_request = ''s''"
  by (simp_all add: stream_request_def chat_post_def hi_request_def sessionID_def)

lemma sample_codec: "\<forall>d. \<exists>b. hc_marshal (bt_codec (boot_with sys act)) d = Inr b \<and> hc_unmarshal (bt_codec (boot_with sys act)) b = Inr d"
  by (simp add: boot_with_def)

lemma sample_restored: "messages_of (sv_sessions (boot_state (boot_with sys act))) sid = []"
  by (simp add: boot_state_def LoadHistory_def Load_def boot_with_def NewManager_def messages_of_def)

text \<open>A run up to its first request, and the save without one.\<close>

lemma sample_start:
  obtains app p where "boot (boot_with sys act) = Inr app" "p = \<lparr>pr_app = app, pr_disk = bt_disk (boot_with sys act), pr_stage = Serving, pr_saved = None\<rparr>"
    "reach (started (boot_with sys act)) (app_step (bt_codec (boot_with sys act))) p" "conversations (pr_server p) ''s'' = []"
proof -
  obtain app where b: "boot (boot_with sys act) = Inr app" using sample_boots [of sys act] by blast
  let ?p = "\<lparr>pr_app = app, pr_disk = bt_disk (boot_with sys act), pr_stage = Serving, pr_saved = None\<rparr>"
  have "reach (started (boot_with sys act)) (app_step (bt_codec (boot_with sys act))) ?p" using b by (intro reach.start) (auto simp: started_def)
  then show thesis using that [OF b refl] boot_server [OF b] by (simp add: sample_restored)
qed

lemma sample_turn:
  obtains p where "reach (started (boot_with sys act)) (app_step (bt_codec (boot_with sys act))) p" "pr_stage p = Serving"
    "\<And>sid. conversations (pr_server p) sid = (if sid = ''s'' then [Some (user_message ''hi''), Some (assistant_message ''pong'')] else [])"
proof (rule sample_start)
  fix app p
  assume a: "boot (boot_with sys act) = Inr app" "p = \<lparr>pr_app = app, pr_disk = bt_disk (boot_with sys act), pr_stage = Serving, pr_saved = None\<rparr>"
    "reach (started (boot_with sys act)) (app_step (bt_codec (boot_with sys act))) p" "conversations (pr_server p) ''s'' = []"
  obtain st' ws panic where s: "serve (pr_app p) None None sample_conn stream_request (pr_server p) = (st', ws, panic)" by (metis prod_cases3)
  have i: "ap_inner (pr_app p) w ms = (act w, Inr ([assistant_message ''pong''], None))" for w ms using sample_inner [OF a(1)] a(2) by simp
  have c: "conversations st' sid = (if sid = ''s'' then [Some (user_message ''hi''), Some (assistant_message ''pong'')] else [])" for sid
    using serve_stream [OF a(3) sample_conn_plain stream_request_post(1,2) stream_request_post(3) [symmetric] i s] a(2) boot_server [OF a(1)]
    by (simp add: sample_restored assistant_message_def zero_EMessage_def)
  have "reach (started (boot_with sys act)) (app_step (bt_codec (boot_with sys act))) (set_server p st')"
    by (rule reach.move [OF a(3) app_step.serves [OF _ s]]) (simp add: a(2))
  then show thesis by (rule that) (simp_all add: c a(2))
qed

subsection \<open>Properties\<close>

text \<open>C22: A program that has started has an API key and a base URL that the validator accepts, talks to that URL with
  that key and the configured model, and its agent was made with exactly the nine tools, the configured step
  limit, the window of recent messages and the system prompt; every tool works in the configured workspace.\<close>

theorem boot_validated:
  assumes "boot be = Inr app" and "infers (bt_InferTool be)"
  shows "\<exists>e tools. Load_config (bt_ParseDuration be) (bt_environ be) (bt_envfile be) = (e, ap_config app)
    \<and> oa_apiKey (ap_client app) = oc_APIKey (cf_OpenAI (ap_config app)) \<and> oa_apiKey (ap_client app) \<noteq> []
    \<and> (\<exists>base. base \<noteq> [] \<and> ValidateBaseURL (Getenv e ''ALLOW_PRIVATE_URLS'' = ''true'') base = None
        \<and> oa_baseURL (ap_client app) = TrimRight base ''/'' @ ''/chat/completions'')
    \<and> map tl_info tools = map (\<lambda>(name, descr, _). Some (name, descr)) tool_table
    \<and> bt_NewAgent be \<lparr>rc_Tools = Plain tools, rc_MaxStep = as_MaxStep (cf_Agent (ap_config app)), rc_Rewriter = MessageRewriter,
         rc_Modifier = MessageModifier systemPrompt\<rparr> = Inr (ap_inner app)
    \<and> tv_root (ap_tools app) = SetWorkspaceRoot (bt_Getwd be) (sc_WorkspaceRoot (cf_Server (ap_config app)))"
proof (rule boot_parts [OF assms(1)])
  fix e client vendor healthURL
  assume l: "Load_config (bt_ParseDuration be) (bt_environ be) (bt_envfile be) = (e, ap_config app)"
    and b: "NewBridgeFromConfig (bt_parse_text be) e (ap_config app) = Inr ((client, vendor, healthURL), ap_model app)"
    and c: "ap_client app = boot_client be (ap_config app) client"
    and v: "tv_root (ap_tools app) = SetWorkspaceRoot (bt_Getwd be) (sc_WorkspaceRoot (cf_Server (ap_config app)))"
    and r: "register_all (bt_InferTool be) (tool_call (ap_tools app)) tool_table NewToolRegistry = Inr (ap_registry app)"
    and a: "NewReactAgent (bt_NewAgent be) (Some (agent_config (ap_registry app) (ap_config app))) = Inr (ap_inner app)"
  let ?tools = "einoTools (ap_registry app) toolNames"
  have t: "map tl_info ?tools = map (\<lambda>(name, descr, _). Some (name, descr)) tool_table"
    using all_tools_given [OF assms(2), of "tool_call (ap_tools app)"] r by simp
  have n: "bt_NewAgent be \<lparr>rc_Tools = Plain ?tools, rc_MaxStep = as_MaxStep (cf_Agent (ap_config app)), rc_Rewriter = MessageRewriter,
      rc_Modifier = MessageModifier systemPrompt\<rparr> = Inr (ap_inner app)"
    using a by (simp add: NewReactAgent_def agent_config_def select_tools_def split: sum.splits)
  have c: "oa_apiKey (ap_client app) = oa_apiKey client" "oa_baseURL (ap_client app) = oa_baseURL client"
    using c by (simp_all add: boot_client_def split: option.split)
  note m = resolved_model_validated [OF b [unfolded NewBridgeFromConfig_def]]
  show ?thesis unfolding c by (intro exI [of _ e] exI [of _ ?tools] conjI l t n v m [THEN conjunct1] m [THEN conjunct2, THEN conjunct1]
      m [THEN conjunct2, THEN conjunct2, THEN conjunct2])
qed

theorem boot_validated_witness:
  "\<exists>app. boot sample_boot = Inr app \<and> oa_apiKey (ap_client app) \<noteq> []"
proof -
  obtain app where b: "boot sample_boot = Inr app" using sample_boots [of "()" "\<lambda>w. w"] by blast
  have "infers (bt_InferTool sample_boot)" using text_infer_infers by (simp add: boot_with_def)
  from boot_validated [OF b this] b show ?thesis by blast
qed

text \<open>Neither the raw log nor the usage database can keep the program from starting: with other outcomes of
  their set-up it fails with the same message or starts as the same program but for these two parts.\<close>

theorem optional_parts_not_fatal:
  "case (boot (be\<lparr>bt_rawdir := r, bt_usage := u\<rparr>), boot be) of
     (Inl fatal', Inl fatal) \<Rightarrow> fatal' = fatal
   | (Inr app', Inr app) \<Rightarrow> ap_config app' = ap_config app \<and> ap_registry app' = ap_registry app \<and> ap_inner app' = ap_inner app
       \<and> ap_runner app' = ap_runner app \<and> ap_frontend app' = ap_frontend app \<and> ap_server app' = ap_server app
   | _ \<Rightarrow> False"
  by (simp add: boot_def boot_state_def Let_def split: prod.split option.split sum.split)

text \<open>C7: A streamed chat of the started program, from the router to the stored conversation: the request reaches the
  agent, which is given the session's history and the new message, and what it delivers is sent to the client
  and stored as one assistant message after the user's; no other session changes.\<close>

theorem served_stream_chat:
  assumes "reach (started be) (app_step (bt_codec be)) p" and "sx_flusher x" and "sx_done x = None" and "\<forall>v. sx_marshal x v \<noteq> None"
    and "hi_Path q = ''/api/chat/stream''" and "chat_post q message" and "sid = sessionID (sv_sessions (pr_server p)) q"
    and "ap_inner (pr_app p) (rs_world (sv_world (pr_server p)))
          (ToEinoSlice (FromEinoSlice (conversations (pr_server p) sid @ [Some (user_message message)]))) = (w, Inr (ms, None))"
    and "serve (pr_app p) None None x q (pr_server p) = (st', ws, panic)"
  shows "\<not> panic \<and> last ws = sse ''[DONE]''
    \<and> conversations st' = (conversations (pr_server p))(sid := conversations (pr_server p) sid
         @ [Some (user_message message), Some (assistant_message (concat (map em_Content ms)))])"
  by (rule serve_stream [OF assms])

theorem served_stream_chat_witness:
  "\<exists>p. reach (started sample_boot) (app_step (bt_codec sample_boot)) p
    \<and> conversations (fst (serve (pr_app p) None None sample_conn stream_request (pr_server p))) ''s'' =
       [Some (user_message ''hi''), Some (assistant_message ''pong'')]"
proof (rule sample_start)
  fix app p
  assume a: "boot sample_boot = Inr app" "p = \<lparr>pr_app = app, pr_disk = bt_disk sample_boot, pr_stage = Serving, pr_saved = None\<rparr>"
    "reach (started sample_boot) (app_step (bt_codec sample_boot)) p" "conversations (pr_server p) ''s'' = []"
  obtain st' ws panic where s: "serve (pr_app p) None None sample_conn stream_request (pr_server p) = (st', ws, panic)" by (metis prod_cases3)
  have i: "ap_inner (pr_app p) w ms = (w, Inr ([assistant_message ''pong''], None))" for w ms using sample_inner [OF a(1)] a(2) by simp
  from served_stream_chat [OF a(3) sample_conn_plain stream_request_post(1,2) stream_request_post(3) [symmetric] i s] s a(3,4)
  show ?thesis by (intro exI [of _ p]) (simp add: assistant_message_def zero_EMessage_def)
qed






text \<open>If every session has expired by the time of the shutdown, nothing is written: the next start restores the
  sessions of the previous start again.\<close>

theorem expired_history_returns:
  assumes "reach (started be) (app_step (bt_codec be)) p" and "pr_saved p = Some m" and "mg_sessions m = []"
  shows "restored be p = conversations (boot_state be)"
proof -
  have "pr_disk p = bt_disk be" using program.reach_inv [OF assms(1)] assms(2,3) by (auto simp: app_inv_def Save_def)
  then show ?thesis by simp
qed

theorem expired_history_returns_witness:
  "\<exists>p. reach (started sample_boot) (app_step (bt_codec sample_boot)) p \<and> pr_stage p = HistorySaved
    \<and> restored sample_boot p = conversations (boot_state sample_boot)"
proof (rule sample_start)
  fix app and p :: "(unit, dto) running"
  assume a: "boot sample_boot = Inr app" "p = \<lparr>pr_app = app, pr_disk = bt_disk sample_boot, pr_stage = Serving, pr_saved = None\<rparr>"
    "reach (started sample_boot) (app_step (bt_codec sample_boot)) p"
  let ?q = "save_history (bt_codec sample_boot) None p"
  have r: "reach (started sample_boot) (app_step (bt_codec sample_boot)) ?q"
    using a(2) by (intro reach.move [OF a(3)] app_step.saves) simp
  have e: "mg_sessions (sv_sessions (pr_server p)) = []" using boot_server [OF a(1)] a(2)
    by (simp add: boot_state_def LoadHistory_def Load_def boot_with_def NewManager_def)
  then have "pr_saved ?q = Some (sv_sessions (pr_server p))" "pr_stage ?q = HistorySaved"
    by (simp_all add: save_history_def SaveHistory_def Save_def)
  with expired_history_returns [OF r _ e] r show ?thesis by blast
qed

end
