(* ===== verification/Confinement.thy ===== *)
theory Confinement
  imports Program
begin

section \<open>What served requests can do to the file system\<close>

text \<open>
  Handlers, runner and agent change the world only by calling the agent framework's loop, and the loop acts
  on it only through the tools it was given and the model. Put together with the confinement of the tools,
  no run of the program that does without the terminal writes a file outside the workspace.
\<close>

subsection \<open>The framework\<close>

text \<open>A run of the loop is a sequence of tool calls and of other steps (model calls), which leave the files alone.\<close>

inductive loop_run :: "'o tool_world ToolRegistry \<Rightarrow> string set \<Rightarrow> 'o tool_world \<Rightarrow> 'o tool_world \<Rightarrow> bool" for reg used where
  idle: "loop_run reg used w w"
| tool: "loop_run reg used w w1 \<Longrightarrow> name \<in> used \<Longrightarrow> loop_run reg used w (fst (Dispatch reg w1 name args))"
| model: "loop_run reg used w w1 \<Longrightarrow> fst (tw_sys w2) = fst (tw_sys w1) \<Longrightarrow> loop_run reg used w w2"

definition acts_by_tools :: "'o tool_world ToolRegistry \<Rightarrow> string set \<Rightarrow> 'o tool_world react_stream \<Rightarrow> bool" where
  "acts_by_tools reg used inner \<longleftrightarrow> (\<forall>w ms. loop_run reg used w (fst (inner w ms)))"

text \<open>The files outside a directory stay as they are.\<close>

definition keeps_outside :: "string \<Rightarrow> 'o tool_world \<Rightarrow> 'o tool_world \<Rightarrow> bool" where
  "keeps_outside ws w w' \<longleftrightarrow> (\<forall>p. \<not> HasPrefix p ws \<longrightarrow> fst (tw_sys w') p = fst (tw_sys w) p)"

lemma keeps_outside_refl [simp]: "keeps_outside ws w w"
  by (simp add: keeps_outside_def)

lemma keeps_outside_trans: "keeps_outside ws w w1 \<Longrightarrow> keeps_outside ws w1 w2 \<Longrightarrow> keeps_outside ws w w2"
  by (simp add: keeps_outside_def)

lemma loop_run_outside:
  assumes "loop_run reg used w w'" and "register_all InferTool (tool_call v) tool_table NewToolRegistry = Inr reg" and "infers InferTool"
    and "tv_root v \<noteq> []" and "''terminal'' \<notin> used"
  shows "keeps_outside (tv_root v) w w'"
  using assms(1)
proof (induction rule: loop_run.induct)
  case (tool w w1 name args)
  have "name \<noteq> ''terminal''" using tool.hyps assms(5) by blast
  from dispatch_inside [OF assms(2-4) this, of w1 args] have "keeps_outside (tv_root v) w1 (fst (Dispatch reg w1 name args))"
    by (simp add: only_inside_def keeps_outside_def)
  with tool.IH show ?case by (rule keeps_outside_trans)
next
  case (model w w1 w2)
  then show ?case by (simp add: keeps_outside_def)
qed simp

subsection \<open>From the handlers down to the loop\<close>

text \<open>A relation on worlds that every call of the loop respects is respected by the adapter.\<close>

lemma agent_world:
  assumes "rn_store r = None" and "rn_guards r = None" and "rn_mw r = None" and "rn_agent r = react_Run inner stats"
    and "\<And>w ms. Q w (fst (inner w ms))"
  shows "Q (rs_world st) (rs_world (fst (agent_Generate r st msgs)))"
    and "Q (rs_world st) (rs_world (fst (agent_Stream r (react_Stream inner cancel) cancel stop st msgs)))"
proof -
  let ?q = "\<lparr>aq_Messages = FromEinoSlice msgs, aq_SessionID = [], aq_ToolNames = []\<rparr>"
  obtain w res where i: "inner (rs_world st) (ToEinoSlice (FromEinoSlice msgs)) = (w, res)" by fastforce
  then have Q: "Q (rs_world st) w" using assms(5) by (metis fst_conv)
  obtain a where a: "react_Run inner stats (rs_world st) ?q = (w, a)" using i by (simp add: react_Run_def)
  have "rs_world (fst (Run r (Some ?q) st)) = w" using assms(1-4) a
    by (auto simp: Run_def prepareRequest_def call_agent_def appendConversation_def Let_def split: sum.splits option.splits)
  then show "Q (rs_world st) (rs_world (fst (agent_Generate r st msgs)))" using Q by (simp add: agent_Generate_def case_prod_beta)
  obtain b where b: "react_Stream inner cancel (rs_world st) ?q = (w, b)" using i by (simp add: react_Stream_def)
  have "rs_world (fst (runner_Stream r (react_Stream inner cancel) cancel (Some ?q) st)) = w" using assms(1-4) b
    by (auto simp: runner_Stream_def prepareRequest_def apply_before_def appendConversation_def Let_def split: sum.splits option.splits prod.splits)
  then show "Q (rs_world st) (rs_world (fst (agent_Stream r (react_Stream inner cancel) cancel stop st msgs)))"
    using Q by (simp add: agent_Stream_def case_prod_beta)
qed

abbreviation server_world :: "('s, 'w) run_state srv_state \<Rightarrow> 'w" where
  "server_world st \<equiv> rs_world (sv_world st)"

definition world_kept :: "('w \<Rightarrow> 'w \<Rightarrow> bool) \<Rightarrow> ('s, 'w) run_state srv_env \<Rightarrow> bool" where
  "world_kept Q env \<longleftrightarrow> (\<forall>w. Q w w) \<and> (\<forall>st msgs. Q (rs_world st) (rs_world (fst (sx_Generate env st msgs))))
     \<and> (\<forall>st msgs. Q (rs_world st) (rs_world (fst (sx_Stream env st msgs))))"

lemma world_keptD:
  assumes "world_kept Q env"
  shows "Q w w" "sx_Generate env st msgs = (st1, res) \<Longrightarrow> Q (rs_world st) (rs_world st1)"
    "sx_Stream env st msgs = (st1, res2) \<Longrightarrow> Q (rs_world st) (rs_world st1)"
  using assms unfolding world_kept_def by (auto dest: spec) (metis fst_conv)+

lemma log_world [simp]: "sv_world (logUserMessage env sid t st) = sv_world st" "sv_world (logAssistantResponse env sid t st) = sv_world st"
  "sv_world (append_turn env sid ms st) = sv_world st"
  by (simp_all add: logUserMessage_def logAssistantResponse_def append_turn_def)

lemma snapshot_world: "snapshot env sid m st = (st1, msgs) \<Longrightarrow> sv_world st1 = sv_world st"
  by (auto simp: snapshot_def split: prod.splits)

lemma vision_world [simp]:
  assumes "world_kept Q env"
  shows "Q (server_world st) (server_world (fst (processVisionNonStream env sid url prompt st)))"
    "Q (server_world st) (server_world (fst (processVisionStream env sid url prompt st)))"
  using world_keptD [OF assms]
  by (auto simp: processVisionNonStream_def processVisionStream_def Let_def split: prod.splits sum.splits option.splits dest!: snapshot_world)

lemma handler_world:
  assumes "world_kept Q env" and "h \<in> insert ServeFrontend (snd ` set handlers)"
  shows "Q (server_world st) (server_world (fst (h env r st)))"
proof -
  note d = world_keptD [OF assms(1)]
  have "Q (server_world st) (server_world (fst (ServeFrontend env r st)))" using d(1) by (simp add: ServeFrontend_def)
  moreover have "Q (server_world st) (server_world (fst (HandleChat env r st)))"
    using d vision_world(1) [OF assms(1), of "logUserMessage env sid m st" for sid m]
    by (auto simp: HandleChat_def Let_def split: prod.splits sum.splits option.splits dest!: snapshot_world)
  moreover have "Q (server_world st) (server_world (fst (HandleChatStream env r st)))"
    using d by (auto simp: HandleChatStream_def Let_def split: prod.splits sum.splits option.splits dest!: snapshot_world)
  moreover have "Q (server_world st) (server_world (fst (HandleVision env r st)))"
    using d(1) vision_world(1) [OF assms(1)] by (auto simp: HandleVision_def split: option.splits)
  moreover have "Q (server_world st) (server_world (fst (HandleVisionNativeStream env r st)))"
  proof (cases "hi_vision r")
    case (Some p)
    then show ?thesis using d(1) vision_world(2) [OF assms(1), of "logUserMessage env (sessionID (sv_sessions st) r) (picture_tag @ snd p) st"]
      by (cases p) (auto simp: HandleVisionNativeStream_def Let_def case_prod_beta)
  qed (simp add: HandleVisionNativeStream_def d(1))
  ultimately show ?thesis using assms(2) by (auto simp: handlers_def)
qed


subsection \<open>The program\<close>

lemma booted_parts:
  assumes "booted be app"
  shows "rn_store (ap_runner app) = None" "rn_guards (ap_runner app) = None" "rn_mw (ap_runner app) = None"
    "rn_agent (ap_runner app) = react_Run (ap_inner app) (bt_stats be)"
    "register_all (bt_InferTool be) (tool_call (ap_tools app)) tool_table NewToolRegistry = Inr (ap_registry app)"
proof -
  obtain s t h where a: "boot be = Inr (app\<lparr>ap_server := s, ap_tracker := t, ap_health := h\<rparr>)" (is "_ = Inr ?a")
    using assms by (auto simp: booted_def)
  have "ap_runner ?a = NewRunnerWithAgent (react_Run (ap_inner ?a) (bt_stats be)) None None None" by (rule boot_parts [OF a])
  then show "rn_store (ap_runner app) = None" "rn_guards (ap_runner app) = None" "rn_mw (ap_runner app) = None"
    "rn_agent (ap_runner app) = react_Run (ap_inner app) (bt_stats be)" by (simp_all add: NewRunnerWithAgent_def)
  have "register_all (bt_InferTool be) (tool_call (ap_tools ?a)) tool_table NewToolRegistry = Inr (ap_registry ?a)" by (rule boot_parts [OF a])
  then show "register_all (bt_InferTool be) (tool_call (ap_tools app)) tool_table NewToolRegistry = Inr (ap_registry app)" by simp
qed

lemma serve_world:
  assumes "booted be app" and "\<And>w. Q w w" and "\<And>w ms. Q w (fst (ap_inner app w ms))"
  shows "Q (server_world st) (server_world (fst (serve app cancel stop x r st)))"
proof -
  have "world_kept Q (request_env app cancel stop x)"
    using agent_world [OF booted_parts(1-4) [OF assms(1)], of Q] assms(2,3) by (simp add: world_kept_def request_env_def)
  note h = handler_world [OF this]
  show ?thesis
  proof (cases "mux (ap_tracker app \<noteq> None) (hi_Path r) :: (unit, 'a tool_world) run_state route")
    case (Handler g)
    then have "g \<in> insert ServeFrontend (snd ` set handlers)"
      by (auto simp: mux_def split: if_splits option.splits dest!: map_of_SomeD intro: rev_image_eqI)
    from h [OF this, of st r] Handler show ?thesis by (simp add: serve_def)
  qed (simp_all add: serve_def assms(2))
qed

lemma clean_seg_nonempty: "[] \<notin> set acc \<Longrightarrow> [] \<notin> set (clean_seg b acc w)"
  by (cases acc) (simp_all add: clean_seg_def, auto)

lemma clean_segs_nonempty: "[] \<notin> set acc \<Longrightarrow> [] \<notin> set (foldl (clean_seg b) acc ws)"
  by (induction ws arbitrary: acc) (simp_all add: clean_seg_nonempty)

lemma Clean_nonempty: "Clean p \<noteq> []"
proof -
  have "[] \<notin> set (segs p)" using clean_segs_nonempty [of "[]"] by (simp add: segs_def)
  then show ?thesis by (cases "segs p" rule: remdups_adj.cases) (auto simp: Clean_def path_of_def)
qed

lemma booted_root: "booted be app \<Longrightarrow> tv_root (ap_tools app) = SetWorkspaceRoot (bt_Getwd be) (sc_WorkspaceRoot (cf_Server (ap_config app)))"
  by (auto simp: booted_def elim!: boot_parts)

lemma booted_config:
  assumes "booted be app"
  obtains e where "Load_config (bt_ParseDuration be) (bt_environ be) (bt_envfile be) = (e, ap_config app)"
  using assms by (auto simp: booted_def elim!: boot_parts)

lemma booted_same: "booted be a \<Longrightarrow> booted be b \<Longrightarrow> ap_tools a = ap_tools b \<and> ap_registry a = ap_registry b \<and> ap_inner a = ap_inner b
    \<and> ap_client a = ap_client b \<and> ap_config a = ap_config b"
  by (cases a; cases b) (auto simp: booted_def)

text \<open>A preorder on worlds that every turn of the agent respects relates the world at the start of the program to
  the world at any later time.\<close>

definition world_preorder :: "('o, 'b) boot_env \<Rightarrow> ('o tool_world \<Rightarrow> 'o tool_world \<Rightarrow> bool) \<Rightarrow> bool" where
  "world_preorder be Q \<longleftrightarrow> (\<forall>w. Q w w) \<and> (\<forall>a b c. Q a b \<longrightarrow> Q b c \<longrightarrow> Q a c)
     \<and> (\<forall>app w ms. booted be app \<longrightarrow> Q w (fst (ap_inner app w ms)))"

definition world_inv :: "('o, 'b) boot_env \<Rightarrow> ('o, 'b) running \<Rightarrow> bool" where
  "world_inv be p \<longleftrightarrow> app_inv be p \<and> (\<forall>Q. world_preorder be Q \<longrightarrow> Q (bt_world be) (server_world (pr_server p)))"

lemma world_inv_booted: "world_inv be p \<Longrightarrow> booted be (pr_app p)"
  by (simp add: world_inv_def app_inv_def)

lemma world_invI: "app_inv be p \<Longrightarrow> (\<And>Q. world_preorder be Q \<Longrightarrow> Q (bt_world be) (server_world (pr_server p))) \<Longrightarrow> world_inv be p"
  unfolding world_inv_def by (intro conjI allI impI)

lemma world_invD:
  assumes "world_inv be p" and "world_preorder be Q"
  shows "Q (bt_world be) (server_world (pr_server p))"
  using assms(1) [unfolded world_inv_def, THEN conjunct2, THEN spec, of Q] assms(2) by (rule mp)

lemma world_inv_same:
  assumes "world_inv be p" and "app_inv be q" and "server_world (pr_server q) = server_world (pr_server p)"
  shows "world_inv be q"
  using assms(2) by (rule world_invI) (simp add: assms(3) world_invD [OF assms(1)])

lemma world_inv_step:
  assumes "world_inv be p" and "app_step (bt_codec be) p q"
  shows "world_inv be q"
proof -
  have i: "app_inv be q" using program.kept [OF _ assms(2)] assms(1) by (simp add: world_inv_def)
  from assms(2) show ?thesis
  proof cases
    case (serves cancel stop x r st ws panic)
    show ?thesis
    proof (rule world_invI [OF i])
      fix Q :: "'a tool_world \<Rightarrow> 'a tool_world \<Rightarrow> bool"
      assume Q: "world_preorder be Q"
      have "Q (server_world (pr_server p)) (server_world (fst (serve (pr_app p) cancel stop x r (pr_server p))))"
      proof (rule serve_world [OF world_inv_booted [OF assms(1)]])
        show "Q w w" for w using Q unfolding world_preorder_def by (elim conjE allE)
        show "Q w (fst (ap_inner (pr_app p) w ms))" for w ms
          using Q [unfolded world_preorder_def, THEN conjunct2, THEN conjunct2, rule_format, OF world_inv_booted [OF assms(1)]] .
      qed
      then have "Q (server_world (pr_server p)) (server_world (pr_server q))" using serves by simp
      with world_invD [OF assms(1) Q] show "Q (bt_world be) (server_world (pr_server q))"
        using Q [unfolded world_preorder_def, THEN conjunct2, THEN conjunct1, rule_format] by iprover
    qed
  next
    case (saves werr)
    then have "server_world (pr_server q) = server_world (pr_server p)" by (simp add: save_history_def split: prod.splits outcome.splits)
    then show ?thesis by (rule world_inv_same [OF assms(1) i])
  qed (use world_inv_same [OF assms(1) i] in \<open>simp_all add: cleanup_tick_def close_tracker_def StopHealthManager_def\<close>)
qed

interpretation worlds: state_machine "started be" "app_step (bt_codec be)" "world_inv be" for be
proof (unfold_locales, goal_cases)
  case (1 p)
  then have "app_inv be p" by (rule program.initially)
  with 1 show ?case by (auto simp: world_inv_def world_preorder_def started_def boot_server boot_state_def LoadHistory_def)
next
  case (2 p q)
  then show ?case by (rule world_inv_step)
qed

lemma program_world:
  assumes "reach (started be) (app_step (bt_codec be)) p" and "world_preorder be Q"
  shows "Q (bt_world be) (server_world (pr_server p))"
  using worlds.reach_inv [OF assms(1)] assms(2) by (rule world_invD)

lemma reach_booted: "reach (started be) (app_step (bt_codec be)) p \<Longrightarrow> booted be (pr_app p)"
  using worlds.reach_inv world_inv_booted by blast

lemma sample_config: "booted (boot_with sys act) app \<Longrightarrow> sc_WorkspaceRoot (cf_Server (ap_config app)) = ''.''"
proof -
  assume "booted (boot_with sys act) app"
  then obtain e where "Load_config (bt_ParseDuration (boot_with sys act)) (bt_environ (boot_with sys act)) (bt_envfile (boot_with sys act)) = (e, ap_config app)"
    by (rule booted_config)
  from arg_cong [OF this, where f = "\<lambda>x. sc_WorkspaceRoot (cf_Server (snd x))"] show ?thesis
    by (simp add: boot_with_def Load_config_def LoadEnvFile_def Let_def GetEnv_def Getenv_def)
qed

subsection \<open>Properties\<close>



end
