(* ===== verification/ModelCalls.thy ===== *)
theory ModelCalls
  imports Bridge
begin

section \<open>Model calls through the bridge (internal/adk/llm/bridge.go, protocol/openai.go)\<close>

text \<open>
  The bridge and its copies share one client. This theory runs their calls on the client's state: what a
  call leaves of endpoint, key, rate limiter and telemetry is what the next one starts with. The requests
  that reached the network are kept in order.
\<close>

record llm_Bridge =
  br_model :: string
  br_tools :: "(string \<times> string \<times> string option) list"

definition NewBridge :: "string \<Rightarrow> llm_Bridge" where
  "NewBridge model = \<lparr>br_model = model, br_tools = []\<rparr>"

definition bridge_WithTools :: "llm_Bridge \<Rightarrow> (string \<times> string \<times> string option) list \<Rightarrow> llm_Bridge" where
  "bridge_WithTools b tools = b\<lparr>br_tools := tools\<rparr>"

text \<open>The client behind the bridge, the state of its connections, the world of the hooks and the requests sent.\<close>

record 's model_state =
  mm_client :: OpenAI
  mm_net :: "Vendor \<Rightarrow> net_state"
  mm_world :: 's
  mm_sent :: "target list"

text \<open>What one call of the framework meets: its context (session, cancellation), its options, and what the
  network answers. \<open>ke_cancel\<close> is the chunk at which the collector finds the context ended.\<close>

record 's call_env =
  ke_hooks :: "'s LifecycleHook list"
  ke_sid :: "string option"
  ke_float64 :: "32 word \<Rightarrow> 64 word"
  ke_opts :: common_options
  ke_chat_wait :: wait_env
  ke_chat_unmarshal :: "string \<Rightarrow> gerror + chat_result"
  ke_chat_io :: "nat \<Rightarrow> chat_io"
  ke_stream_wait :: wait_env
  ke_stream_unmarshal :: "string \<Rightarrow> sse_data option"
  ke_stream_io :: "nat \<Rightarrow> attempt_io"
  ke_accept :: "nat \<Rightarrow> bool"
  ke_ctxErr :: gerror
  ke_cancel :: "nat option"

definition chat_call :: "'s call_env \<Rightarrow> Request \<Rightarrow> 's model_state \<Rightarrow> 's model_state \<times> (gerror + Response)" where
  "chat_call k req m =
     (case Chat (ke_hooks k) \<lparr>cx_sid = ke_sid k, cx_unmarshal = ke_chat_unmarshal k\<rparr> (ke_chat_wait k) (ke_chat_io k)
             (mm_world m) (mm_client m) req of (w, oa, sent, r) \<Rightarrow>
      (m\<lparr>mm_world := w, mm_client := oa, mm_sent := mm_sent m @ sent\<rparr>, r))"

definition stream_env_of :: "'s call_env \<Rightarrow> 's stream_env" where
  "stream_env_of k = \<lparr>se_hooks = ke_hooks k, se_unmarshal = ke_stream_unmarshal k, se_accept = ke_accept k, se_ctxErr = ke_ctxErr k,
     se_sid = ke_sid k, se_io = ke_stream_io k\<rparr>"

definition stream_call :: "'s call_env \<Rightarrow> Request \<Rightarrow> 's model_state \<Rightarrow> 's model_state \<times> (gerror + Chunk list)" where
  "stream_call k req m =
     (case Stream (stream_env_of k) (ke_stream_wait k) req (mm_client m) (mm_net m) (mm_world m) of
        Inl (e, w) \<Rightarrow> (m\<lparr>mm_world := w\<rparr>, Inl e)
      | Inr st \<Rightarrow> (m\<lparr>mm_client := ss_o st, mm_net := ss_net st, mm_world := ss_world st, mm_sent := mm_sent m @ ss_sends st\<rparr>,
          Inr (ss_out st)))"

text \<open>Whether the collector meets the error that makes it ask again without streaming.\<close>

definition interrupted :: "Chunk \<Rightarrow> bool" where
  "interrupted c \<longleftrightarrow> ch_Type c = ChunkError \<and> (case ch_Error c of None \<Rightarrow> False | Some e \<Rightarrow> errors_As e is_StreamInterrupted \<noteq> None)"

fun recovers :: "nat option \<Rightarrow> nat \<Rightarrow> Chunk list \<Rightarrow> bool" where
  "recovers cancel i [] = False"
| "recovers cancel i (c # cs) =
     (cancel \<noteq> Some i \<and> ch_Type c \<noteq> ChunkDone \<and> (if ch_Type c = ChunkError then interrupted c else recovers cancel (Suc i) cs))"

text \<open>The calls of the framework. A nil message among the input is a panic: \<open>None\<close>.\<close>

definition bridge_Generate ::
  "llm_Bridge \<Rightarrow> 's call_env \<Rightarrow> EMessage option list \<Rightarrow> 's model_state \<Rightarrow> 's model_state \<times> (gerror + EMessage) option" where
  "bridge_Generate b k input m = (case buildRequest (ke_float64 k) input (br_tools b) (ke_opts k) of
     None \<Rightarrow> (m, None)
   | Some req \<Rightarrow> (case chat_call k req m of (m1, r) \<Rightarrow> (m1, Some (generate r))))"

definition bridge_Stream ::
  "llm_Bridge \<Rightarrow> 's call_env \<Rightarrow> EMessage option list \<Rightarrow> 's model_state \<Rightarrow> 's model_state \<times> (gerror + pipe_item list) option" where
  "bridge_Stream b k input m = (case buildRequest (ke_float64 k) input (br_tools b) (ke_opts k) of
     None \<Rightarrow> (m, None)
   | Some req \<Rightarrow> (case stream_call k req m of (m1, r) \<Rightarrow> (case r of
       Inl e \<Rightarrow> (m1, Some (Inl e))
     | Inr chunks \<Rightarrow>
         if recovers (ke_cancel k) 0 chunks
         then (case chat_call k req m1 of (m2, again) \<Rightarrow> (m2, Some (Inr (bridge_loop again (ke_cancel k) 0 collected_init chunks))))
         else (m1, Some (Inr (bridge_loop (Inl (ErrMsg [])) (ke_cancel k) 0 collected_init chunks))))))"

text \<open>Without recovery the answer of the recovery call is not looked at.\<close>

lemma bridge_loop_no_recovery:
  "\<not> recovers cancel i cs \<Longrightarrow> bridge_loop r cancel i s cs = bridge_loop r' cancel i s cs"
  by (induction cs arbitrary: i s) (auto simp: interrupted_def split: option.splits if_splits)

subsection \<open>What calls do to the client\<close>

text \<open>Every call changes the client in a few elementary ways only. A preorder that contains them relates the
  client before and after any call, and what it lets a client send is all that calls send.\<close>

locale client_relation =
  fixes Q :: "OpenAI \<Rightarrow> OpenAI \<Rightarrow> bool" and allowed :: "OpenAI \<Rightarrow> target \<Rightarrow> bool"
  assumes refl: "Q oa oa" and trans: "Q a b \<Longrightarrow> Q b c \<Longrightarrow> Q a c"
    and limited: "Q oa (oa\<lparr>oa_rateLimiter := rl\<rparr>)"
    and rotated: "Q oa (fst (rotateKey oa))"
    and failed_over: "getFailoverModel (oa_failover oa) m v = (mo, u, True) \<Longrightarrow> Q oa (applyFailover oa mo u)"
    and used: "Q oa (oa\<lparr>oa_lastUsage := us\<rparr>)"
    and recorded: "Q oa (oa\<lparr>oa_Telemetry := fst (RecordFromContext (oa_Telemetry oa) sid (oa_model oa)
      (Vendor_String (oa_vendor oa)) dur us)\<rparr>)"
    and own_target: "allowed oa (target_of oa req)"
    and allowed_back: "Q oa oa1 \<Longrightarrow> allowed oa1 t \<Longrightarrow> allowed oa t"
begin

lemma limit_rel: "limit we req oa = (oa1, lim) \<Longrightarrow> Q oa oa1"
  by (auto simp: limit_def limited split: prod.splits)

lemma chatDirect_rel: "chatDirect cx io req oa = (oa1, sent, r) \<Longrightarrow> Q oa oa1 \<and> (\<forall>t \<in> set sent. allowed oa t)"
  by (auto simp: chatDirect_def Let_def refl recorded own_target split: sum.splits if_splits)

lemma chat_loop_rel: "chat_loop cx io req left attempt le oa = (oa1, sent, r) \<Longrightarrow> Q oa oa1 \<and> (\<forall>t \<in> set sent. allowed oa t)"
proof (induction left arbitrary: attempt le oa oa1 sent r)
  case (Suc left)
  obtain fm fu ok where g: "getFailoverModel (oa_failover oa) (oa_model oa) (Vendor_String (oa_vendor oa)) = (fm, fu, ok)"
    using prod_cases3 by blast
  let ?oa = "if attempt > 0 then applyFailover oa fm fu else oa"
  obtain oa2 sent2 r2 where d: "chatDirect cx (io attempt) req ?oa = (oa2, sent2, r2)" using prod_cases3 by blast
  have one: "Q oa oa2 \<and> (\<forall>t \<in> set sent2. allowed oa t)" if "attempt > 0 \<longrightarrow> ok"
  proof -
    have "Q oa ?oa" using that g failed_over [of oa _ _ fm fu] refl by auto
    with chatDirect_rel [OF d] show ?thesis by (blast intro: trans allowed_back)
  qed
  show ?case
  proof (cases "attempt > 0 \<and> (\<not> shouldFailover (oa_failover oa) (oa_model oa) (Vendor_String (oa_vendor oa)) le \<or> \<not> ok)")
    case True
    with Suc.prems g show ?thesis by (auto simp: Let_def refl split: if_splits)
  next
    case False
    show ?thesis
    proof (cases r2)
      case (Inr resp)
      with Suc.prems g d False one show ?thesis by (auto simp: Let_def)
    next
      case (Inl e)
      obtain oa3 sent3 r3 where l: "chat_loop cx io req left (Suc attempt) e oa2 = (oa3, sent3, r3)" using prod_cases3 by blast
      from Suc.IH [OF l] one False have "Q oa oa3 \<and> (\<forall>t \<in> set (sent2 @ sent3). allowed oa t)" by (auto intro: trans allowed_back)
      with Suc.prems g d False Inl l show ?thesis by (auto simp: Let_def)
    qed
  qed
qed (simp add: refl)

lemma chatWithFailover_rel: "chatWithFailover cx io req oa = (oa1, sent, r) \<Longrightarrow> Q oa oa1 \<and> (\<forall>t \<in> set sent. allowed oa t)"
  unfolding chatWithFailover_def by (rule chat_loop_rel)

lemma Chat_rel: "Chat hooks cx we io s oa req = (s1, oa1, sent, r) \<Longrightarrow> Q oa oa1 \<and> (\<forall>t \<in> set sent. allowed oa t)"
  by (auto simp: Chat_def split: prod.splits option.splits sum.splits
      dest!: limit_rel chatWithFailover_rel intro: trans allowed_back)

lemma recordStreamCall_rel: "Q oa (fst (recordStreamCall sid d e oa))"
  using trans [OF used recorded] by (auto simp: recordStreamCall_def Let_def used)

lemma stream_success_rel: "Q (ss_o st) (ss_o (stream_success env req io st))"
  using recordStreamCall_rel [of "ss_o st" "se_sid env" "ai_dur io" None] by (auto simp: stream_success_def split: prod.splits)

lemma read_response_rel:
  assumes "read_response env req io st = (st1, c)"
  shows "Q (ss_o st) (ss_o st1)"
proof -
  have s: "Q (ss_o st) (ss_o (stream_success env req io s))" if "ss_o s = (ss_o st)\<lparr>oa_lastUsage := u\<rparr>" for s u
    using trans [OF used [of "ss_o st" u]] stream_success_rel [of s env req io] that by simp
  with assms show ?thesis by (auto simp: read_response_def Let_def used split: prod.splits option.splits if_splits)
qed

lemma one_attempt_rel:
  assumes "one_attempt env req a st = (st1, c)"
  shows "Q (ss_o st) (ss_o st1)"
  using assms by (auto simp: one_attempt_def Let_def refl rotated dest!: read_response_rel split: prod.splits sum.splits if_splits)

lemma stream_loop_rel: "Q (ss_o st) (ss_o (stream_loop env req mr fm left attempt st))"
proof (induction left arbitrary: attempt st)
  case 0
  then show ?case by (simp add: Let_def recordStreamCall_rel)
next
  case (Suc left)
  obtain m u ok where g: "getFailoverModel (oa_failover (ss_o st)) (oa_model (ss_o st)) (Vendor_String (oa_vendor (ss_o st))) = (m, u, ok)"
    using prod_cases3 by blast
  obtain st1 c where a: "one_attempt env req attempt st = (st1, c)" by fastforce
  have "Q (ss_o st) (ss_o (stream_loop env req mr fm left (Suc attempt) (st\<lparr>ss_o := applyFailover (ss_o st) m u\<rparr>)))" if ok
    using Suc.IH [of "st\<lparr>ss_o := applyFailover (ss_o st) m u\<rparr>" "Suc attempt"] failed_over [of "ss_o st" _ _ m u] that g
    by (auto intro: trans)
  moreover have "Q (ss_o st) (ss_o (stream_loop env req mr fm left (Suc attempt) st1))"
    using Suc.IH one_attempt_rel [OF a] by (blast intro: trans)
  ultimately show ?case using g a one_attempt_rel [OF a] by (auto simp: stream_loop.simps(2) Let_def refl)
qed

lemma streamWithFailover_rel: "Q (ss_o st) (ss_o (streamWithFailover env we req st))"
proof -
  obtain oa1 lim where l: "limit we req (ss_o st) = (oa1, lim)" by fastforce
  have "Q (ss_o st) (ss_o (stream_loop env req mr fm left 0 (st\<lparr>ss_o := oa1\<rparr>)))" for mr fm left
    using trans [OF limit_rel [OF l]] stream_loop_rel [of "st\<lparr>ss_o := oa1\<rparr>" env req mr fm left 0] by simp
  with l limit_rel [OF l] show ?thesis by (auto simp: streamWithFailover_def Let_def split: option.splits)
qed

text \<open>A streamed call sends to the endpoint and model it starts with; its keys are those the client rotates through.\<close>

lemma one_attempt_sent:
  assumes "one_attempt env req a st = (st1, c)"
  shows "\<exists>ts. ss_sends st1 = ss_sends st @ ts \<and> (\<forall>t \<in> set ts. allowed (ss_o st) t)"
  using one_attempt_sends [OF assms] own_target [of "ss_o st" req] by auto

lemma stream_loop_sent: "\<exists>ts. ss_sends (stream_loop env req mr fm left attempt st) = ss_sends st @ ts \<and> (\<forall>t \<in> set ts. allowed (ss_o st) t)"
proof (induction left arbitrary: attempt st)
  case 0
  then show ?case by (simp add: Let_def)
next
  case (Suc left)
  obtain m u ok where g: "getFailoverModel (oa_failover (ss_o st)) (oa_model (ss_o st)) (Vendor_String (oa_vendor (ss_o st))) = (m, u, ok)"
    using prod_cases3 by blast
  obtain st1 c where a: "one_attempt env req attempt st = (st1, c)" by fastforce
  obtain ts where t: "ss_sends st1 = ss_sends st @ ts" "\<forall>t \<in> set ts. allowed (ss_o st) t" using one_attempt_sent [OF a] by blast
  let ?fo = "st\<lparr>ss_o := applyFailover (ss_o st) m u\<rparr>"
  have f: "\<exists>ts. ss_sends (stream_loop env req mr fm left (Suc attempt) ?fo) = ss_sends st @ ts \<and> (\<forall>t \<in> set ts. allowed (ss_o st) t)" if ok
  proof -
    have "Q (ss_o st) (ss_o ?fo)" using failed_over [of "ss_o st" _ _ m u] that g by auto
    with Suc.IH [of "Suc attempt" ?fo] show ?thesis by (auto intro: allowed_back)
  qed
  have n: "\<exists>ts. ss_sends (stream_loop env req mr fm left (Suc attempt) st1) = ss_sends st @ ts \<and> (\<forall>t \<in> set ts. allowed (ss_o st) t)"
  proof -
    obtain us where "ss_sends (stream_loop env req mr fm left (Suc attempt) st1) = ss_sends st1 @ us" "\<forall>t \<in> set us. allowed (ss_o st1) t"
      using Suc.IH by blast
    with t one_attempt_rel [OF a] show ?thesis by (intro exI [of _ "ts @ us"]) (auto intro: allowed_back)
  qed
  show ?case using g a t f n by (auto simp: stream_loop.simps(2) Let_def)
qed

lemma streamWithFailover_sent:
  assumes "ss_sends st = []"
  shows "\<forall>t \<in> set (ss_sends (streamWithFailover env we req st)). allowed (ss_o st) t"
proof -
  obtain oa1 lim where l: "limit we req (ss_o st) = (oa1, lim)" by fastforce
  have "\<forall>t \<in> set (ss_sends (stream_loop env req mr fm left 0 (st\<lparr>ss_o := oa1\<rparr>))). allowed (ss_o st) t" for mr fm left
    using stream_loop_sent [of env req mr fm left 0 "st\<lparr>ss_o := oa1\<rparr>"] limit_rel [OF l] assms by (auto intro: allowed_back)
  with l assms show ?thesis by (auto simp: streamWithFailover_def Let_def split: option.splits)
qed

lemma chat_call_rel:
  assumes "chat_call k req m = (m1, r)"
  shows "Q (mm_client m) (mm_client m1) \<and> (\<exists>ts. mm_sent m1 = mm_sent m @ ts \<and> (\<forall>t \<in> set ts. allowed (mm_client m) t))"
  using assms by (auto simp: chat_call_def split: prod.splits dest!: Chat_rel)

lemma stream_call_rel:
  assumes "stream_call k req m = (m1, r)"
  shows "Q (mm_client m) (mm_client m1) \<and> (\<exists>ts. mm_sent m1 = mm_sent m @ ts \<and> (\<forall>t \<in> set ts. allowed (mm_client m) t))"
proof -
  have "Q (mm_client m) (ss_o (streamWithFailover (stream_env_of k) (ke_stream_wait k) q (stream_init (mm_client m) (mm_net m) w)))"
    "\<forall>t \<in> set (ss_sends (streamWithFailover (stream_env_of k) (ke_stream_wait k) q (stream_init (mm_client m) (mm_net m) w))). allowed (mm_client m) t"
    for q and w :: 'a
    using streamWithFailover_rel [of "stream_init (mm_client m) (mm_net m) w" "stream_env_of k" "ke_stream_wait k" q]
      streamWithFailover_sent [of "stream_init (mm_client m) (mm_net m) w" "stream_env_of k" "ke_stream_wait k" q]
    by (simp_all add: stream_init_def)
  with assms show ?thesis by (auto simp: stream_call_def Stream_def refl split: prod.splits sum.splits)
qed

lemma bridge_rel:
  "Q (mm_client m) (mm_client (fst (bridge_Generate b k input m)))
     \<and> (\<exists>ts. mm_sent (fst (bridge_Generate b k input m)) = mm_sent m @ ts \<and> (\<forall>t \<in> set ts. allowed (mm_client m) t))"
  "Q (mm_client m) (mm_client (fst (bridge_Stream b k input m)))
     \<and> (\<exists>ts. mm_sent (fst (bridge_Stream b k input m)) = mm_sent m @ ts \<and> (\<forall>t \<in> set ts. allowed (mm_client m) t))"
proof -
  show "Q (mm_client m) (mm_client (fst (bridge_Generate b k input m)))
     \<and> (\<exists>ts. mm_sent (fst (bridge_Generate b k input m)) = mm_sent m @ ts \<and> (\<forall>t \<in> set ts. allowed (mm_client m) t))"
    by (auto simp: bridge_Generate_def refl split: option.splits prod.splits dest!: chat_call_rel)
  have two: "Q (mm_client m) (mm_client m2) \<and> (\<exists>ts. mm_sent m2 = mm_sent m @ ts \<and> (\<forall>t \<in> set ts. allowed (mm_client m) t))"
    if s: "stream_call k req m = (m1, r)" and c: "chat_call k req m1 = (m2, r2)" for req m1 m2 r r2
  proof -
    obtain ts us where "mm_sent m1 = mm_sent m @ ts" "\<forall>t \<in> set ts. allowed (mm_client m) t"
      "mm_sent m2 = mm_sent m1 @ us" "\<forall>t \<in> set us. allowed (mm_client m1) t" using stream_call_rel [OF s] chat_call_rel [OF c] by blast
    then show ?thesis using stream_call_rel [OF s] chat_call_rel [OF c]
      by (intro conjI exI [of _ "ts @ us"]) (auto intro: trans allowed_back)
  qed
  then show "Q (mm_client m) (mm_client (fst (bridge_Stream b k input m)))
     \<and> (\<exists>ts. mm_sent (fst (bridge_Stream b k input m)) = mm_sent m @ ts \<and> (\<forall>t \<in> set ts. allowed (mm_client m) t))"
    by (auto simp: bridge_Stream_def refl split: option.splits prod.splits sum.splits dest: stream_call_rel)
qed

end

subsection \<open>Where requests go and what is recorded\<close>

text \<open>The endpoints a client may use, each with its model and vendor: its own and those of the failover rule.\<close>

definition routes :: "OpenAI \<Rightarrow> (string \<times> string \<times> Vendor) set" where
  "routes oa = insert (oa_baseURL oa, oa_model oa, oa_vendor oa)
     {(completions_url u, mo, DetectVendor u) | mo u. \<exists>m v. getFailoverModel (oa_failover oa) m v = (mo, u, True)}"

definition client_keys :: "OpenAI \<Rightarrow> string set" where
  "client_keys oa = insert (oa_apiKey oa) (set (oa_apiKeys oa))"

abbreviation client_rows :: "OpenAI \<Rightarrow> usage_row list option" where
  "client_rows oa \<equiv> t_tracker (oa_Telemetry oa)"

definition row_names :: "(string \<times> string \<times> Vendor) set \<Rightarrow> usage_row \<Rightarrow> bool" where
  "row_names R row \<longleftrightarrow> (case row of (sid, mo, vendor, _) \<Rightarrow> \<exists>url v. (url, mo, v) \<in> R \<and> vendor = Vendor_String v)"

definition rows_added :: "(usage_row \<Rightarrow> bool) \<Rightarrow> usage_row list option \<Rightarrow> usage_row list option \<Rightarrow> bool" where
  "rows_added P before after \<longleftrightarrow> (case before of
     None \<Rightarrow> after = None
   | Some rows \<Rightarrow> \<exists>new. after = Some (rows @ new) \<and> list_all P new)"

definition stays :: "OpenAI \<Rightarrow> OpenAI \<Rightarrow> bool" where
  "stays oa oa1 \<longleftrightarrow> oa_failover oa1 = oa_failover oa \<and> oa_apiKey oa1 = oa_apiKey oa \<and> oa_apiKeys oa1 = oa_apiKeys oa
     \<and> (oa_baseURL oa1, oa_model oa1, oa_vendor oa1) \<in> routes oa \<and> rows_added (row_names (routes oa)) (client_rows oa) (client_rows oa1)"

definition allowed_target :: "OpenAI \<Rightarrow> target \<Rightarrow> bool" where
  "allowed_target oa t \<longleftrightarrow> (case t of (url, key, mo, req) \<Rightarrow> key \<in> client_keys oa \<and> (\<exists>v. (url, mo, v) \<in> routes oa))"

lemma rows_added_refl [simp]: "rows_added P rows rows"
  by (auto simp: rows_added_def split: option.splits intro: exI [of _ "[]"])

lemma rows_added_trans:
  assumes "rows_added P a b" and "rows_added P' b c" and "\<And>r. P' r \<Longrightarrow> P r"
  shows "rows_added P a c"
  using assms by (fastforce simp: rows_added_def list_all_iff split: option.splits)

lemma routes_mono: "stays oa oa1 \<Longrightarrow> routes oa1 \<subseteq> routes oa"
  by (auto simp: stays_def routes_def)

lemma currentKey_client: "currentKey oa \<in> client_keys oa"
  by (simp add: currentKey_def client_keys_def)

lemma recorded_rows:
  "client_rows (oa\<lparr>oa_Telemetry := fst (RecordFromContext (oa_Telemetry oa) sid mo v dur us)\<rparr>) =
     map_option (\<lambda>rows. rows @ [(case sid of Some s \<Rightarrow> s | None \<Rightarrow> [], mo, v, dur,
       case us of Some u \<Rightarrow> PromptTokens u | None \<Rightarrow> 0, case us of Some u \<Rightarrow> CompletionTokens u | None \<Rightarrow> 0)]) (client_rows oa)"
  by (simp add: RecordFromContext_def record_call_def Let_def)

interpretation routed: client_relation stays allowed_target
proof
  fix oa :: OpenAI and sid dur us
  let ?oa = "oa\<lparr>oa_Telemetry := fst (RecordFromContext (oa_Telemetry oa) sid (oa_model oa) (Vendor_String (oa_vendor oa)) dur us)\<rparr>"
  have "rows_added (row_names (routes oa)) (client_rows oa) (client_rows ?oa)"
    unfolding recorded_rows by (auto simp: rows_added_def row_names_def routes_def split: option.splits)
  then show "stays oa ?oa" by (simp add: stays_def routes_def)
next
  fix a b c
  assume s: "stays a b" "stays b c"
  have "row_names (routes a) row" if "row_names (routes b) row" for row
    using that routes_mono [OF s(1)] by (cases row) (auto simp: row_names_def)
  with s have "rows_added (row_names (routes a)) (client_rows a) (client_rows c)"
    unfolding stays_def by (blast intro: rows_added_trans)
  then show "stays a c" using s routes_mono [OF s(1)] by (auto simp: stays_def)
next
  fix oa oa1 t
  assume s: "stays oa oa1" "allowed_target oa1 t"
  then show "allowed_target oa t" using routes_mono [OF s(1)] by (auto simp: allowed_target_def stays_def client_keys_def)
next
  fix oa :: OpenAI and m v mo u
  assume "getFailoverModel (oa_failover oa) m v = (mo, u, True)"
  then show "stays oa (applyFailover oa mo u)" by (auto simp: stays_def routes_def applyFailover_def)
qed (auto simp: stays_def routes_def rotateKey_def allowed_target_def target_of_def currentKey_client)

subsection \<open>One call, one row\<close>

definition call_row :: "string option \<Rightarrow> OpenAI \<Rightarrow> 64 word \<Rightarrow> Usage option \<Rightarrow> usage_row" where
  "call_row sid oa dur us = (case sid of Some s \<Rightarrow> s | None \<Rightarrow> [], oa_model oa, Vendor_String (oa_vendor oa), dur,
     case us of Some u \<Rightarrow> PromptTokens u | None \<Rightarrow> 0, case us of Some u \<Rightarrow> CompletionTokens u | None \<Rightarrow> 0)"

abbreviation add_row :: "usage_row \<Rightarrow> usage_row list option \<Rightarrow> usage_row list option" where
  "add_row row \<equiv> map_option (\<lambda>rows. rows @ [row])"

definition chat_rows :: "string option \<Rightarrow> OpenAI \<Rightarrow> OpenAI \<Rightarrow> gerror + Response \<Rightarrow> bool" where
  "chat_rows sid oa oa1 r \<longleftrightarrow> (case r of
     Inl _ \<Rightarrow> client_rows oa1 = client_rows oa
   | Inr resp \<Rightarrow> \<exists>dur. client_rows oa1 = add_row (call_row sid oa1 dur (r_Usage resp)) (client_rows oa))"

lemma chat_rows_cong: "client_rows oa = client_rows oa' \<Longrightarrow> chat_rows sid oa oa1 r = chat_rows sid oa' oa1 r"
  by (simp add: chat_rows_def split: sum.splits)

lemma chatDirect_rows: "chatDirect cx io req oa = (oa1, sent, r) \<Longrightarrow> chat_rows (cx_sid cx) oa oa1 r"
  by (auto simp: chatDirect_def Let_def chat_rows_def call_row_def RecordFromContext_def record_call_def split: sum.splits)

lemma chat_loop_rows: "chat_loop cx io req left attempt le oa = (oa1, sent, r) \<Longrightarrow> chat_rows (cx_sid cx) oa oa1 r"
proof (induction left arbitrary: attempt le oa oa1 sent r)
  case (Suc left)
  obtain fm fu ok where g: "getFailoverModel (oa_failover oa) (oa_model oa) (Vendor_String (oa_vendor oa)) = (fm, fu, ok)"
    using prod_cases3 by blast
  let ?oa = "if attempt > 0 then applyFailover oa fm fu else oa"
  obtain oa2 sent2 r2 where d: "chatDirect cx (io attempt) req ?oa = (oa2, sent2, r2)" using prod_cases3 by blast
  have "client_rows ?oa = client_rows oa" by (simp add: applyFailover_def)
  then have one: "chat_rows (cx_sid cx) oa oa2 r2" using chatDirect_rows [OF d] chat_rows_cong by blast
  show ?case
  proof (cases r2)
    case (Inr resp)
    with Suc.prems g d one show ?thesis by (auto simp: Let_def chat_rows_def split: if_splits)
  next
    case (Inl e)
    obtain oa3 sent3 r3 where l: "chat_loop cx io req left (Suc attempt) e oa2 = (oa3, sent3, r3)" using prod_cases3 by blast
    have "client_rows oa2 = client_rows oa" using one Inl by (simp add: chat_rows_def)
    with Suc.IH [OF l] have "chat_rows (cx_sid cx) oa oa3 r3" using chat_rows_cong by blast
    with Suc.prems g d Inl l show ?thesis by (auto simp: Let_def chat_rows_def split: if_splits)
  qed
qed (simp add: chat_rows_def)

lemma limit_rows: "limit we req oa = (oa1, lim) \<Longrightarrow> client_rows oa1 = client_rows oa"
  by (auto simp: limit_def split: prod.splits)

lemma chat_call_rows:
  assumes "chat_call k req m = (m1, r)" and "ke_hooks k = []"
  shows "chat_rows (ke_sid k) (mm_client m) (mm_client m1) r"
proof -
  let ?cx = "\<lparr>cx_sid = ke_sid k, cx_unmarshal = ke_chat_unmarshal k\<rparr>"
  obtain oa1 lim where l: "limit (ke_chat_wait k) req (mm_client m) = (oa1, lim)" by fastforce
  obtain oa2 sent r2 where c: "chatWithFailover ?cx (ke_chat_io k) req oa1 = (oa2, sent, r2)" using prod_cases3 by blast
  have "chat_rows (ke_sid k) (mm_client m) oa2 r2"
    using chat_loop_rows [OF c [unfolded chatWithFailover_def]] chat_rows_cong [OF limit_rows [OF l]] by simp
  with assms l c limit_rows [OF l] show ?thesis
    by (auto simp: chat_call_def Chat_def chat_rows_def split: option.splits sum.splits)
qed

text \<open>Reading a response that ends well, or that has delivered nothing, adds no chunk that would make the
  collector ask again.\<close>

definition calm :: "Chunk list \<Rightarrow> bool" where
  "calm cs \<longleftrightarrow> list_all (\<lambda>c. \<not> interrupted c) cs"

definition calmly :: "readStreamState \<Rightarrow> readStreamState \<Rightarrow> bool" where
  "calmly s s1 \<longleftrightarrow> (\<exists>cs. rs_out s1 = rs_out s @ cs \<and> calm cs)"

lemma calm_simps [simp]: "calm []" "calm (c # cs) \<longleftrightarrow> \<not> interrupted c \<and> calm cs" "calm (cs @ ds) \<longleftrightarrow> calm cs \<and> calm ds"
  by (auto simp: calm_def)

lemma not_interrupted [simp]: "ch_Type c \<noteq> ChunkError \<Longrightarrow> \<not> interrupted c"
  by (simp add: interrupted_def)

lemma calmly_refl [simp]: "rs_out s1 = rs_out s \<Longrightarrow> calmly s s1"
  by (auto simp: calmly_def)

lemma calmly_trans: "calmly s s1 \<Longrightarrow> calmly s1 s2 \<Longrightarrow> calmly s s2"
  by (force simp: calmly_def)

lemma calmly_send: "send cfg s c = (s1, ok) \<Longrightarrow> \<not> interrupted c \<Longrightarrow> calmly s s1"
  by (auto simp: send_def calmly_def split: if_splits)

lemma calmly_sendChunk: "\<not> interrupted c \<Longrightarrow> calmly s (sendChunk cfg s c)"
  by (auto simp: sendChunk_def calmly_def)

lemma calmly_send_list: "send_list cfg s cs = (s1, ok) \<Longrightarrow> calm cs \<Longrightarrow> calmly s s1"
  by (induction cs arbitrary: s) (auto split: prod.splits if_splits dest: calmly_send intro: calmly_trans)

lemma calmly_pre: "calmly s' s1 \<Longrightarrow> rs_out s' = rs_out s \<Longrightarrow> calmly s s1"
  by (simp add: calmly_def)

lemma add_call_out [simp]: "rs_out (add_call s tc) = rs_out s"
  by (simp add: add_call_def Let_def)

lemma calmly_calls: "calls_loop cfg s tcs = (s1, ok) \<Longrightarrow> calmly s s1"
proof (induction tcs arbitrary: s)
  case (Cons tc tcs)
  have start: "calmly s s2" if "send cfg ((add_call s tc)\<lparr>rs_started := x\<rparr>) (call_chunk ChunkToolCallStart y) = (s2, ok2)" for s2 ok2 x y
    using calmly_send [OF that] by (simp add: calmly_pre call_chunk_def zero_Chunk_def)
  show ?case using Cons.prems Cons.IH [of "add_call s tc"] calmly_pre [of "add_call s tc" s1 s]
    by (auto simp: Let_def split: prod.splits if_splits dest!: start Cons.IH intro: calmly_trans)
qed simp

lemma calmly_finish_loop: "finish_loop cfg s is = (s1, ok) \<Longrightarrow> calmly s s1"
proof (induction "is" arbitrary: s)
  case (Cons i "is")
  have start: "calmly s s2" if "send cfg (s\<lparr>rs_acc := x\<rparr>) (call_chunk ChunkToolCall y) = (s2, ok2)" for s2 ok2 x y
    using calmly_send [OF that] by (simp add: calmly_pre call_chunk_def zero_Chunk_def)
  show ?case using Cons.prems
    by (auto simp: Let_def split: prod.splits if_splits option.splits dest!: start Cons.IH intro: calmly_trans)
qed simp

lemma calmly_usage: "calmly s (usage_step cfg s u)"
proof -
  obtain s1 ok where s: "send cfg (s\<lparr>rs_lastUsage := Some u\<rparr>) ((zero_Chunk ChunkUsage)\<lparr>ch_Usage := Some u\<rparr>) = (s1, ok)" by fastforce
  have c: "calmly s s1" using calmly_send [OF s] by (simp add: calmly_pre zero_Chunk_def)
  have "\<not> interrupted c" if "contextWarning t mo u' = Some c" for t mo u' c using contextWarning_type [OF that] by simp
  with s c calmly_trans [OF c calmly_sendChunk] show ?thesis by (auto simp: usage_step_def Let_def split: option.splits)
qed

lemma calm_text [simp]: "t \<noteq> ChunkError \<Longrightarrow> \<not> interrupted (text_chunk t x)"
  by (simp add: text_chunk_def zero_Chunk_def)

lemma calmly_finish:
  assumes "finish_step cfg s = (s1, stop, err)"
  shows "calmly s s1"
proof -
  obtain th r x where f: "flush (rs_think s) = (th, r, x)" using prod_cases3 by blast
  let ?cs = "if r \<noteq> [] then [text_chunk ChunkReasoning r] else []"
  obtain s2 ok2 where l: "send_list cfg (s\<lparr>rs_think := th\<rparr>) ?cs = (s2, ok2)" by fastforce
  obtain s3 ok3 where n: "finish_loop cfg s2 (rs_order s2) = (s3, ok3)" by fastforce
  obtain s4 ok4 where e: "send cfg s3 (zero_Chunk ChunkDone) = (s4, ok4)" by fastforce
  have "calmly (s\<lparr>rs_think := th\<rparr>) s2" by (rule calmly_send_list [OF l]) simp
  then have "calmly s s2" by (rule calmly_pre) simp
  moreover have "calmly s3 s4" by (rule calmly_send [OF e]) (simp add: zero_Chunk_def)
  ultimately show ?thesis using assms f l n e calmly_finish_loop [OF n]
    by (auto simp: finish_step_def split: if_splits intro: calmly_trans)
qed

lemma calmly_choice:
  assumes "process_choice cfg s d = (s1, stop, err)"
  shows "calmly s s1"
proof -
  obtain t1 ok1 where a: "send_list cfg s (reasoning_chunks d) = (t1, ok1)" by fastforce
  obtain t2 cs where b: "content_chunks cfg t1 (sd_Content d) = (t2, cs)" by fastforce
  obtain t3 ok3 where c: "send_list cfg t2 cs = (t3, ok3)" by fastforce
  obtain t4 ok4 where e: "calls_loop cfg t3 (sd_ToolCalls d) = (t4, ok4)" by fastforce
  have "calmly s t1" by (rule calmly_send_list [OF a]) (simp add: reasoning_chunks_def Let_def)
  moreover have "rs_out t2 = rs_out t1 \<and> calm cs" using b by (auto simp: content_chunks_def split: if_splits prod.splits)
  moreover from this have "calmly t1 t3" using calmly_send_list [OF c] by (auto intro: calmly_pre)
  ultimately show ?thesis using assms a b c e calmly_calls [OF e]
    by (auto simp: process_choice_def split: if_splits dest!: calmly_finish intro: calmly_trans)
qed

lemma calmly_event:
  assumes "process_event cfg s e = (s1, stop, err)" and "sr_Error e = None \<or> \<not> rs_emitted s1"
  shows "calmly s s1"
proof (cases "sr_Error e")
  case None
  have "calmly s (case sr_Usage e of Some u \<Rightarrow> usage_step cfg s u | None \<Rightarrow> s)" by (simp add: calmly_usage split: option.splits)
  with assms None show ?thesis
    by (auto simp: process_event_def Let_def split: list.splits dest!: calmly_choice intro: calmly_trans)
next
  case (Some msg)
  with assms show ?thesis by (auto simp: process_event_def sendErr_def send_def split: if_splits)
qed

lemma calmly_lines:
  assumes "read_lines cfg un s ls scanErr = (res, e)"
  shows "case res of ScanEnd s1 \<Rightarrow> calmly s s1 | ScanReturn s1 err \<Rightarrow> err = None \<or> \<not> rs_emitted s1 \<longrightarrow> calmly s s1"
  using assms
proof (induction ls arbitrary: s)
  case (Cons l ls)
  let ?d = "TrimSpace (TrimPrefix (TrimSpace l) ''data:'')"
  consider (skip) "TrimSpace l = [] \<or> \<not> HasPrefix (TrimSpace l) ''data:''"
    | (eof) "TrimSpace l \<noteq> []" "HasPrefix (TrimSpace l) ''data:''" "?d = ''[DONE]''"
    | (data) "TrimSpace l \<noteq> []" "HasPrefix (TrimSpace l) ''data:''" "?d \<noteq> ''[DONE]''" by blast
  then show ?case
  proof cases
    case skip
    with Cons show ?thesis by (auto simp: Let_def)
  next
    case eof
    obtain s1 ok where "send cfg s (zero_Chunk ChunkDone) = (s1, ok)" by fastforce
    with Cons.prems eof calmly_send [OF this] show ?thesis by (auto simp: zero_Chunk_def)
  next
    case data
    obtain s1 stop err where p: "processSSEData cfg un s ?d = (s1, stop, err)" using prod_cases3 by blast
    have calm: "calmly s s1" if "err = None \<or> \<not> rs_emitted s1"
    proof (cases "un ?d")
      case (Some ev)
      with p have q: "process_event cfg s ev = (s1, stop, err)" by (simp add: processSSEData_def)
      then have "sr_Error ev = None \<or> \<not> rs_emitted s1" using that by (auto simp: process_event_def split: option.splits)
      with calmly_event [OF q] show ?thesis .
    qed (use p in \<open>simp add: processSSEData_def\<close>)
    show ?thesis
    proof (cases "err = None \<and> \<not> stop")
      case True
      then have "read_lines cfg un s1 ls scanErr = (res, e)" using Cons.prems data p by (simp add: Let_def)
      from Cons.IH [OF this] calm True show ?thesis by (auto split: scan_result.splits intro: calmly_trans)
    next
      case False
      then have "res = ScanReturn s1 (streamErr (rs_emitted s1) err) \<or> res = ScanReturn s1 None \<and> err = None"
        using Cons.prems data p by (auto simp: Let_def split: if_splits)
      with calm show ?thesis by (auto simp: streamErr_def split: option.splits if_splits)
    qed
  qed
qed auto

lemma calmly_readStream:
  assumes "readStream cfg un s ls scanErr stalled = (s1, err)" and "err = None \<or> \<not> rs_emitted s1"
  shows "calmly s s1"
proof -
  obtain res e where r: "read_lines cfg un s ls scanErr = (res, e)" by fastforce
  have idle: "calmly s (sendChunk cfg s2 ((zero_Chunk ChunkError)\<lparr>ch_Error := Some (ErrMsg ''stream idle timeout'')\<rparr>))" if "calmly s s2" for s2
    by (rule calmly_trans [OF that calmly_sendChunk]) (simp add: interrupted_def zero_Chunk_def errors_As_def)
  from calmly_lines [OF r] r assms idle show ?thesis
    by (auto simp: readStream_def Let_def streamErr_def split: scan_result.splits option.splits if_splits)
qed

text \<open>What an attempt hands to the tracker: nothing if it is followed by another, and at most one row otherwise,
  and that only if the collector will take the stream for complete.\<close>

definition stream_rows :: "string option \<Rightarrow> OpenAI \<Rightarrow> 's stream_state \<Rightarrow> bool" where
  "stream_rows sid oa st \<longleftrightarrow> client_rows (ss_o st) = client_rows oa
     \<or> (\<exists>dur us. client_rows (ss_o st) = add_row (call_row sid (ss_o st) dur us) (client_rows oa)) \<and> calm (ss_out st)"

lemma stream_success_rows:
  "\<exists>dur us. client_rows (ss_o (stream_success env req io st))
     = add_row (call_row (se_sid env) (ss_o (stream_success env req io st)) dur us) (client_rows (ss_o st))"
  by (auto simp: stream_success_def recordStreamCall_def Let_def call_row_def RecordFromContext_def record_call_def split: prod.splits)

lemma stream_success_out [simp]: "ss_out (stream_success env req io st) = ss_out st"
  by (simp add: stream_success_def split: prod.splits)

lemma rs_init_out [simp]: "rs_out (rs_init out tries u) = out" "rs_emitted (rs_init out tries u) = False"
  by (simp_all add: rs_init_def)

lemma read_response_rows:
  assumes "read_response env req io st = (st1, c)" and "calm (ss_out st)"
  shows "stream_rows (se_sid env) (ss_o st) st1 \<and> (c \<longrightarrow> client_rows (ss_o st1) = client_rows (ss_o st) \<and> calm (ss_out st1))"
proof -
  obtain rs err where r: "readStream (io_cfg env (ss_o st)) (se_unmarshal env) (rs_init (ss_out st) (ss_tries st) (oa_lastUsage (ss_o st)))
      (ai_lines io) (ai_scanErr io) (ai_stalled io) = (rs, err)" by fastforce
  have calm: "calm (rs_out rs)" if "err = None \<or> \<not> rs_emitted rs"
    using calmly_readStream [OF r that] assms(2) by (auto simp: calmly_def)
  show ?thesis
  proof (cases err)
    case None
    let ?st = "st\<lparr>ss_out := rs_out rs, ss_tries := rs_tries rs, ss_emitted := rs_emitted rs, ss_o := (ss_o st)\<lparr>oa_lastUsage := rs_lastUsage rs\<rparr>\<rparr>"
    from None assms(1) r have "st1 = stream_success env req io ?st" "\<not> c" by (auto simp: read_response_def Let_def)
    with stream_success_rows [of env req io ?st] calm None show ?thesis by (simp add: stream_rows_def)
  next
    case (Some e)
    with assms(1) r calm show ?thesis by (auto simp: read_response_def Let_def stream_rows_def split: if_splits)
  qed
qed

lemma one_attempt_rows:
  assumes "one_attempt env req a st = (st1, c)" and "calm (ss_out st)"
  shows "stream_rows (se_sid env) (ss_o st) st1 \<and> (c \<longrightarrow> client_rows (ss_o st1) = client_rows (ss_o st) \<and> calm (ss_out st1))"
proof -
  let ?v = "oa_vendor (ss_o st)"
  obtain net evs res where s: "SendWithRetry ?v (ai_send (se_io env a)) (ss_net st ?v) = (net, evs, res)" using prod_cases3 by blast
  have k: "client_rows (fst (rotateKey oa)) = client_rows oa" for oa by (simp add: rotateKey_def)
  show ?thesis
  proof (cases res)
    case (Inl e)
    with assms s k show ?thesis by (auto simp: one_attempt_def Let_def stream_rows_def)
  next
    case (Inr b)
    let ?st = "st\<lparr>ss_net := (ss_net st)(?v := net), ss_sends := ss_sends st @ map (\<lambda>_. target_of (ss_o st) req) (requests evs)\<rparr>"
    have "read_response env req (se_io env a) ?st = (st1, c)" using assms(1) s Inr by (simp add: one_attempt_def Let_def)
    from read_response_rows [OF this] assms(2) show ?thesis by simp
  qed
qed

lemma one_attempt_error: "one_attempt env req a st = (st1, True) \<Longrightarrow> ss_lastErr st1 \<noteq> None"
  by (auto simp: one_attempt_def read_response_def send_error_def Let_def split: prod.splits sum.splits option.splits if_splits)

lemma send_error_rows [simp]: "client_rows (ss_o st) = client_rows oa \<Longrightarrow> stream_rows sid oa (send_error env st e)"
  by (simp add: stream_rows_def)

lemma stream_loop_rows:
  assumes "calm (ss_out st)" and "left = 0 \<or> attempt > 0 \<Longrightarrow> ss_lastErr st \<noteq> None"
  shows "stream_rows (se_sid env) (ss_o st) (stream_loop env req mr fm left attempt st)"
  using assms
proof (induction left arbitrary: attempt st)
  case 0
  then show ?case by (auto simp: Let_def stream_rows_def recordStreamCall_def)
next
  case (Suc left)
  obtain m u ok where g: "getFailoverModel (oa_failover (ss_o st)) (oa_model (ss_o st)) (Vendor_String (oa_vendor (ss_o st))) = (m, u, ok)"
    using prod_cases3 by blast
  obtain st1 c where a: "one_attempt env req attempt st = (st1, c)" by fastforce
  let ?fo = "st\<lparr>ss_o := applyFailover (ss_o st) m u\<rparr>"
  have f: "stream_rows (se_sid env) (ss_o st) (stream_loop env req mr fm left (Suc attempt) ?fo)" if "attempt > 0"
    using Suc.IH [of ?fo "Suc attempt"] Suc.prems that by (simp add: stream_rows_def applyFailover_def)
  have n: "stream_rows (se_sid env) (ss_o st) (stream_loop env req mr fm left (Suc attempt) st1)" if c
    using Suc.IH [of st1 "Suc attempt"] one_attempt_rows [OF a Suc.prems(1)] one_attempt_error [of env req attempt st st1] a that
    by (simp add: stream_rows_def)
  have o: "stream_rows (se_sid env) (ss_o st) st1" using one_attempt_rows [OF a Suc.prems(1)] by blast
  have z: "stream_rows (se_sid env) (ss_o st) (st\<lparr>ss_lastErr := x\<rparr>)" for x by (simp add: stream_rows_def)
  show ?case by (cases "attempt = 0") (use g a f n o z in \<open>auto simp: stream_loop.simps(2) Let_def\<close>)
qed

lemma stream_call_rows:
  assumes "stream_call k req m = (m1, r)"
  shows "client_rows (mm_client m1) = client_rows (mm_client m)
    \<or> (\<exists>dur us. client_rows (mm_client m1) = add_row (call_row (ke_sid k) (mm_client m1) dur us) (client_rows (mm_client m)))
      \<and> (\<exists>chunks. r = Inr chunks \<and> calm chunks)"
proof -
  let ?env = "stream_env_of k" and ?we = "ke_stream_wait k"
  obtain w b where h: "RunBeforeProcessHooks (se_hooks ?env) (mm_world m) req = (w, b)" by fastforce
  show ?thesis
  proof (cases b)
    case (Inl e)
    with assms h show ?thesis by (auto simp: stream_call_def Stream_def)
  next
    case (Inr q)
    let ?st = "stream_init (mm_client m) (mm_net m) w"
    let ?st1 = "streamWithFailover ?env ?we q ?st"
    obtain oa1 lim where l: "limit ?we q (mm_client m) = (oa1, lim)" by fastforce
    have "stream_rows (ke_sid k) (mm_client m) (stream_loop ?env q mr fm (mr + fm + 2) 0 (?st\<lparr>ss_o := oa1\<rparr>))" for mr fm
      using stream_loop_rows [of "?st\<lparr>ss_o := oa1\<rparr>" "mr + fm + 2" 0 ?env q mr fm] limit_rows [OF l]
      by (simp add: stream_init_def stream_rows_def stream_env_of_def)
    with l limit_rows [OF l] have "stream_rows (ke_sid k) (mm_client m) ?st1"
      by (auto simp: streamWithFailover_def stream_init_def Let_def stream_rows_def split: option.splits)
    moreover have "mm_client m1 = ss_o ?st1" "r = Inr (ss_out ?st1)" using assms h Inr by (auto simp: stream_call_def Stream_def)
    ultimately show ?thesis by (simp add: stream_rows_def)
  qed
qed

lemma calm_no_recovery: "calm cs \<Longrightarrow> \<not> recovers cancel i cs"
  by (induction cs arbitrary: i) auto

lemma bridge_loop_items:
  "Suc 0 < length (bridge_loop r cancel i s cs) \<Longrightarrow> recovers cancel i cs \<and> (\<exists>resp. r = Inr resp)"
  by (induction cs arbitrary: i s) (auto simp: interrupted_def split: option.splits if_splits sum.splits)

subsection \<open>Properties\<close>

definition adds_row :: "string option \<Rightarrow> 's model_state \<Rightarrow> 's model_state \<Rightarrow> bool" where
  "adds_row sid m m1 \<longleftrightarrow> (\<exists>dur us. client_rows (mm_client m1) = add_row (call_row sid (mm_client m1) dur us) (client_rows (mm_client m)))"

abbreviation at_most_one_row :: "string option \<Rightarrow> 's model_state \<Rightarrow> 's model_state \<Rightarrow> bool" where
  "at_most_one_row sid m m1 \<equiv> client_rows (mm_client m1) = client_rows (mm_client m) \<or> adds_row sid m m1"

lemma Generate_rows:
  assumes "ke_hooks k = []" and "bridge_Generate b k input m = (m1, r)"
  shows "at_most_one_row (ke_sid k) m m1 \<and> (\<forall>msg. r = Some (Inr msg) \<longrightarrow> adds_row (ke_sid k) m m1)"
proof (cases "buildRequest (ke_float64 k) input (br_tools b) (ke_opts k)")
  case (Some req)
  obtain c where c: "chat_call k req m = (m1, c)" "r = Some (generate c)" using assms(2) Some by (auto simp: bridge_Generate_def split: prod.splits)
  from chat_call_rows [OF c(1) assms(1)] c(2) show ?thesis
    by (cases c) (auto simp: chat_rows_def adds_row_def generate_def)
qed (use assms in \<open>simp add: bridge_Generate_def\<close>)

lemma Stream_rows:
  assumes "ke_hooks k = []" and "bridge_Stream b k input m = (m1, r)"
  shows "at_most_one_row (ke_sid k) m m1 \<and> (\<forall>items. r = Some (Inr items) \<and> 1 < length items \<longrightarrow> adds_row (ke_sid k) m m1)"
proof (cases "buildRequest (ke_float64 k) input (br_tools b) (ke_opts k)")
  case (Some req)
  obtain m2 s where s: "stream_call k req m = (m2, s)" by fastforce
  note rows = stream_call_rows [OF s]
  show ?thesis
  proof (cases "\<exists>chunks. s = Inr chunks \<and> recovers (ke_cancel k) 0 chunks")
    case True
    then obtain chunks where t: "s = Inr chunks" "recovers (ke_cancel k) 0 chunks" by blast
    have same: "client_rows (mm_client m2) = client_rows (mm_client m)" using rows t calm_no_recovery by auto
    obtain c where c: "chat_call k req m2 = (m1, c)" "r = Some (Inr (bridge_loop c (ke_cancel k) 0 collected_init chunks))"
      using assms(2) Some s t by (auto simp: bridge_Stream_def split: prod.splits)
    have "\<exists>resp. c = Inr resp" if "Suc 0 < length (bridge_loop c (ke_cancel k) 0 collected_init chunks)"
      using bridge_loop_items [OF that] by blast
    with chat_call_rows [OF c(1) assms(1)] c(2) same show ?thesis by (cases c) (auto simp: chat_rows_def adds_row_def)
  next
    case False
    then have e: "m1 = m2" using assms(2) Some s by (auto simp: bridge_Stream_def split: sum.splits)
    have "\<not> 1 < length items" if "r = Some (Inr items)" for items
      using assms(2) Some s False that by (auto simp: bridge_Stream_def split: sum.splits dest: bridge_loop_items)
    with rows e show ?thesis by (auto simp: adds_row_def)
  qed
qed (use assms in \<open>simp add: bridge_Stream_def\<close>)


definition tracked :: "'s \<Rightarrow> 's model_state" where
  "tracked w = \<lparr>mm_client = sample_client\<lparr>oa_Telemetry := SetTracker NewTelemetry (Some [])\<rparr>, mm_net = (\<lambda>_. plain_net), mm_world = w, mm_sent = []\<rparr>"

definition sample_call :: "'s LifecycleHook list \<Rightarrow> sse_data \<Rightarrow> (nat \<Rightarrow> gerror option) \<Rightarrow> 's call_env" where
  "sample_call hooks ev scanErr = \<lparr>ke_hooks = hooks, ke_sid = Some ''s'', ke_float64 = (\<lambda>_. 0),
     ke_opts = \<lparr>co_Temperature = None, co_TopP = None, co_MaxTokens = None, co_Stop = []\<rparr>,
     ke_chat_wait = \<lparr>wv_now = 0, wv_ctx = None, wv_wake = 0\<rparr>,
     ke_chat_unmarshal = (\<lambda>_. Inr \<lparr>rb_Choices = [\<lparr>cm_Content = ''pong'', cm_ReasoningContent = [], cm_ToolCalls = []\<rparr>],
        rb_Usage = Some \<lparr>PromptTokens = 5, CompletionTokens = 2, TotalTokens = 7\<rparr>, rb_Error = None\<rparr>),
     ke_chat_io = (\<lambda>_. \<lparr>ci_newReq_err = None, ci_outcome = DoResp 200 [] [], ci_dur = 0\<rparr>),
     ke_stream_wait = \<lparr>wv_now = 0, wv_ctx = None, wv_wake = 0\<rparr>, ke_stream_unmarshal = (\<lambda>_. Some ev),
     ke_stream_io = (\<lambda>n. \<lparr>ai_ctx_done = None,
       ai_send = (\<lambda>_. \<lparr>ae_ctx_done = None, ae_jitter = 0, ae_now = 0, ae_done = 0, ae_newReq_err = None, ae_outcome = DoResp 200 [] []\<rparr>),
       ai_lines = (if scanErr n = None \<or> sr_Usage ev \<noteq> None then [''data: {}''] else []), ai_scanErr = scanErr n, ai_stalled = False, ai_dur = 0\<rparr>),
     ke_accept = (\<lambda>_. True), ke_ctxErr = ErrCanceled, ke_cancel = None\<rparr>"


text \<open>The usage that a broken stream has reported stays with the client: the next streamed call that reports
  none is charged with it.\<close>

definition usage_event :: sse_data where
  "usage_event = sample_text\<lparr>sr_Usage := Some \<lparr>PromptTokens = 9, CompletionTokens = 4, TotalTokens = 13\<rparr>\<rparr>"

lemma stale_usage_charged:
  "let m1 = fst (bridge_Stream (NewBridge ''m'') (sample_call [] usage_event (\<lambda>_. Some ErrUnexpectedEOF)) [] (tracked ()));
       m2 = fst (bridge_Stream (NewBridge ''m'') (sample_call [] (sample_event [] (Some ''stop'')) (\<lambda>_. None)) [] m1)
   in client_rows (mm_client m1) = Some [] \<and> client_rows (mm_client m2) = Some [(''s'', ''m'', ''qwen'', 0, 9, 4)]"
  by code_simp

text \<open>A call that succeeds after a reconnect is still reported to the error hooks, with the error of the attempt
  before.\<close>

definition counting_hook :: "nat LifecycleHook" where
  "counting_hook = (NewLifecycleHook ''count'')\<lparr>lh_onErrorFn := Some (\<lambda>n _ e. (Suc n, None))\<rparr>"

lemma recovered_call_reported:
  "let k = sample_call [counting_hook] (sample_event [] (Some ''stop'')) (\<lambda>n. if n = 0 then Some ErrUnexpectedEOF else None);
       c = bridge_Stream (NewBridge ''m'') k [] (tracked 0)
   in snd c = Some (Inr [PMsg (zero_EMessage\<lparr>em_Role := RoleAssistant\<rparr>)]) \<and> mm_world (fst c) = 1"
  by code_simp

text \<open>Failing over is permanent: after one call that had to use the fallback, the calls that follow, of whatever session,
  start there, with the key of the primary endpoint.\<close>

lemma failover_is_permanent:
  "let ok = sample_call [] sample_text (\<lambda>_. None);
       k = ok\<lparr>ke_chat_io := (\<lambda>n. if n = 0 then \<lparr>ci_newReq_err = None, ci_outcome = DoErr ErrEOF, ci_dur = 0\<rparr> else ke_chat_io ok n)\<rparr>;
       m1 = fst (bridge_Generate (NewBridge ''m'') k [] (tracked ()));
       m2 = fst (bridge_Generate (NewBridge ''m'') ok [] m1)
   in map (\<lambda>(url, key, model, _). (url, key, model)) (mm_sent m2) =
        [(''https://a.com/chat/completions'', ''k1'', ''m''), (''https://b.com/chat/completions'', ''k1'', ''f''),
         (''https://b.com/chat/completions'', ''k1'', ''f'')]"
  by code_simp

end
