(* ===== verification/Answers.thy ===== *)
theory Answers
  imports ModelCalls
begin

section \<open>A streamed answer, from the lines of the response to the message\<close>

text \<open>
  Sender, reader, client and bridge put together: what the framework is given, what is recorded and what is
  sent when the first response is a complete answer.
\<close>

subsection \<open>The usage a response reports\<close>

definition events_usage :: "Usage option \<Rightarrow> sse_data list \<Rightarrow> Usage option" where
  "events_usage us es = foldl (\<lambda>u e. case sr_Usage e of Some x \<Rightarrow> Some x | None \<Rightarrow> u) us es"

lemma send_usage: "send cfg s c = (s1, ok) \<Longrightarrow> rs_lastUsage s1 = rs_lastUsage s"
  by (auto simp: send_def split: if_splits)

lemma send_list_usage: "send_list cfg s cs = (s1, ok) \<Longrightarrow> rs_lastUsage s1 = rs_lastUsage s"
  by (induction cs arbitrary: s) (auto split: prod.splits if_splits dest!: send_usage)

lemma add_call_usage [simp]: "rs_lastUsage (add_call s tc) = rs_lastUsage s"
  by (simp add: add_call_def Let_def)

lemma calls_loop_usage: "calls_loop cfg s tcs = (s1, ok) \<Longrightarrow> rs_lastUsage s1 = rs_lastUsage s"
  by (induction tcs arbitrary: s) (auto simp: Let_def split: prod.splits if_splits dest!: send_usage)

lemma finish_loop_usage: "finish_loop cfg s is = (s1, ok) \<Longrightarrow> rs_lastUsage s1 = rs_lastUsage s"
  by (induction "is" arbitrary: s) (auto simp: Let_def split: prod.splits if_splits option.splits dest!: send_usage)

lemma finish_step_usage:
  assumes "finish_step cfg s = (s1, stop, err)"
  shows "rs_lastUsage s1 = rs_lastUsage s"
proof -
  obtain th r x where f: "flush (rs_think s) = (th, r, x)" using prod_cases3 by blast
  let ?cs = "if r \<noteq> [] then [text_chunk ChunkReasoning r] else []"
  obtain s2 ok2 where l: "send_list cfg (s\<lparr>rs_think := th\<rparr>) ?cs = (s2, ok2)" by fastforce
  obtain s3 ok3 where n: "finish_loop cfg s2 (rs_order s2) = (s3, ok3)" by fastforce
  obtain s4 ok4 where e: "send cfg s3 (zero_Chunk ChunkDone) = (s4, ok4)" by fastforce
  show ?thesis using assms f l n e send_list_usage [OF l] finish_loop_usage [OF n] send_usage [OF e]
    by (auto simp: finish_step_def split: if_splits)
qed

lemma process_choice_usage:
  assumes "process_choice cfg s d = (s1, stop, err)"
  shows "rs_lastUsage s1 = rs_lastUsage s"
proof -
  obtain t1 ok1 where a: "send_list cfg s (reasoning_chunks d) = (t1, ok1)" by fastforce
  obtain t2 cs where b: "content_chunks cfg t1 (sd_Content d) = (t2, cs)" by fastforce
  obtain t3 ok3 where c: "send_list cfg t2 cs = (t3, ok3)" by fastforce
  obtain t4 ok4 where e: "calls_loop cfg t3 (sd_ToolCalls d) = (t4, ok4)" by fastforce
  have "rs_lastUsage t2 = rs_lastUsage t1" using b by (auto simp: content_chunks_def split: if_splits prod.splits)
  with assms a b c e send_list_usage [OF a] send_list_usage [OF c] calls_loop_usage [OF e] show ?thesis
    by (auto simp: process_choice_def split: if_splits dest!: finish_step_usage)
qed

lemma usage_step_usage: "rs_lastUsage (usage_step cfg s u) = Some u"
  by (auto simp: usage_step_def sendChunk_def send_def Let_def split: option.splits)

lemma process_event_usage:
  assumes "process_event cfg s e = (s1, stop, err)" and "sr_Error e = None"
  shows "rs_lastUsage s1 = events_usage (rs_lastUsage s) [e]"
proof -
  let ?s = "case sr_Usage e of Some u \<Rightarrow> usage_step cfg s u | None \<Rightarrow> s"
  have "rs_lastUsage ?s = events_usage (rs_lastUsage s) [e]" by (simp add: events_usage_def usage_step_usage split: option.splits)
  with assms show ?thesis by (auto simp: process_event_def Let_def split: list.splits dest!: process_choice_usage)
qed

lemma run_events_usage:
  assumes "\<forall>e \<in> set es. sr_Error e = None"
  shows "rs_lastUsage (run_events cfg s es) = events_usage (rs_lastUsage s) es"
  using assms
proof (induction es arbitrary: s)
  case (Cons e es)
  obtain s1 stop err where "process_event cfg s e = (s1, stop, err)" using prod_cases3 by blast
  with Cons process_event_usage [OF this] show ?case by (simp add: events_usage_def)
qed (simp add: events_usage_def)

subsection \<open>The first response\<close>

lemma read_lines_finish:
  assumes "decodes un l fin" and "process_event cfg s fin = (s1, True, None)"
  shows "read_lines cfg un s (l # rest) scanErr = (ScanReturn s1 None, None)"
proof -
  have "TrimSpace l \<noteq> []" using assms(1) by (auto simp: decodes_def)
  with assms show ?thesis by (simp add: decodes_def processSSEData_def Let_def)
qed

lemma run_events_snoc:
  "run_events cfg s (es @ [e]) = fst (process_event cfg (run_events cfg s es) e)"
  by (induction es arbitrary: s) (auto simp: case_prod_beta)

lemma stream_success_row:
  "client_rows (ss_o (stream_success env req io st))
     = add_row (call_row (se_sid env) (ss_o st) (ai_dur io) (oa_lastUsage (ss_o st))) (client_rows (ss_o st))"
  by (auto simp: stream_success_def recordStreamCall_def Let_def call_row_def RecordFromContext_def record_call_def split: prod.splits)

lemma first_response_complete:
  assumes "snd (limit we req oa) = None"
    and "SendWithRetry (oa_vendor oa) (ai_send (se_io env 0)) (net (oa_vendor oa)) = (net1, evs, Inr body)"
    and "\<And>oa1. limit we req oa = (oa1, None) \<Longrightarrow> readStream (io_cfg env oa1) (se_unmarshal env) (rs_init [] 0 (oa_lastUsage oa1))
          (ai_lines (se_io env 0)) (ai_scanErr (se_io env 0)) (ai_stalled (se_io env 0)) = (rs oa1, None)"
  shows "\<exists>oa1. limit we req oa = (oa1, None)
    \<and> ss_out (streamWithFailover env we req (stream_init oa net w)) = rs_out (rs oa1)
    \<and> client_rows (ss_o (streamWithFailover env we req (stream_init oa net w)))
        = add_row (call_row (se_sid env) oa (ai_dur (se_io env 0)) (rs_lastUsage (rs oa1))) (client_rows oa)"
proof -
  obtain oa1 where l: "limit we req oa = (oa1, None)" using assms(1) by (cases "limit we req oa") auto
  have v: "oa_vendor oa1 = oa_vendor oa" "oa_model oa1 = oa_model oa" "oa_Telemetry oa1 = oa_Telemetry oa"
    using l by (auto simp: limit_def split: prod.splits)
  let ?st0 = "(stream_init oa net w)\<lparr>ss_o := oa1\<rparr>" and ?io = "se_io env 0"
  obtain st1 st where a: "one_attempt env req 0 ?st0 = (st1, False)" "st1 = stream_success env req ?io st"
    "ss_out st = rs_out (rs oa1)" "ss_o st = oa1\<lparr>oa_lastUsage := rs_lastUsage (rs oa1)\<rparr>" "ss_lastErr st = None"
    using assms(2) assms(3) [OF l] v by (auto simp: one_attempt_def read_response_def stream_init_def Let_def)
  have e: "ss_lastErr st1 = None" using a(2,5) by (auto simp: stream_success_def split: prod.splits)
  let ?mr = "oa_maxReconnect oa1" and ?fm = "maxRetries (oa_failover oa1)"
  have "stream_loop env req ?mr ?fm (?mr + ?fm + 2) 0 ?st0 = st1"
    using stream_loop_attempt [of 0 ?st0 ?mr env req st1 False ?fm "?mr + ?fm + 1"] a(1) by simp
  with l e have "streamWithFailover env we req (stream_init oa net w) = st1"
    by (simp add: streamWithFailover_def Let_def stream_init_def)
  with a(2-4) l v stream_success_row [of env req ?io st] show ?thesis by (simp add: call_row_def)
qed

subsection \<open>Properties\<close>

definition sent_call :: "sse_call list \<Rightarrow> int \<Rightarrow> ToolCall" where
  "sent_call fs i = \<lparr>tc_ID = d_ID (first_fragment fs i), tc_Type = ''function'', tc_Name = d_Name (first_fragment fs i),
     tc_Arguments = concat (map d_Arguments (fragments_of i fs))\<rparr>"

lemma answer_read:
  assumes "\<forall>n. ke_accept k n" and "oa_vendor oa \<noteq> VendorMiniMax"
    and "ai_lines (ke_stream_io k 0) = ls @ l # rest"
    and "list_all2 (decodes (ke_stream_unmarshal k)) ls es" and "decodes (ke_stream_unmarshal k) l fin"
    and "list_all quiet es" and "sr_Error fin = None" and "finishing fin"
    and "fs = concat (map event_calls (es @ [fin]))" and "named_first [] fs" and "ids_ok fs"
  shows "\<exists>rs msg. readStream (io_cfg (stream_env_of k) oa) (ke_stream_unmarshal k) (rs_init [] 0 (oa_lastUsage oa))
        (ai_lines (ke_stream_io k 0)) scanErr stalled = (rs, None)
      \<and> rs_lastUsage rs = events_usage (oa_lastUsage oa) (es @ [fin])
      \<and> (\<forall>recover. bridge_stream recover (rs_out rs) = [PMsg msg])
      \<and> em_Content msg = concat (map event_content (es @ [fin]))
      \<and> em_ToolCalls msg = map (sent_call fs) (first_seen (map d_Index fs))"
proof -
  let ?cfg = "io_cfg (stream_env_of k) oa" and ?ini = "rs_init [] 0 (oa_lastUsage oa)"
  have cfg: "live ?cfg" "sf_vendor ?cfg \<noteq> VendorMiniMax" using assms(1,2) by (simp_all add: live_def io_cfg_def stream_env_of_def)
  have q: "\<forall>e \<in> set es. sr_Error e = None \<and> \<not> finishing e" using assms(6) by (auto simp: list_all_iff quiet_def)
  note whole = events_end_to_end [OF cfg q assms(7-11), of "oa_lastUsage oa"]
  from whole [of "Inl ErrEOF"] obtain rs msg where
    p: "process_event ?cfg (run_events ?cfg ?ini es) fin = (rs, True, None)" and m: "bridge_stream (Inl ErrEOF) (rs_out rs) = [PMsg msg]"
      "em_Content msg = concat (map event_content (es @ [fin]))" "em_ToolCalls msg = map (sent_call fs) (first_seen (map d_Index fs))"
    by (auto simp: sent_call_def [abs_def])
  have inv: "calls_inv ?ini []" by (simp add: calls_inv_def rs_init_def first_seen_def)
  have r: "readStream ?cfg (ke_stream_unmarshal k) ?ini (ai_lines (ke_stream_io k 0)) scanErr stalled = (rs, None)"
    using read_lines_prefix [OF cfg assms(4,6) inv, of "l # rest" scanErr] read_lines_finish [OF assms(5) p] assms(3)
    by (simp add: readStream_def)
  have "calm (rs_out rs)" using calmly_readStream [OF r] by (auto simp: calmly_def)
  then have "bridge_stream recover (rs_out rs) = [PMsg msg]" for recover
    using m(1) bridge_loop_no_recovery [OF calm_no_recovery, of "rs_out rs" recover None 0 collected_init "Inl ErrEOF"]
    by (simp add: bridge_stream_def)
  moreover have "rs_lastUsage rs = events_usage (oa_lastUsage oa) (es @ [fin])"
    using run_events_usage [of "es @ [fin]" ?cfg ?ini] q assms(7) p by (auto simp: run_events_snoc rs_init_def)
  ultimately show ?thesis using r m(2,3) by blast
qed


text \<open>A response of three lines: text, a tool call that finishes the answer and reports usage, and the end mark.\<close>

definition answer_events :: "string \<Rightarrow> sse_data option" where
  "answer_events s = (if s = ''a'' then Some sample_text else if s = ''b''
     then Some ((sample_event [\<lparr>d_Index = 0, d_ID = ''c1'', d_Type = [], d_Name = ''ls'', d_Arguments = ''{}''\<rparr>] (Some ''tool_calls''))
       \<lparr>sr_Usage := Some \<lparr>PromptTokens = 9, CompletionTokens = 4, TotalTokens = 13\<rparr>\<rparr>) else None)"

definition answer_call :: "unit call_env" where
  "answer_call = (let k = sample_call [] sample_text (\<lambda>_. None) in
     k\<lparr>ke_stream_unmarshal := answer_events,
       ke_stream_io := (\<lambda>n. (ke_stream_io k n)\<lparr>ai_lines := [''data: a'', ''data: b'', ''data: [DONE]'']\<rparr>)\<rparr>)"


end
