(* ===== verification/UsageFlow.thy ===== *)
theory UsageFlow
  imports ModelCalls Usage
begin

section \<open>From model calls to the usage server (protocol/telemetry.go, usage_tracker.go, mcp_server.go)\<close>

text \<open>
  A sequence of model calls, the rows they hand to the tracker, the table they end up in, and what the usage
  server answers about it.
\<close>

datatype 's model_call =
    Generating llm_Bridge "'s call_env" "EMessage option list"
  | Streaming llm_Bridge "'s call_env" "EMessage option list"

fun call_env_of :: "'s model_call \<Rightarrow> 's call_env" where
  "call_env_of (Generating b k input) = k"
| "call_env_of (Streaming b k input) = k"

text \<open>The session that the context of a call carries; a missing value is the empty string.\<close>

definition call_session :: "'s model_call \<Rightarrow> string" where
  "call_session c = (case ke_sid (call_env_of c) of Some s \<Rightarrow> s | None \<Rightarrow> [])"

text \<open>A call and whether it certainly was answered: it returned a message or a recovered stream.\<close>

fun do_call :: "'s model_call \<Rightarrow> 's model_state \<Rightarrow> 's model_state \<times> bool" where
  "do_call (Generating b k input) m = (case bridge_Generate b k input m of (m1, r) \<Rightarrow>
     (m1, case r of Some (Inr msg) \<Rightarrow> True | _ \<Rightarrow> False))"
| "do_call (Streaming b k input) m = (case bridge_Stream b k input m of (m1, r) \<Rightarrow>
     (m1, case r of Some (Inr items) \<Rightarrow> 1 < length items | _ \<Rightarrow> False))"

fun do_calls :: "'s model_call list \<Rightarrow> 's model_state \<Rightarrow> 's model_state \<times> nat" where
  "do_calls [] m = (m, 0)"
| "do_calls (c # cs) m = (case do_call c m of (m1, answered) \<Rightarrow> case do_calls cs m1 of (m2, n) \<Rightarrow> (m2, (if answered then 1 else 0) + n))"

text \<open>What \<open>record\<close> does with its row if there is a tracker; the error is ignored.\<close>

definition store_row :: "UsageTracker \<Rightarrow> (gerror option \<times> string) \<times> usage_row \<Rightarrow> UsageTracker" where
  "store_row ut x = (case x of ((dberr, now), (sid, model, vendor, dur, p, c)) \<Rightarrow> fst (tracker_Record ut dberr now sid model vendor dur p c))"

definition store_rows :: "UsageTracker \<Rightarrow> ((gerror option \<times> string) \<times> usage_row) list \<Rightarrow> UsageTracker" where
  "store_rows ut xs = foldl store_row ut xs"

abbreviation row_session :: "usage_row \<Rightarrow> string" where "row_session r \<equiv> fst r"
abbreviation row_prompt :: "usage_row \<Rightarrow> int" where "row_prompt r \<equiv> fst (snd (snd (snd (snd r))))"
abbreviation row_completion :: "usage_row \<Rightarrow> int" where "row_completion r \<equiv> snd (snd (snd (snd (snd r))))"

subsection \<open>Lemmas\<close>

lemma do_call_rows:
  assumes "do_call c m = (m1, answered)" and "ke_hooks (call_env_of c) = []" and "client_rows (mm_client m) = Some rows"
  shows "\<exists>new. client_rows (mm_client m1) = Some (rows @ new) \<and> map row_session new = replicate (length new) (call_session c)
    \<and> length new \<le> 1 \<and> (answered \<longrightarrow> length new = 1)"
proof -
  have add: "\<exists>new. client_rows (mm_client m1) = Some (rows @ new) \<and> map row_session new = replicate (length new) (call_session c) \<and> length new = 1"
    if a: "adds_row (ke_sid (call_env_of c)) m m1"
  proof -
    obtain dur us where "client_rows (mm_client m1) = Some (rows @ [call_row (ke_sid (call_env_of c)) (mm_client m1) dur us])"
      using a assms(3) by (auto simp: adds_row_def)
    then show ?thesis by (intro exI [of _ "[call_row (ke_sid (call_env_of c)) (mm_client m1) dur us]"]) (simp add: call_row_def call_session_def)
  qed
  have "at_most_one_row (ke_sid (call_env_of c)) m m1 \<and> (answered \<longrightarrow> adds_row (ke_sid (call_env_of c)) m m1)"
  proof (cases c)
    case (Generating b k input)
    obtain r where "bridge_Generate b k input m = (m1, r)" "answered \<longrightarrow> (\<exists>msg. r = Some (Inr msg))"
      using assms(1) Generating by (auto split: prod.splits option.splits sum.splits)
    with Generate_rows [OF _ this(1)] assms(2) Generating show ?thesis by auto
  next
    case (Streaming b k input)
    obtain r where "bridge_Stream b k input m = (m1, r)" "answered \<longrightarrow> (\<exists>items. r = Some (Inr items) \<and> 1 < length items)"
      using assms(1) Streaming by (auto split: prod.splits option.splits sum.splits)
    with Stream_rows [OF _ this(1)] assms(2) Streaming show ?thesis by auto
  qed
  with add assms(3) show ?thesis by (metis append_Nil2 le_eq_less_or_eq length_0_conv list.map(1) replicate_0 zero_le)
qed

lemma do_calls_rows:
  assumes "do_calls cs m = (m1, answered)" and "list_all (\<lambda>c. ke_hooks (call_env_of c) = []) cs" and "client_rows (mm_client m) = Some rows"
  shows "\<exists>new. client_rows (mm_client m1) = Some (rows @ new) \<and> answered \<le> length new
    \<and> (\<forall>sid. count_list (map row_session new) sid \<le> count_list (map call_session cs) sid) \<and> length new \<le> length cs"
  using assms
proof (induction cs arbitrary: m rows m1 answered)
  case (Cons c cs)
  obtain m2 a n where c: "do_call c m = (m2, a)" "do_calls cs m2 = (m1, n)" "answered = (if a then 1 else 0) + n"
    using Cons.prems(1) by (auto split: prod.splits)
  obtain new where new: "client_rows (mm_client m2) = Some (rows @ new)" "map row_session new = replicate (length new) (call_session c)"
    "length new \<le> 1" "a \<longrightarrow> length new = 1" using do_call_rows [OF c(1) _ Cons.prems(3)] Cons.prems(2) by auto
  obtain more where more: "client_rows (mm_client m1) = Some ((rows @ new) @ more)" "n \<le> length more"
    "\<forall>sid. count_list (map row_session more) sid \<le> count_list (map call_session cs) sid" "length more \<le> length cs"
    using Cons.IH [OF c(2) _ new(1)] Cons.prems(2) by auto
  have "count_list (map row_session (new @ more)) sid \<le> count_list (map call_session (c # cs)) sid" for sid
  proof -
    have "count_list (map row_session new) sid \<le> (if call_session c = sid then 1 else 0)"
      using new(2,3) by (cases new) auto
    moreover have "count_list (map row_session more) sid \<le> count_list (map call_session cs) sid" using more(3) by blast
    ultimately show ?thesis by (auto split: if_splits)
  qed
  with more new c(3) show ?case by (intro exI [of _ "new @ more"]) auto
qed simp

lemma store_rows_open:
  assumes "ut_stmt ut" and "list_all (\<lambda>x. fst (fst x) = None) xs"
  shows "ut_stmt (store_rows ut xs) \<and> ut_db (store_rows ut xs) = ut_db ut
    \<and> (\<exists>rs. ut_rows (store_rows ut xs) = ut_rows ut @ rs \<and> map ur_SessionID rs = map (\<lambda>x. row_session (snd x)) xs
        \<and> map ur_PromptTokens rs = map (\<lambda>x. row_prompt (snd x)) xs \<and> map ur_CompletionTokens rs = map (\<lambda>x. row_completion (snd x)) xs)"
  using assms
proof (induction xs arbitrary: ut)
  case (Cons x xs)
  obtain now sid model vendor dur p c where x: "x = ((None, now), (sid, model, vendor, dur, p, c))" using Cons.prems(2) by (cases x) auto
  let ?r = "\<lparr>ur_ID = ut_last ut + 1, ur_SessionID = sid, ur_Model = model, ur_Vendor = vendor, ur_Duration = dur, ur_PromptTokens = p,
    ur_CompletionTokens = c, ur_TotalTokens = wrap64 (p + c), ur_CreatedAt = now\<rparr>"
  let ?ut = "ut\<lparr>ut_last := ut_last ut + 1, ut_rows := ut_rows ut @ [?r]\<rparr>"
  have s: "store_row ut x = ?ut" using Cons.prems(1) by (simp add: x store_row_def tracker_Record_def)
  from Cons.IH [of ?ut] Cons.prems obtain rs where "ut_stmt (store_rows ?ut xs)" "ut_db (store_rows ?ut xs) = ut_db ut"
    "ut_rows (store_rows ?ut xs) = (ut_rows ut @ [?r]) @ rs" "map ur_SessionID rs = map (\<lambda>x. row_session (snd x)) xs"
    "map ur_PromptTokens rs = map (\<lambda>x. row_prompt (snd x)) xs" "map ur_CompletionTokens rs = map (\<lambda>x. row_completion (snd x)) xs" by auto
  moreover have "store_rows ut (x # xs) = store_rows ?ut xs" by (simp add: store_rows_def s)
  ultimately show ?case by (intro conjI exI [of _ "?r # rs"]) (simp_all add: x)
qed (simp add: store_rows_def)

subsection \<open>Properties\<close>


definition sample_mcp :: "UsageTracker \<Rightarrow> mcp_env" where
  "sample_mcp ut = \<lparr>me_tracker = Some ut, me_dberr = None, me_avg = (\<lambda>_. 0), me_order = (\<lambda>gs. gs), me_DATE = (\<lambda>s. s),
     me_daily_params = (\<lambda>_. None), me_query_params = (\<lambda>_. None)\<rparr>"


end
