(* ===== verification/Accounts.thy ===== *)
theory Accounts
  imports Confinement ModelCalls
begin

section \<open>What served requests do with the model\<close>

text \<open>
  The agent framework calls the model through the bridge and the tools through the registry, in any order.
  Here the world of a program's agent holds the client behind the bridge, so that what a run of the program
  has sent and recorded can be read off its state.
\<close>

subsection \<open>The framework\<close>

type_synonym 'p agent_world = "('p \<times> unit model_state) tool_world"

abbreviation model_of :: "'p agent_world \<Rightarrow> unit model_state" where
  "model_of w \<equiv> snd (snd (tw_sys w))"

definition set_model :: "'p agent_world \<Rightarrow> unit model_state \<Rightarrow> 'p agent_world" where
  "set_model w m = w\<lparr>tw_sys := (fst (tw_sys w), fst (snd (tw_sys w)), m)\<rparr>"

lemma model_of_set [simp]: "model_of (set_model w m) = m"
  by (simp add: set_model_def)

text \<open>A run of the loop: tool calls and calls of the bridge or one of its copies; the program registers no hooks.\<close>

inductive agent_run :: "'p agent_world ToolRegistry \<Rightarrow> 'p agent_world \<Rightarrow> 'p agent_world \<Rightarrow> bool" for reg where
  idle: "agent_run reg w w"
| tool: "agent_run reg w w1 \<Longrightarrow> agent_run reg w (fst (Dispatch reg w1 name args))"
| generate: "agent_run reg w w1 \<Longrightarrow> ke_hooks k = [] \<Longrightarrow> agent_run reg w (set_model w1 (fst (bridge_Generate b k input (model_of w1))))"
| stream: "agent_run reg w w1 \<Longrightarrow> ke_hooks k = [] \<Longrightarrow> agent_run reg w (set_model w1 (fst (bridge_Stream b k input (model_of w1))))"

definition acts_through :: "'p agent_world ToolRegistry \<Rightarrow> 'p agent_world react_stream \<Rightarrow> bool" where
  "acts_through reg inner \<longleftrightarrow> (\<forall>w ms. agent_run reg w (fst (inner w ms)))"

text \<open>A command that the terminal runs cannot reach into the program's memory, and neither can the other operations
  of the system that the terminal uses.\<close>

definition spares_client :: "('p \<times> unit model_state) tool_env \<Rightarrow> bool" where
  "spares_client v \<longleftrightarrow> (\<forall>s name args. snd (snd (fst (te_exec (tv_term v) s name args))) = snd (snd s))
     \<and> (\<forall>s. snd (snd (fst (te_openDrive (tv_term v) s))) = snd (snd s)) \<and> (\<forall>s. snd (snd (fst (te_CreateTemp (tv_term v) s))) = snd (snd s))
     \<and> (\<forall>s name. snd (snd (te_Remove (tv_term v) s name)) = snd (snd s))"

lemma spares_simps:
  assumes "spares_client v"
  shows "snd (snd (fst (te_exec (tv_term v) s name args))) = snd (snd s)" "snd (snd (fst (te_openDrive (tv_term v) s))) = snd (snd s)"
    "snd (snd (fst (te_CreateTemp (tv_term v) s))) = snd (snd s)" "snd (snd (te_Remove (tv_term v) s name)) = snd (snd s)"
  using assms unfolding spares_client_def by blast+

lemma runElevated_model: "spares_client v \<Longrightarrow> snd (snd (fst (runElevated (tv_term v) s c))) = snd (snd s)"
  by (simp add: runElevated_def runCmd_def case_prod_beta spares_simps split: sum.splits option.splits)

lemma run_and_filter_model:
  assumes "spares_client v" and "term_items t = []"
  shows "snd (snd (fst (snd (run_and_filter (tv_term v) fs t s c)))) = snd (snd s) \<and> term_items (fst (run_and_filter (tv_term v) fs t s c)) = []"
  using assms(2) by (simp add: run_and_filter_def runCmd_def isAdmin_def Let_def case_prod_beta spares_simps [OF assms(1)]
      runElevated_model [OF assms(1)] split: option.splits)

text \<open>No interceptor is registered by the program; without one the tools leave the client as it is.\<close>

definition plain_terminal :: "'p agent_world \<Rightarrow> bool" where
  "plain_terminal w \<longleftrightarrow> term_items (tw_term w) = []"

lemma tool_call_model:
  assumes "spares_client v" and "plain_terminal w"
  shows "model_of (fst (tool_call v w inp)) = model_of w \<and> plain_terminal (fst (tool_call v w inp))"
proof (cases inp)
  case (InTerminal command)
  obtain t s r where c: "RunTerminal (tv_term v) (tv_filters v) (tw_term w) (tw_sys w) command = (t, s, r)" using prod_cases3 by blast
  have "snd (snd s) = snd (snd (tw_sys w)) \<and> term_items t = []"
    using arg_cong [OF c, where f = fst] arg_cong [OF c, where f = "\<lambda>x. fst (snd x)"] assms(2)
    by (auto simp: run_and_filter_model [OF assms(1)] RunTerminal_def plain_terminal_def Let_def case_prod_beta split: option.splits)
  with c InTerminal show ?thesis by (simp add: plain_terminal_def)
qed (use assms in \<open>auto simp: plain_terminal_def split: prod.splits\<close>)

subsection \<open>The client over a run\<close>

definition model_kept :: "unit model_state \<Rightarrow> unit model_state \<Rightarrow> bool" where
  "model_kept m m1 \<longleftrightarrow> stays (mm_client m) (mm_client m1)
     \<and> (\<exists>ts. mm_sent m1 = mm_sent m @ ts \<and> list_all (allowed_target (mm_client m)) ts)"

lemma model_kept_refl [simp]: "model_kept m m"
  by (simp add: model_kept_def routed.refl)

lemma model_kept_trans:
  assumes "model_kept a b" and "model_kept b c"
  shows "model_kept a c"
proof -
  obtain ts us where t: "mm_sent b = mm_sent a @ ts" "list_all (allowed_target (mm_client a)) ts"
    "mm_sent c = mm_sent b @ us" "list_all (allowed_target (mm_client b)) us"
    and s: "stays (mm_client a) (mm_client b)" "stays (mm_client b) (mm_client c)"
    using assms unfolding model_kept_def by blast
  have "list_all (allowed_target (mm_client a)) (ts @ us)" using t(2,4) routed.allowed_back [OF s(1)] by (auto simp: list_all_iff)
  with t(1,3) routed.trans [OF s] show ?thesis unfolding model_kept_def by auto
qed

lemma bridge_kept:
  "model_kept m (fst (bridge_Generate b k input m))" "model_kept m (fst (bridge_Stream b k input m))"
  using routed.bridge_rel [of m b k input] by (simp_all add: model_kept_def list_all_iff)

definition client_kept :: "'p agent_world \<Rightarrow> 'p agent_world \<Rightarrow> bool" where
  "client_kept w w1 \<longleftrightarrow> (plain_terminal w \<longrightarrow> plain_terminal w1 \<and> model_kept (model_of w) (model_of w1))"

lemma client_kept_refl [simp]: "client_kept w w"
  by (simp add: client_kept_def)

lemma client_kept_trans: "client_kept a b \<Longrightarrow> client_kept b c \<Longrightarrow> client_kept a c"
  unfolding client_kept_def by (blast intro: model_kept_trans)

lemma agent_run_kept:
  assumes "agent_run reg w w1" and "register_all InferTool (tool_call v) tool_table NewToolRegistry = Inr reg" and "infers InferTool"
    and "spares_client v"
  shows "client_kept w w1"
  using assms(1)
proof (induction rule: agent_run.induct)
  case (tool w w1 name args)
  have "client_kept w1 (fst (Dispatch reg w1 name args))"
    by (rule dispatch_rel [OF assms(2,3)]) (simp_all add: client_kept_def tool_call_model [OF assms(4)])
  with tool.IH show ?case by (rule client_kept_trans)
next
  case (generate w w1 k b input)
  have "client_kept w1 (set_model w1 (fst (bridge_Generate b k input (model_of w1))))"
    by (simp add: client_kept_def bridge_kept) (simp add: plain_terminal_def set_model_def)
  with generate.IH show ?case by (rule client_kept_trans)
next
  case (stream w w1 k b input)
  have "client_kept w1 (set_model w1 (fst (bridge_Stream b k input (model_of w1))))"
    by (simp add: client_kept_def bridge_kept) (simp add: plain_terminal_def set_model_def)
  with stream.IH show ?case by (rule client_kept_trans)
qed simp

text \<open>A streamed chat makes exactly one call of the loop.\<close>

lemma served_world:
  assumes "booted be app" and "hi_Path q = ''/api/chat/stream''" and "chat_post q message" and "sx_flusher x"
  shows "\<exists>ms. server_world (fst (serve app cancel stop x q st)) = fst (ap_inner app (server_world st) ms)"
proof -
  let ?env = "request_env app cancel stop x"
  have s: "\<exists>ms. rs_world (fst (sx_Stream ?env w msgs)) = fst (ap_inner app (rs_world w) ms)" for w msgs
    using agent_world(2) [OF booted_parts(1-4) [OF assms(1)], of "\<lambda>w w1. \<exists>ms. w1 = fst (ap_inner app w ms)"] by (fastforce simp: request_env_def)
  have "\<exists>msgs. server_world (fst (HandleChatStream ?env q st)) = rs_world (fst (sx_Stream ?env (sv_world st) msgs))"
  proof -
    obtain st1 msgs where n: "snapshot ?env (sessionID (sv_sessions st) q) (Some (user_message message)) st = (st1, msgs)" by fastforce
    obtain w res where w: "sx_Stream ?env (sv_world st) msgs = (w, res)" by fastforce
    have f: "sx_flusher ?env" using assms(4) by (simp add: request_env_def)
    have "server_world (fst (HandleChatStream ?env q st)) = rs_world w"
      using assms(3) n w f snapshot_world [OF n] by (auto simp: HandleChatStream_def chat_post_def Let_def split: prod.splits sum.splits option.splits)
    with w show ?thesis by (metis fst_conv)
  qed
  with s show ?thesis by (simp add: serve_def assms(2) mux_stream) metis
qed

subsection \<open>The configured client\<close>

definition configured_routes :: "AppConfig \<Rightarrow> (string \<times> string \<times> Vendor) set" where
  "configured_routes cfg = (let oc = cf_OpenAI cfg in
     {(completions_url (oc_BaseURL oc), oc_Model oc, DetectVendor (TrimRight (oc_BaseURL oc) ''/''))}
     \<union> (if oc_FallbackModel oc \<noteq> [] \<and> oc_FallbackBaseURL oc \<noteq> []
        then {(completions_url (oc_FallbackBaseURL oc), oc_FallbackModel oc, DetectVendor (oc_FallbackBaseURL oc))} else {}))"

definition configured_keys :: "AppConfig \<Rightarrow> string set" where
  "configured_keys cfg = insert (oc_APIKey (cf_OpenAI cfg)) (set (oc_APIKeys (cf_OpenAI cfg)))"

lemma NewOpenAI_routes:
  assumes "NewOpenAI allowPrivate c = Inr (oa, vendor, health)"
  shows "client_keys oa \<subseteq> insert (c_APIKey c) (set (c_APIKeys c)) \<and> client_rows oa = None
    \<and> routes oa = {(completions_url (c_BaseURL c), c_Model c, DetectVendor (TrimRight (c_BaseURL c) ''/''))}
       \<union> (if c_FallbackModel c \<noteq> [] \<and> c_FallbackBaseURL c \<noteq> []
          then {(completions_url (c_FallbackBaseURL c), c_FallbackModel c, DetectVendor (c_FallbackBaseURL c))} else {})"
proof -
  have v: "ValidateBaseURL allowPrivate (TrimRight (c_BaseURL c) ''/'') = None"
    using assms by (simp add: NewOpenAI_def Let_def split: option.splits)
  note o = assms [unfolded NewOpenAI_def Let_def v option.case, THEN Inr_inject, THEN arg_cong [where f = fst], unfolded fst_conv, symmetric]
  have "oa_apiKey oa = c_APIKey c" "set (oa_apiKeys oa) \<subseteq> insert (c_APIKey c) (set (c_APIKeys c))"
    "oa_baseURL oa = completions_url (c_BaseURL c)" "oa_model oa = c_Model c" "oa_vendor oa = DetectVendor (TrimRight (c_BaseURL c) ''/'')"
    "client_rows oa = None" "oa_failover oa = (if c_FallbackModel c \<noteq> [] \<and> c_FallbackBaseURL c \<noteq> []
       then fallback_config (c_FallbackModel c) (c_FallbackBaseURL c) else zero_FailoverConfig)"
    unfolding o by (simp_all add: completions_url_def SetThresholds_def NewTelemetry_def) auto
  then show ?thesis by (auto simp: routes_def client_keys_def getFailoverModel_def fallback_config_def zero_FailoverConfig_def)
qed

lemma boot_tools: "boot be = Inr app \<Longrightarrow> \<exists>ws. ap_tools app = (bt_tools be)\<lparr>tv_root := ws\<rparr>"
  by (auto simp: boot_def Let_def split: prod.splits if_splits option.splits sum.splits)

lemma booted_tools:
  assumes "booted be app"
  shows "spares_client (ap_tools app) = spares_client (bt_tools be)"
proof -
  have "\<exists>ws. ap_tools app = (bt_tools be)\<lparr>tv_root := ws\<rparr>" using assms by (auto simp: booted_def dest!: boot_tools)
  then show ?thesis by (auto simp: spares_client_def)
qed

lemma boot_routes:
  assumes "boot be = Inr app"
  shows "routes (ap_client app) = configured_routes (ap_config app) \<and> client_keys (ap_client app) \<subseteq> configured_keys (ap_config app)
    \<and> client_rows (ap_client app) \<in> {None, Some []}"
proof (rule boot_parts [OF assms])
  fix e client vendor health
  assume b: "NewBridgeFromConfig (bt_parse_text be) e (ap_config app) = Inr ((client, vendor, health), ap_model app)"
    and c: "ap_client app = boot_client be (ap_config app) client"
  let ?oc = "cf_OpenAI (ap_config app)"
  obtain allow c where n: "NewOpenAI allow c = Inr (client, vendor, health)" "c_APIKey c = oc_APIKey ?oc" "c_APIKeys c = oc_APIKeys ?oc"
    "c_BaseURL c = oc_BaseURL ?oc" "c_Model c = oc_Model ?oc" "c_FallbackModel c = oc_FallbackModel ?oc" "c_FallbackBaseURL c = oc_FallbackBaseURL ?oc"
    using b by (auto simp: NewBridgeFromConfig_def Resolve_def New_protocol_def Register_kind_def openai_factory_def Let_def
        split: option.splits sum.splits if_splits)
  have "routes (ap_client app) = routes client" "client_keys (ap_client app) = client_keys client" "client_rows (ap_client app) \<in> {client_rows client, Some []}"
    using c by (simp_all add: boot_client_def routes_def client_keys_def SetTracker_def split: option.splits)
  with NewOpenAI_routes [OF n(1)] n(2-) show ?thesis by (auto simp: configured_routes_def configured_keys_def Let_def)
qed

subsection \<open>Properties\<close>


text \<open>A program whose agent asks the model before it answers.\<close>

definition sample_openai :: OpenAI where
  "sample_openai = (let e = [''OPENAI_API_KEY'' \<mapsto> ''k'', ''OPENAI_BASE_URL'' \<mapsto> ''https://api.deepseek.com''] in
     case NewBridgeFromConfig (\<lambda>_. ''bad'') e (snd (Load_config (\<lambda>_. None) e None)) of Inr ((client, _), _) \<Rightarrow> client | Inl _ \<Rightarrow> sample_client)"

definition ask_model :: "'p agent_world \<Rightarrow> 'p agent_world" where
  "ask_model w = set_model w (fst (bridge_Generate (NewBridge ''m'') (sample_call [] sample_text (\<lambda>_. None)) [] (model_of w)))"

abbreviation asking_boot :: "(unit \<times> unit model_state, dto) boot_env" where
  "asking_boot \<equiv> boot_with ((), \<lparr>mm_client = sample_openai, mm_net = (\<lambda>_. plain_net), mm_world = (), mm_sent = []\<rparr>) ask_model"

lemma sample_openai_booted:
  assumes "boot (boot_with sys act) = Inr app"
  shows "ap_client app = sample_openai"
proof (rule boot_parts [OF assms])
  fix e client vendor health
  assume l: "Load_config (bt_ParseDuration (boot_with sys act)) (bt_environ (boot_with sys act)) (bt_envfile (boot_with sys act)) = (e, ap_config app)"
    and b: "NewBridgeFromConfig (bt_parse_text (boot_with sys act)) e (ap_config app) = Inr ((client, vendor, health), ap_model app)"
    and c: "ap_client app = boot_client (boot_with sys act) (ap_config app) client"
  have cfg: "ap_config app = snd (Load_config (\<lambda>_. None) e None)" and e: "e = [''OPENAI_API_KEY'' \<mapsto> ''k'', ''OPENAI_BASE_URL'' \<mapsto> ''https://api.deepseek.com'']"
    using l by (auto simp: boot_with_def Load_config_def LoadEnvFile_def Let_def)
  have "\<not> rw_UsageDB (cf_Raw (ap_config app))" unfolding cfg e by (simp add: Load_config_def LoadEnvFile_def Let_def GetEnv_def Getenv_def)
  then have "ap_client app = client" using c by (simp add: boot_client_def boot_usage_def)
  with b show ?thesis unfolding cfg e by (simp add: sample_openai_def boot_with_def Let_def)
qed

lemma ask_model_run: "agent_run reg w (ask_model w)"
  unfolding ask_model_def by (rule agent_run.generate [OF agent_run.idle]) (simp add: sample_call_def)

lemma plain_tools_spare: "spares_client plain_tools"
  by (simp add: spares_client_def plain_tools_def)

lemma ex_one: "(\<exists>z. xs = [(a, b, c, z)]) \<longleftrightarrow> (case xs of [(a', b', c', _)] \<Rightarrow> a' = a \<and> b' = b \<and> c' = c | _ \<Rightarrow> False)"
  by (auto split: list.splits)


end
